(* ===== verification/Prelude.thy ===== *)
theory Prelude
  imports Main "HOL-Library.Word" "HOL-Library.Sublist" "HOL-Library.Char_ord"
    "HOL-Library.List_Lexorder"
begin

text \<open>
  Shared vocabulary of the development: results of fallible Go calls, computations over an
  explicit world, the lemma collections the component proofs use, and Go maps.

  A Go call that returns \<open>(T, error)\<close> is a function \<open>'w \<Rightarrow> ('a, 'e) outcome \<times> 'w\<close>: \<open>Ok\<close> is a nil
  error, \<open>Err\<close> a non-nil error, and \<open>Panic\<close> a run-time panic (a nil dereference or an explicit
  \<open>panic\<close>), which no caller in the program recovers from.
\<close>

named_theorems io_simps "equations that run a computation step by step"
named_theorems frame_simps "operations that leave a part of the world unchanged"

section \<open>Outcomes and computations\<close>

datatype ('a, 'e) outcome = Ok 'a | Err 'e | Panic string

type_synonym ('a, 'e, 'w) io = "'w \<Rightarrow> ('a, 'e) outcome \<times> 'w"

definition io_ok :: "'a \<Rightarrow> ('a, 'e, 'w) io" where
  "io_ok x w = (Ok x, w)"

definition io_err :: "'e \<Rightarrow> ('a, 'e, 'w) io" where
  "io_err e w = (Err e, w)"

definition io_panic :: "string \<Rightarrow> ('a, 'e, 'w) io" where
  "io_panic p w = (Panic p, w)"

definition io_bind :: "('a, 'e, 'w) io \<Rightarrow> ('a \<Rightarrow> ('b, 'e, 'w) io) \<Rightarrow> ('b, 'e, 'w) io" where
  "io_bind m f w =
     (case m w of
        (Ok x, w') \<Rightarrow> f x w'
      | (Err e, w') \<Rightarrow> (Err e, w')
      | (Panic p, w') \<Rightarrow> (Panic p, w'))"

text \<open>\<open>io_handle m h f\<close> is \<open>x, err := m; if err != nil { h err } else { f x }\<close>.\<close>

definition io_handle ::
  "('a, 'e, 'w) io \<Rightarrow> ('e \<Rightarrow> ('b, 'e, 'w) io) \<Rightarrow> ('a \<Rightarrow> ('b, 'e, 'w) io) \<Rightarrow> ('b, 'e, 'w) io" where
  "io_handle m h f w =
     (case m w of
        (Ok x, w') \<Rightarrow> f x w'
      | (Err e, w') \<Rightarrow> h e w'
      | (Panic p, w') \<Rightarrow> (Panic p, w'))"

declare io_ok_def [io_simps] io_err_def [io_simps] io_panic_def [io_simps]
  io_bind_def [io_simps] io_handle_def [io_simps]

definition no_panic :: "('a, 'e) outcome \<Rightarrow> bool" where
  "no_panic r = (case r of Panic p \<Rightarrow> False | _ \<Rightarrow> True)"

lemma no_panic_simps [simp]:
  "no_panic (Ok x)" "no_panic (Err e)" "\<not> no_panic (Panic p)"
  by (simp_all add: no_panic_def)

lemma io_bind_no_panic:
  assumes "no_panic (fst (m w))"
    and "\<And>x w'. m w = (Ok x, w') \<Longrightarrow> no_panic (fst (f x w'))"
  shows "no_panic (fst (io_bind m f w))"
  using assms by (auto simp: io_bind_def split: outcome.splits prod.splits)

lemma io_handle_no_panic:
  assumes "no_panic (fst (m w))"
    and "\<And>x w'. m w = (Ok x, w') \<Longrightarrow> no_panic (fst (f x w'))"
    and "\<And>e w'. m w = (Err e, w') \<Longrightarrow> no_panic (fst (h e w'))"
  shows "no_panic (fst (io_handle m h f w))"
  using assms by (auto simp: io_handle_def split: outcome.splits prod.splits)

lemma io_bind_Ok_iff:
  "io_bind m f w = (Ok y, w2) \<longleftrightarrow> (\<exists>x w1. m w = (Ok x, w1) \<and> f x w1 = (Ok y, w2))"
  by (auto simp: io_bind_def split: outcome.splits prod.splits)

lemma io_bind_Ok: "m w = (Ok x, w1) \<Longrightarrow> io_bind m f w = f x w1"
  by (simp add: io_bind_def)

lemma io_bind_Err: "m w = (Err e, w1) \<Longrightarrow> io_bind m f w = (Err e, w1)"
  by (simp add: io_bind_def)

lemma io_handle_Ok: "m w = (Ok x, w1) \<Longrightarrow> io_handle m h f w = f x w1"
  by (simp add: io_handle_def)

lemma io_handle_Err: "m w = (Err e, w1) \<Longrightarrow> io_handle m h f w = h e w1"
  by (simp add: io_handle_def)

section \<open>Go maps as association lists\<close>

text \<open>
  A Go \<open>map[string]string\<close> is an association list whose first binding of a key counts. Reading an
  absent key gives the zero value; \<open>maps.Equal\<close> compares the two maps as finite functions.
\<close>

type_synonym params = "(string \<times> string) list"

definition param_get :: "params \<Rightarrow> string \<Rightarrow> string" where
  "param_get m k = (case map_of m k of None \<Rightarrow> [] | Some v \<Rightarrow> v)"

definition maps_equal :: "params \<Rightarrow> params \<Rightarrow> bool" where
  "maps_equal m1 m2 = (\<forall>k \<in> set (map fst m1 @ map fst m2). map_of m1 k = map_of m2 k)"

lemma maps_equal_iff: "maps_equal m1 m2 \<longleftrightarrow> map_of m1 = map_of m2"
proof
  assume eq: "maps_equal m1 m2"
  show "map_of m1 = map_of m2"
  proof
    fix k
    show "map_of m1 k = map_of m2 k"
    proof (cases "k \<in> fst ` set m1 \<union> fst ` set m2")
      case True
      with eq show ?thesis by (auto simp: maps_equal_def)
    next
      case False
      then have "map_of m1 k = None" "map_of m2 k = None"
        by (auto simp: map_of_eq_None_iff)
      then show ?thesis by simp
    qed
  qed
qed (simp add: maps_equal_def)

end
