(* ===== verification/GoStrings.thy ===== *)
theory GoStrings
  imports Prelude
begin

text \<open>
  What the driver uses of Go's packages \<open>strings\<close> and \<open>strconv\<close>. A Go string is a byte
  sequence, modelled as an HOL \<open>string\<close> whose characters are the bytes; \<open>len\<close> counts bytes.
\<close>

section \<open>Bytes and case\<close>

definition byte :: "char \<Rightarrow> nat" where
  "byte c = of_char c"

lemma byte_lt_256 [simp]: "byte c < 256"
proof -
  have "byte c = (of_char (char_of (of_char c :: nat)) :: nat)"
    by (simp only: char_of_char byte_def)
  also have "\<dots> = of_char c mod 256" by (simp only: of_char_of)
  finally show ?thesis by simp
qed

lemma char_of_byte [simp]: "char_of (byte c) = c"
  by (simp add: byte_def)

lemma byte_inject [simp]: "byte a = byte b \<longleftrightarrow> a = b"
  by (simp add: byte_def)

lemma byte_int: "int (byte c) = of_char c"
  by (simp only: byte_def of_nat_of_char)

definition is_ascii :: "char \<Rightarrow> bool" where
  "is_ascii c = (byte c < 128)"

definition is_digit :: "char \<Rightarrow> bool" where
  "is_digit c = (48 \<le> byte c \<and> byte c \<le> 57)"

definition is_alpha :: "char \<Rightarrow> bool" where
  "is_alpha c = (65 \<le> byte c \<and> byte c \<le> 90 \<or> 97 \<le> byte c \<and> byte c \<le> 122)"

definition ascii_lower :: "char \<Rightarrow> char" where
  "ascii_lower c = (if 65 \<le> byte c \<and> byte c \<le> 90 then char_of (byte c + 32) else c)"

text \<open>Evaluation compares bytes as integers.\<close>

lemma byte_class_code [code]:
  "is_ascii c = ((of_char c :: int) < 128)"
  "is_digit c = (48 \<le> (of_char c :: int) \<and> (of_char c :: int) \<le> 57)"
  "is_alpha c = (65 \<le> (of_char c :: int) \<and> (of_char c :: int) \<le> 90 \<or>
     97 \<le> (of_char c :: int) \<and> (of_char c :: int) \<le> 122)"
  by (simp_all add: is_ascii_def is_digit_def is_alpha_def flip: byte_int)

lemma ascii_lower_code [code]:
  "ascii_lower c = (if 65 \<le> (of_char c :: int) \<and> (of_char c :: int) \<le> 90
     then char_of ((of_char c :: int) + 32) else c)"
proof -
  have "char_of (int (byte c) + 32) = char_of (byte c + 32)"
    using char_of_nat [of "byte c + 32", where 'a = int] by simp
  then show ?thesis by (simp add: ascii_lower_def flip: byte_int)
qed

text \<open>
  \<open>strings.ToLower\<close>: byte by byte on an ASCII string. A string with a byte above 127 is mapped rune
  by rune through the Unicode case tables, which are the parameter \<open>uni\<close>.
\<close>

definition to_lower :: "(string \<Rightarrow> string) \<Rightarrow> string \<Rightarrow> string" where
  "to_lower uni s = (if list_all is_ascii s then map ascii_lower s else uni s)"

lemma to_lower_ascii: "list_all is_ascii s \<Longrightarrow> to_lower uni s = map ascii_lower s"
  by (simp add: to_lower_def)

section \<open>Searching\<close>

fun contains :: "string \<Rightarrow> string \<Rightarrow> bool" where
  "contains [] p = (p = [])"
| "contains (c # s) p = (prefix p (c # s) \<or> contains s p)"

lemma contains_iff: "contains s p \<longleftrightarrow> (\<exists>a b. s = a @ p @ b)"
proof (induction s)
  case Nil
  then show ?case by simp
next
  case (Cons c s)
  have "(\<exists>a b. c # s = a @ p @ b) \<longleftrightarrow> prefix p (c # s) \<or> (\<exists>a b. s = a @ p @ b)"
    by (metis append_Cons append_Nil prefixE prefixI append_eq_Cons_conv)
  with Cons show ?case by simp
qed

text \<open>\<open>strings.Cut\<close> at the first occurrence of a single byte: before, after, found.\<close>

fun cut :: "char \<Rightarrow> string \<Rightarrow> string \<times> string \<times> bool" where
  "cut d [] = ([], [], False)"
| "cut d (c # s) = (if c = d then ([], s, True)
                    else case cut d s of (a, b, found) \<Rightarrow> (c # a, b, found))"

lemma cut_found: "cut d s = (a, b, True) \<Longrightarrow> s = a @ d # b \<and> d \<notin> set a"
  by (induction s arbitrary: a) (auto split: if_splits prod.splits)

lemma cut_not_found: "cut d s = (a, b, False) \<Longrightarrow> a = s \<and> b = [] \<and> d \<notin> set s"
  by (induction s arbitrary: a) (auto split: if_splits prod.splits)

text \<open>\<open>strings.Join\<close>.\<close>

fun join :: "string \<Rightarrow> string list \<Rightarrow> string" where
  "join sep [] = []"
| "join sep [x] = x"
| "join sep (x # y # xs) = x @ sep @ join sep (y # xs)"

section \<open>TrimSpace\<close>

text \<open>
  \<open>unicode.IsSpace\<close> on the UTF-8 encoding: the six ASCII spaces, the two-byte U+0085 and U+00A0, and
  the three-byte U+1680, U+2000 to U+200A, U+2028, U+2029, U+202F, U+205F and U+3000.
\<close>

definition space1 :: "char \<Rightarrow> bool" where
  "space1 c = (9 \<le> byte c \<and> byte c \<le> 13 \<or> byte c = 32)"

lemma space1_code [code]:
  "space1 c = (9 \<le> (of_char c :: int) \<and> (of_char c :: int) \<le> 13 \<or> (of_char c :: int) = 32)"
  by (simp add: space1_def flip: byte_int)

definition space2 :: "char \<Rightarrow> char \<Rightarrow> bool" where
  "space2 a b = (byte a = 0xC2 \<and> (byte b = 0x85 \<or> byte b = 0xA0))"

definition space3 :: "char \<Rightarrow> char \<Rightarrow> char \<Rightarrow> bool" where
  "space3 a b c =
     (byte a = 0xE1 \<and> byte b = 0x9A \<and> byte c = 0x80 \<or>
      byte a = 0xE2 \<and> byte b = 0x80 \<and> (0x80 \<le> byte c \<and> byte c \<le> 0x8A \<or> byte c \<in> {0xA8, 0xA9, 0xAF}) \<or>
      byte a = 0xE2 \<and> byte b = 0x81 \<and> byte c = 0x9F \<or>
      byte a = 0xE3 \<and> byte b = 0x80 \<and> byte c = 0x80)"

fun trim_left :: "string \<Rightarrow> string" where
  "trim_left [] = []"
| "trim_left [a] = (if space1 a then [] else [a])"
| "trim_left [a, b] =
     (if space1 a then trim_left [b] else if space2 a b then [] else [a, b])"
| "trim_left (a # b # c # s) =
     (if space1 a then trim_left (b # c # s)
      else if space2 a b then trim_left (c # s)
      else if space3 a b c then trim_left s
      else a # b # c # s)"

text \<open>The same on a reversed string, where the last byte of an encoding comes first.\<close>

fun trim_rev :: "string \<Rightarrow> string" where
  "trim_rev [] = []"
| "trim_rev [a] = (if space1 a then [] else [a])"
| "trim_rev [b, a] =
     (if space1 b then trim_rev [a] else if space2 a b then [] else [b, a])"
| "trim_rev (c # b # a # s) =
     (if space1 c then trim_rev (b # a # s)
      else if space2 b c then trim_rev (a # s)
      else if space3 a b c then trim_rev s
      else c # b # a # s)"

definition trim_space :: "string \<Rightarrow> string" where
  "trim_space s = rev (trim_rev (rev (trim_left s)))"

text \<open>A byte that can neither start nor end the encoding of a space.\<close>

definition plain_byte :: "char \<Rightarrow> bool" where
  "plain_byte c = (is_ascii c \<and> \<not> space1 c)"

lemma trim_left_plain: "plain_byte a \<Longrightarrow> trim_left (a # s) = a # s"
  by (cases s rule: remdups_adj.cases)
    (auto simp: plain_byte_def is_ascii_def space1_def space2_def space3_def)

lemma trim_rev_plain: "plain_byte a \<Longrightarrow> trim_rev (a # s) = a # s"
  by (cases s rule: remdups_adj.cases)
    (auto simp: plain_byte_def is_ascii_def space1_def space2_def space3_def)

lemma trim_space_Nil [simp]: "trim_space [] = []"
  by (simp add: trim_space_def)

lemma trim_space_id:
  assumes "s \<noteq> []" "plain_byte (hd s)" "plain_byte (last s)"
  shows "trim_space s = s"
proof -
  from assms obtain a t where s: "s = a # t" by (cases s) auto
  with assms have "trim_left s = s" by (simp add: trim_left_plain)
  moreover have "rev s = last s # rev (butlast s)"
    using assms(1) by (metis append_butlast_last_id rev_eq_Cons_iff rev_rev_ident)
  then have "trim_rev (rev s) = rev s"
    using trim_rev_plain [OF assms(3)] by metis
  ultimately show ?thesis by (simp add: trim_space_def)
qed

lemma trim_space_plain: "list_all plain_byte s \<Longrightarrow> trim_space s = s"
  by (cases "s = []") (auto intro: trim_space_id simp: list_all_iff)

section \<open>strconv\<close>

definition parse_bool :: "string \<Rightarrow> bool option" where
  "parse_bool s =
     (if s \<in> {''1'', ''t'', ''T'', ''true'', ''TRUE'', ''True''} then Some True
      else if s \<in> {''0'', ''f'', ''F'', ''false'', ''FALSE'', ''False''} then Some False
      else None)"

definition format_bool :: "bool \<Rightarrow> string" where
  "format_bool b = (if b then ''true'' else ''false'')"

lemma parse_format_bool [simp]: "parse_bool (format_bool b) = Some b"
  by (simp add: parse_bool_def format_bool_def)

definition digit_val :: "char \<Rightarrow> int" where
  "digit_val c = of_char c - 48"

definition digit_char :: "int \<Rightarrow> char" where
  "digit_char d = char_of (d + 48)"

definition digits_val :: "string \<Rightarrow> int" where
  "digits_val s = foldl (\<lambda>n c. 10 * n + digit_val c) 0 s"

text \<open>
  \<open>strconv.ParseInt(s, 10, 64)\<close>: an optional sign, then one or more decimal digits, in the range of
  a signed 64-bit integer. \<open>None\<close> is a syntax or a range error; the callers do not tell them apart.
\<close>

definition parse_uint :: "string \<Rightarrow> int option" where
  "parse_uint s = (if s \<noteq> [] \<and> list_all is_digit s then Some (digits_val s) else None)"

definition int64_range :: "int \<Rightarrow> bool" where
  "int64_range n = (- (2 ^ 63) \<le> n \<and> n < 2 ^ 63)"

definition signed_val :: "string \<Rightarrow> int option" where
  "signed_val s =
     (case s of
        [] \<Rightarrow> None
      | c # t \<Rightarrow>
          if c = CHR ''+'' then parse_uint t
          else if c = CHR ''-'' then map_option uminus (parse_uint t)
          else parse_uint s)"

definition parse_int :: "string \<Rightarrow> int option" where
  "parse_int s =
     (case signed_val s of
        None \<Rightarrow> None
      | Some n \<Rightarrow> if int64_range n then Some n else None)"

text \<open>\<open>strconv.FormatInt(n, 10)\<close>.\<close>

function format_nat :: "int \<Rightarrow> string" where
  "format_nat n =
     (if n < 10 then [digit_char n] else format_nat (n div 10) @ [digit_char (n mod 10)])"
  by pat_completeness auto
termination
  by (relation "measure nat") auto

declare format_nat.simps [simp del]

definition format_int :: "int \<Rightarrow> string" where
  "format_int n = (if n < 0 then CHR ''-'' # format_nat (- n) else format_nat n)"

lemma of_char_digit_char:
  "0 \<le> d \<Longrightarrow> d < 10 \<Longrightarrow> (of_char (digit_char d) :: int) = d + 48"
  by (simp add: digit_char_def)

lemma digit_val_char: "0 \<le> d \<Longrightarrow> d < 10 \<Longrightarrow> digit_val (digit_char d) = d"
  by (simp add: digit_val_def of_char_digit_char)

lemma is_digit_char:
  assumes "0 \<le> d" "d < 10"
  shows "is_digit (digit_char d)"
proof -
  have "int (byte (digit_char d)) = d + 48"
    using of_char_digit_char [OF assms] by (simp add: byte_int)
  with assms show ?thesis by (simp add: is_digit_def)
qed

lemma format_nat_digits: "0 \<le> n \<Longrightarrow> list_all is_digit (format_nat n) \<and> format_nat n \<noteq> []"
proof (induction n rule: format_nat.induct)
  case (1 n)
  then show ?case
    by (subst (1 2) format_nat.simps) (simp add: is_digit_char)
qed

lemma digits_val_snoc: "digits_val (s @ [c]) = 10 * digits_val s + digit_val c"
  by (simp add: digits_val_def)

lemma digits_val_format_nat: "0 \<le> n \<Longrightarrow> digits_val (format_nat n) = n"
proof (induction n rule: format_nat.induct)
  case (1 n)
  show ?case
  proof (cases "n < 10")
    case True
    with 1 show ?thesis
      by (subst format_nat.simps) (simp add: digits_val_def digit_val_char)
  next
    case False
    with 1 have "digits_val (format_nat (n div 10)) = n div 10" by simp
    with False show ?thesis
      by (subst format_nat.simps) (simp add: digits_val_snoc digit_val_char)
  qed
qed

lemma parse_uint_format_nat: "0 \<le> n \<Longrightarrow> parse_uint (format_nat n) = Some n"
  by (simp add: parse_uint_def format_nat_digits digits_val_format_nat)

lemma digits_val_bounds:
  assumes "list_all is_digit s"
  shows "0 \<le> digits_val s"
proof -
  have digit: "0 \<le> digit_val c" if "is_digit c" for c
    using that byte_int [of c] by (simp add: is_digit_def digit_val_def)
  have "0 \<le> n \<Longrightarrow> 0 \<le> foldl (\<lambda>n c. 10 * n + digit_val c) n s" for n
    using assms by (induction s arbitrary: n) (auto simp: digit)
  then show ?thesis by (simp add: digits_val_def)
qed

lemma parse_int_range: "parse_int s = Some n \<Longrightarrow> int64_range n"
  by (auto simp: parse_int_def split: option.splits if_splits)

lemma parse_int_format_int:
  assumes "int64_range n"
  shows "parse_int (format_int n) = Some n"
proof -
  have "signed_val (format_int n) = Some n"
  proof (cases "n < 0")
    case True
    then show ?thesis
      by (simp add: format_int_def signed_val_def parse_uint_format_nat)
  next
    case False
    obtain c t where f: "format_nat n = c # t"
      using format_nat_digits [of n] False by (cases "format_nat n") auto
    then have "is_digit c" using format_nat_digits [of n] False by simp
    then have "c \<noteq> CHR ''+''" "c \<noteq> CHR ''-''"
      by (auto simp: is_digit_def byte_def)
    moreover have "parse_uint (c # t) = Some n"
      using parse_uint_format_nat [of n] f False by simp
    ultimately show ?thesis
      using False f by (simp add: format_int_def signed_val_def)
  qed
  with assms show ?thesis by (simp add: parse_int_def)
qed

lemma sint_of_int64:
  assumes "int64_range n"
  shows "sint (word_of_int n :: 64 word) = n"
proof -
  have "signed_take_bit 63 n = n"
    using assms by (intro signed_take_bit_int_eq_self) (simp_all add: int64_range_def)
  then show ?thesis
    by (simp add: sint_uint unsigned_of_int take_bit_signed_take_bit signed_take_bit_take_bit)
qed

lemma is_digit_plain: "is_digit c \<Longrightarrow> plain_byte c"
  by (auto simp: is_digit_def plain_byte_def is_ascii_def space1_def)

lemma format_int_nonneg:
  assumes "0 \<le> n"
  shows "list_all is_digit (format_int n)" "format_int n \<noteq> []"
  using format_nat_digits [OF assms] assms by (simp_all add: format_int_def)

lemma trim_space_digits: "list_all is_digit s \<Longrightarrow> trim_space s = s"
  by (rule trim_space_plain) (auto simp: list_all_iff is_digit_plain)

end
