(* ===== verification/GoUrl.thy ===== *)
theory GoUrl
  imports GoStrings "HOL-Library.AList"
begin

text \<open>
  What the driver uses of Go's packages \<open>net/url\<close> and \<open>path\<close>: percent-escaping in its modes,
  \<open>path.Join\<close>, \<open>url.Parse\<close>, \<open>URL.String\<close>, \<open>URL.Query\<close> and \<open>Values.Encode\<close>.
\<close>

section \<open>Percent-escaping\<close>

datatype encoding = EncPath | EncPathSegment | EncHost | EncZone | EncUserPassword
  | EncQueryComponent | EncFragment

definition alnum :: "char \<Rightarrow> bool" where
  "alnum c = (is_alpha c \<or> is_digit c)"

definition should_escape :: "encoding \<Rightarrow> char \<Rightarrow> bool" where
  "should_escape m c =
     (if alnum c then False
      else if m \<in> {EncHost, EncZone} \<and> c \<in> set ''!$&()*+,;=:[]<>\"'' \<union> {CHR 0x27} then False
      else if c \<in> set ''-_.~'' then False
      else if c \<in> set ''$&+,/:;=?@'' then
        (case m of
           EncPath \<Rightarrow> c = CHR ''?''
         | EncPathSegment \<Rightarrow> c \<in> set ''/;,?''
         | EncUserPassword \<Rightarrow> c \<in> set ''@/?:''
         | EncQueryComponent \<Rightarrow> True
         | EncFragment \<Rightarrow> False
         | _ \<Rightarrow> True)
      else if m = EncFragment \<and> c \<in> set ''!()*'' then False
      else True)"

definition hex_digit :: "nat \<Rightarrow> char" where
  "hex_digit n = char_of (if n < 10 then n + 48 else n + 55)"

definition unhex :: "char \<Rightarrow> nat option" where
  "unhex c =
     (if is_digit c then Some (byte c - 48)
      else if 97 \<le> byte c \<and> byte c \<le> 102 then Some (byte c - 87)
      else if 65 \<le> byte c \<and> byte c \<le> 70 then Some (byte c - 55)
      else None)"

definition escape_char :: "encoding \<Rightarrow> char \<Rightarrow> string" where
  "escape_char m c =
     (if should_escape m c then
        (if c = CHR '' '' \<and> m = EncQueryComponent then ''+''
         else [CHR ''%'', hex_digit (byte c div 16), hex_digit (byte c mod 16)])
      else [c])"

definition escape :: "encoding \<Rightarrow> string \<Rightarrow> string" where
  "escape m s = concat (map (escape_char m) s)"

text \<open>\<open>unescape\<close>: \<open>None\<close> is an \<open>EscapeError\<close> or an \<open>InvalidHostError\<close>.\<close>

fun unescape :: "encoding \<Rightarrow> string \<Rightarrow> string option" where
  "unescape m [] = Some []"
| "unescape m (c # s) =
     (if c = CHR ''%'' then
        (case s of
           a # b # t \<Rightarrow>
             (case (unhex a, unhex b) of
                (Some x, Some y) \<Rightarrow>
                  let v = char_of (16 * x + y) in
                  if m = EncHost \<and> x < 8 \<and> [a, b] \<noteq> ''25'' then None
                  else if m = EncZone \<and> [a, b] \<noteq> ''25'' \<and> v \<noteq> CHR '' '' \<and> should_escape EncHost v then None
                  else map_option ((#) v) (unescape m t)
              | _ \<Rightarrow> None)
         | _ \<Rightarrow> None)
      else if c = CHR ''+'' \<and> m = EncQueryComponent then map_option ((#) (CHR '' '')) (unescape m s)
      else if m \<in> {EncHost, EncZone} \<and> is_ascii c \<and> should_escape m c then None
      else map_option ((#) c) (unescape m s))"

abbreviation path_escape :: "string \<Rightarrow> string" where
  "path_escape \<equiv> escape EncPathSegment"

abbreviation query_escape :: "string \<Rightarrow> string" where
  "query_escape \<equiv> escape EncQueryComponent"

text \<open>Escaping round-trips, and an escaped path segment has no slash and no dot of its own.\<close>

lemma unhex_hex_digit: "n < 16 \<Longrightarrow> unhex (hex_digit n) = Some n"
  by (auto simp: unhex_def hex_digit_def is_digit_def byte_def)

lemma byte_split: "char_of (16 * (byte c div 16) + byte c mod 16) = c"
  by (simp add: byte_def)

lemma byte_div_16: "byte c div 16 < 16"
  using byte_lt_256 [of c] by (simp add: div_less_iff_less_mult)

lemma unescape_escape_char:
  assumes "m \<in> {EncPath, EncPathSegment, EncQueryComponent, EncUserPassword, EncFragment}"
  shows "unescape m (escape_char m c @ s) = map_option ((#) c) (unescape m s)"
proof (cases "should_escape m c")
  case True
  then show ?thesis
    using assms byte_div_16 [of c]
    by (auto simp: escape_char_def unhex_hex_digit byte_split)
next
  case False
  then have "c \<noteq> CHR ''%''" "c = CHR ''+'' \<Longrightarrow> m \<noteq> EncQueryComponent"
    by (auto simp: should_escape_def alnum_def is_alpha_def is_digit_def byte_def)
  with False assms show ?thesis by (auto simp: escape_char_def)
qed

lemma escape_Nil [simp]: "escape m [] = []"
  by (simp add: escape_def)

lemma escape_Cons: "escape m (c # s) = escape_char m c @ escape m s"
  by (simp add: escape_def)

lemma unescape_escape:
  assumes "m \<in> {EncPath, EncPathSegment, EncQueryComponent, EncUserPassword, EncFragment}"
  shows "unescape m (escape m s) = Some s"
  by (induction s) (simp_all add: escape_Cons unescape_escape_char [OF assms])

lemma length_escape_char: "1 \<le> length (escape_char m c)"
  by (simp add: escape_char_def)

lemma length_escape_ge: "length s \<le> length (escape m s)"
proof (induction s)
  case Nil
  then show ?case by simp
next
  case (Cons a s)
  then show ?case using length_escape_char [of m a] by (simp add: escape_Cons)
qed

lemma escape_eq_iff:
  assumes "m \<noteq> EncQueryComponent"
  shows "escape m s = s \<longleftrightarrow> list_all (\<lambda>c. \<not> should_escape m c) s"
proof (induction s)
  case Nil
  then show ?case by simp
next
  case (Cons c s)
  show ?case
  proof (cases "should_escape m c")
    case True
    then have "length (escape m (c # s)) \<ge> 3 + length s"
      using assms length_escape_ge [of s m] by (simp add: escape_Cons escape_char_def)
    then have "escape m (c # s) \<noteq> c # s" by fastforce
    with True show ?thesis by simp
  next
    case False
    with Cons show ?thesis by (simp add: escape_Cons escape_char_def)
  qed
qed

lemma path_escape_inj: "path_escape s = path_escape t \<Longrightarrow> s = t"
  using unescape_escape [of EncPathSegment] by (metis insertI1 insertI2 option.inject)

lemma hex_digit_no_slash: "n < 16 \<Longrightarrow> CHR ''/'' \<noteq> hex_digit n"
proof
  assume n: "n < 16" and "CHR ''/'' = hex_digit n"
  with unhex_hex_digit [OF n] have "unhex (CHR ''/'') = Some n" by simp
  then show False by (simp add: unhex_def is_digit_def byte_def)
qed

lemma escape_char_no_slash: "CHR ''/'' \<notin> set (escape_char EncPathSegment c)"
proof (cases "should_escape EncPathSegment c")
  case True
  with hex_digit_no_slash [of "byte c div 16"] hex_digit_no_slash [of "byte c mod 16"]
    byte_div_16 [of c]
  show ?thesis by (simp add: escape_char_def)
next
  case False
  then show ?thesis
    by (auto simp: escape_char_def should_escape_def alnum_def is_alpha_def is_digit_def byte_def)
qed

lemma path_escape_no_slash: "CHR ''/'' \<notin> set (path_escape s)"
  by (induction s) (simp_all add: escape_Cons escape_char_no_slash)

lemma escape_char_ne: "escape_char m c \<noteq> []"
  by (simp add: escape_char_def)

lemma escape_eq_Nil [simp]: "escape m s = [] \<longleftrightarrow> s = []"
  by (cases s) (simp_all add: escape_Cons escape_char_ne)

lemma escape_id: "list_all (\<lambda>c. \<not> should_escape m c) s \<Longrightarrow> escape m s = s"
  by (induction s) (simp_all add: escape_Cons escape_char_def)

lemma path_escape_dots: "path_escape ''.'' = ''.''" "path_escape ''..'' = ''..''"
  by (simp_all add: escape_id should_escape_def)

lemma path_escape_eq_dot: "path_escape s = ''.'' \<longleftrightarrow> s = ''.''"
  using path_escape_inj path_escape_dots by metis

lemma path_escape_eq_dotdot: "path_escape s = ''..'' \<longleftrightarrow> s = ''..''"
  using path_escape_inj path_escape_dots by metis

section \<open>Package path\<close>

fun split_on :: "char \<Rightarrow> string \<Rightarrow> string list" where
  "split_on d [] = [[]]"
| "split_on d (c # s) =
     (if c = d then [] # split_on d s
      else (case split_on d s of x # xs \<Rightarrow> (c # x) # xs | [] \<Rightarrow> [[c]]))"

text \<open>
  \<open>path.Clean\<close>, on the elements between slashes: empty and \<open>.\<close> elements vanish, \<open>..\<close> removes the
  element in front of it. The elements kept so far are in reverse order.
\<close>

definition clean_step :: "bool \<Rightarrow> string list \<Rightarrow> string \<Rightarrow> string list" where
  "clean_step rooted out seg =
     (if seg = [] \<or> seg = ''.'' then out
      else if seg = ''..'' then
        (case out of
           [] \<Rightarrow> if rooted then [] else [''..'']
         | e # es \<Rightarrow> if e = ''..'' then ''..'' # out else es)
      else seg # out)"

definition path_clean :: "string \<Rightarrow> string" where
  "path_clean p =
     (if p = [] then ''.''
      else
        let rooted = (hd p = CHR ''/'');
            out = rev (foldl (clean_step rooted) [] (split_on CHR ''/'' p))
        in if rooted then CHR ''/'' # join ''/'' out
           else if out = [] then ''.'' else join ''/'' out)"

definition path_join :: "string list \<Rightarrow> string" where
  "path_join elems =
     (case dropWhile (\<lambda>e. e = []) elems of
        [] \<Rightarrow> []
      | es \<Rightarrow> path_clean (join ''/'' es))"

text \<open>An element that \<open>path.Join\<close> keeps as it is.\<close>

definition plain_segment :: "string \<Rightarrow> bool" where
  "plain_segment s = (s \<noteq> [] \<and> s \<noteq> ''.'' \<and> s \<noteq> ''..'')"

lemma split_on_no_sep: "d \<notin> set s \<Longrightarrow> split_on d s = [s]"
  by (induction s) auto

lemma split_on_append: "d \<notin> set s \<Longrightarrow> split_on d (s @ d # t) = s # split_on d t"
  by (induction s) auto

lemma split_on_join:
  "xs \<noteq> [] \<Longrightarrow> \<forall>x \<in> set xs. d \<notin> set x \<Longrightarrow> split_on d (join [d] xs) = xs"
  by (induction "[d]" xs rule: join.induct) (auto simp: split_on_no_sep split_on_append)

lemma hd_join: "x \<noteq> [] \<Longrightarrow> hd (join sep (x # xs)) = hd x"
  by (cases xs) auto

lemma join_eq_Nil: "x \<noteq> [] \<Longrightarrow> join sep (x # xs) \<noteq> []"
  by (cases xs) auto

lemma path_join_segments:
  assumes "x \<noteq> []" "\<forall>y \<in> set (x # xs). CHR ''/'' \<notin> set y"
  shows "path_join (x # xs) =
    (let out = rev (foldl (clean_step False) [] (x # xs))
     in if out = [] then ''.'' else join ''/'' out)"
proof -
  have "hd x \<noteq> CHR ''/''" using assms by (cases x) auto
  then show ?thesis
    using assms by (simp add: path_join_def path_clean_def Let_def hd_join join_eq_Nil split_on_join
        del: foldl_Cons)
qed

lemma foldl_clean_plain:
  "list_all plain_segment xs \<Longrightarrow> foldl (clean_step r) out xs = rev xs @ out"
  by (induction xs arbitrary: out) (auto simp: clean_step_def plain_segment_def)

lemma path_join_plain:
  assumes "xs \<noteq> []" "list_all plain_segment xs" "\<forall>y \<in> set xs. CHR ''/'' \<notin> set y"
  shows "path_join xs = join ''/'' xs"
proof -
  from assms obtain x ys where xs: "xs = x # ys" by (cases xs) auto
  with assms(2) have "x \<noteq> []" by (simp add: plain_segment_def)
  then have "path_join xs = (let out = rev (foldl (clean_step False) [] xs)
      in if out = [] then ''.'' else join ''/'' out)"
    unfolding xs using assms(3) [unfolded xs] by (rule path_join_segments)
  moreover have "foldl (clean_step False) [] xs = rev xs"
    using foldl_clean_plain [OF assms(2), of False "[]"] by simp
  ultimately show ?thesis using assms(1) by (simp add: Let_def)
qed

lemma join_inj:
  assumes "xs \<noteq> []" "ys \<noteq> []" "\<forall>x \<in> set xs. d \<notin> set x" "\<forall>y \<in> set ys. d \<notin> set y"
    and "join [d] xs = join [d] ys"
  shows "xs = ys"
proof -
  have "xs = split_on d (join [d] xs)" by (rule split_on_join [OF assms(1,3), symmetric])
  also have "\<dots> = split_on d (join [d] ys)" by (simp only: assms(5))
  also have "\<dots> = ys" by (rule split_on_join [OF assms(2,4)])
  finally show ?thesis .
qed

lemma plain_segment_path_escape [simp]: "plain_segment (path_escape s) \<longleftrightarrow> plain_segment s"
  by (simp add: plain_segment_def path_escape_eq_dot path_escape_eq_dotdot)

section \<open>URLs\<close>

record url =
  u_Scheme :: string
  u_Opaque :: string
  u_User :: "(string \<times> string option) option"
  u_Host :: string
  u_Path :: string
  u_RawPath :: string
  u_OmitHost :: bool
  u_ForceQuery :: bool
  u_RawQuery :: string
  u_Fragment :: string
  u_RawFragment :: string

definition empty_url :: url where
  "empty_url = \<lparr>u_Scheme = [], u_Opaque = [], u_User = None, u_Host = [], u_Path = [],
     u_RawPath = [], u_OmitHost = False, u_ForceQuery = False, u_RawQuery = [],
     u_Fragment = [], u_RawFragment = []\<rparr>"

subsection \<open>Parse\<close>

text \<open>\<open>getScheme\<close>: \<open>None\<close> is "missing protocol scheme", an empty scheme means there is none.\<close>

fun scheme_scan :: "string \<Rightarrow> string \<Rightarrow> (string \<times> string) option" where
  "scheme_scan acc [] = None"
| "scheme_scan acc (c # s) =
     (if is_alpha c then scheme_scan (c # acc) s
      else if is_digit c \<or> c \<in> set ''+-.'' then
        (if acc = [] then None else scheme_scan (c # acc) s)
      else if c = CHR '':'' then Some (rev acc, s)
      else None)"

definition get_scheme :: "string \<Rightarrow> (string \<times> string) option" where
  "get_scheme raw =
     (case scheme_scan [] raw of
        None \<Rightarrow> Some ([], raw)
      | Some (sch, rest) \<Rightarrow> if sch = [] then None else Some (sch, rest))"

definition cut_last :: "char \<Rightarrow> string \<Rightarrow> string \<times> string \<times> bool" where
  "cut_last d s = (case cut d (rev s) of (a, b, found) \<Rightarrow>
     if found then (rev b, rev a, True) else (s, [], False))"

definition valid_optional_port :: "string \<Rightarrow> bool" where
  "valid_optional_port p = (case p of [] \<Rightarrow> True | c # t \<Rightarrow> c = CHR '':'' \<and> list_all is_digit t)"

definition valid_userinfo :: "string \<Rightarrow> bool" where
  "valid_userinfo s =
     list_all (\<lambda>c. alnum c \<or> c \<in> set ''-._:~!$&()*+,;=%@'' \<or> c = CHR 0x27) s"

text \<open>\<open>netip.ParseAddr\<close> of the text between brackets, which must be an IPv6 address.\<close>

definition is_hex :: "char \<Rightarrow> bool" where
  "is_hex c = (unhex c \<noteq> None)"

definition ipv4_octet :: "string \<Rightarrow> bool" where
  "ipv4_octet s = (s \<noteq> [] \<and> length s \<le> 3 \<and> list_all is_digit s \<and> digits_val s \<le> 255 \<and>
     (hd s = CHR ''0'' \<longrightarrow> length s = 1))"

definition ipv4_fields :: "string \<Rightarrow> bool" where
  "ipv4_fields s = (let fs = split_on CHR ''.'' s in length fs = 4 \<and> list_all ipv4_octet fs)"

text \<open>
  The group loop of \<open>parseIPv6\<close>: the number of 16-bit groups still to fill, whether an ellipsis was
  seen, the text left.
\<close>

fun ipv6_groups :: "nat \<Rightarrow> bool \<Rightarrow> string \<Rightarrow> bool" where
  "ipv6_groups 0 ell s = (s = [] \<and> \<not> ell)"
| "ipv6_groups (Suc n) ell s =
     (let h = takeWhile is_hex s; r = dropWhile is_hex s in
      if h = [] \<or> 4 < length h then False
      else (case r of
         [] \<Rightarrow> (if n = 0 then \<not> ell else ell)
       | c # t \<Rightarrow>
           if c = CHR ''.'' then
             (ell \<or> n = 1) \<and> 1 \<le> n \<and> ipv4_fields s \<and> (if n = 1 then \<not> ell else ell)
           else if c \<noteq> CHR '':'' then False
           else (case t of
              [] \<Rightarrow> False
            | d # t' \<Rightarrow>
                if d = CHR '':'' then
                  \<not> ell \<and> (if t' = [] then n \<noteq> 0 else ipv6_groups n True t')
                else ipv6_groups n ell t)))"

definition parse_ipv6 :: "string \<Rightarrow> bool" where
  "parse_ipv6 s =
     (case cut CHR ''%'' s of (addr, zone, found) \<Rightarrow>
        if found \<and> zone = [] then False
        else if take 2 addr = ''::'' then
          (if length addr = 2 then True else ipv6_groups 8 True (drop 2 addr))
        else ipv6_groups 8 False addr)"

definition addr_is_v6 :: "string \<Rightarrow> bool" where
  "addr_is_v6 s =
     (case dropWhile (\<lambda>c. c \<notin> set ''.:%'') s of
        [] \<Rightarrow> False
      | c # _ \<Rightarrow> c = CHR '':'' \<and> parse_ipv6 s)"

fun index_pct25 :: "string \<Rightarrow> string \<Rightarrow> (string \<times> string) option" where
  "index_pct25 acc s =
     (if prefix ''%25'' s then Some (rev acc, s)
      else (case s of [] \<Rightarrow> None | c # t \<Rightarrow> index_pct25 (c # acc) t))"

declare index_pct25.simps [simp del]

definition parse_bracketed :: "string \<Rightarrow> string option" where
  "parse_bracketed host =
     (case cut_last CHR '']'' (tl host) of (hostname, port, found) \<Rightarrow>
        if \<not> found \<or> \<not> valid_optional_port port then None
        else
          (case (case index_pct25 [] hostname of
              Some (h, z) \<Rightarrow>
                (case (unescape EncHost h, unescape EncZone z) of
                   (Some h', Some z') \<Rightarrow> Some (h' @ z')
                 | _ \<Rightarrow> None)
            | None \<Rightarrow> unescape EncHost hostname) of
             None \<Rightarrow> None
           | Some addr \<Rightarrow>
               if addr_is_v6 addr then
                 map_option (\<lambda>p. CHR ''['' # addr @ CHR '']'' # p) (unescape EncHost port)
               else None))"

text \<open>
  \<open>parseHost\<close>. A bracket is accepted at the front only; outside brackets the first colon must start a
  valid port, except that the \<open>postgres\<close> schemes look at the last colon.
\<close>

definition parse_host :: "string \<Rightarrow> string \<Rightarrow> string option" where
  "parse_host scheme host =
     (if CHR ''['' \<in> set host then
        (if CHR ''['' \<in> set (tl host) then None else parse_bracketed host)
      else
        let port_ok =
          (if scheme \<in> {''postgresql'', ''postgres''} then
             (case cut_last CHR '':'' host of (_, p, f) \<Rightarrow> f \<longrightarrow> list_all is_digit p)
           else (case cut CHR '':'' host of (_, p, f) \<Rightarrow> f \<longrightarrow> list_all is_digit p))
        in if port_ok then unescape EncHost host else None)"

definition parse_authority ::
  "string \<Rightarrow> string \<Rightarrow> ((string \<times> string option) option \<times> string) option" where
  "parse_authority scheme auth =
     (case cut_last CHR ''@'' auth of (userinfo, after, found) \<Rightarrow>
        (case parse_host scheme (if found then after else auth) of
           None \<Rightarrow> None
         | Some host \<Rightarrow>
             if \<not> found then Some (None, host)
             else if \<not> valid_userinfo userinfo then None
             else (case cut CHR '':'' userinfo of (name, pw, has_pw) \<Rightarrow>
               (case (unescape EncUserPassword name, unescape EncUserPassword pw) of
                  (Some n, Some p) \<Rightarrow> Some (Some (n, if has_pw then Some p else None), host)
                | _ \<Rightarrow> None))))"

text \<open>\<open>setPath\<close> and \<open>setFragment\<close>: the decoded form and, where it differs, the raw one.\<close>

definition set_escaped :: "encoding \<Rightarrow> string \<Rightarrow> (string \<times> string) option" where
  "set_escaped m p =
     (case unescape m p of
        None \<Rightarrow> None
      | Some q \<Rightarrow> Some (q, if escape m q = p then [] else p))"

definition ctl_byte :: "char \<Rightarrow> bool" where
  "ctl_byte c = (byte c < 32 \<or> byte c = 127)"

lemma ctl_byte_code [code]:
  "ctl_byte c = ((of_char c :: int) < 32 \<or> (of_char c :: int) = 127)"
  by (simp add: ctl_byte_def flip: byte_int)

definition parse_rest :: "url \<Rightarrow> string \<Rightarrow> url option" where
  "parse_rest u rest =
     (if \<not> prefix ''/'' rest \<and> u_Scheme u \<noteq> [] then Some (u\<lparr>u_Opaque := rest\<rparr>)
      else if \<not> prefix ''/'' rest \<and> CHR '':'' \<in> set (fst (cut CHR ''/'' rest)) then None
      else
        let with_auth = (u_Scheme u \<noteq> [] \<or> \<not> prefix ''///'' rest) \<and> prefix ''//'' rest;
            auth = takeWhile (\<lambda>c. c \<noteq> CHR ''/'') (drop 2 rest);
            path = (if with_auth then dropWhile (\<lambda>c. c \<noteq> CHR ''/'') (drop 2 rest) else rest);
            u1 = (if with_auth then
                    map_option (\<lambda>(user, host). u\<lparr>u_User := user, u_Host := host\<rparr>)
                      (parse_authority (u_Scheme u) auth)
                  else if u_Scheme u \<noteq> [] \<and> prefix ''/'' rest then Some (u\<lparr>u_OmitHost := True\<rparr>)
                  else Some u)
        in (case (u1, set_escaped EncPath path) of
              (Some v, Some (p, raw)) \<Rightarrow> Some (v\<lparr>u_Path := p, u_RawPath := raw\<rparr>)
            | _ \<Rightarrow> None))"

definition parse_no_fragment :: "string \<Rightarrow> url option" where
  "parse_no_fragment raw =
     (if list_ex ctl_byte raw then None
      else if raw = ''*'' then Some (empty_url\<lparr>u_Path := ''*''\<rparr>)
      else
        (case get_scheme raw of
           None \<Rightarrow> None
         | Some (sch, rest) \<Rightarrow>
             let u = empty_url\<lparr>u_Scheme := map ascii_lower sch\<rparr> in
             if suffix ''?'' rest \<and> count_list rest CHR ''?'' = 1 then
               parse_rest (u\<lparr>u_ForceQuery := True\<rparr>) (butlast rest)
             else
               (case cut CHR ''?'' rest of (front, query, _) \<Rightarrow>
                  parse_rest (u\<lparr>u_RawQuery := query\<rparr>) front)))"

definition url_parse :: "string \<Rightarrow> url option" where
  "url_parse raw =
     (case cut CHR ''#'' raw of (front, frag, _) \<Rightarrow>
        (case parse_no_fragment front of
           None \<Rightarrow> None
         | Some u \<Rightarrow>
             if frag = [] then Some u
             else map_option (\<lambda>(f, rawf). u\<lparr>u_Fragment := f, u_RawFragment := rawf\<rparr>)
               (set_escaped EncFragment frag)))"

subsection \<open>String\<close>

definition valid_encoded :: "encoding \<Rightarrow> string \<Rightarrow> bool" where
  "valid_encoded m s =
     list_all (\<lambda>c. c \<in> set ''!$&()*+,;=:@[]%'' \<or> c = CHR 0x27 \<or> \<not> should_escape m c) s"

definition escaped_form :: "encoding \<Rightarrow> string \<Rightarrow> string \<Rightarrow> string" where
  "escaped_form m raw p =
     (if raw \<noteq> [] \<and> valid_encoded m raw \<and> unescape m raw = Some p then raw
      else if m = EncPath \<and> p = ''*'' then ''*''
      else escape m p)"

definition escaped_path :: "url \<Rightarrow> string" where
  "escaped_path u = escaped_form EncPath (u_RawPath u) (u_Path u)"

lemma unescape_escaped_path: "unescape EncPath (escaped_path u) = Some (u_Path u)"
  by (simp add: escaped_path_def escaped_form_def unescape_escape)

definition user_string :: "string \<times> string option \<Rightarrow> string" where
  "user_string up =
     (case up of
        (n, Some p) \<Rightarrow> escape EncUserPassword n @ '':'' @ escape EncUserPassword p
      | (n, None) \<Rightarrow> escape EncUserPassword n)"

definition authority_string :: "url \<Rightarrow> string" where
  "authority_string u =
     (if (u_Scheme u \<noteq> [] \<or> u_Host u \<noteq> [] \<or> u_User u \<noteq> None) \<and>
         \<not> (u_OmitHost u \<and> u_Host u = [] \<and> u_User u = None) then
        (if u_Host u \<noteq> [] \<or> u_Path u \<noteq> [] \<or> u_User u \<noteq> None then ''//'' else []) @
        (case u_User u of None \<Rightarrow> [] | Some up \<Rightarrow> user_string up @ ''@'') @
        escape EncHost (u_Host u)
      else [])"

definition url_string :: "url \<Rightarrow> string" where
  "url_string u =
     (let scheme = (if u_Scheme u \<noteq> [] then u_Scheme u @ '':'' else []);
          p = escaped_path u;
          pre = scheme @ authority_string u @
            (if u_OmitHost u \<and> u_Host u = [] \<and> u_User u = None \<and> prefix ''//'' p then ''//'' else []) @
            (if p \<noteq> [] \<and> hd p \<noteq> CHR ''/'' \<and> u_Host u \<noteq> [] then ''/'' else []);
          dot = (if pre = [] \<and> CHR '':'' \<in> set (fst (cut CHR ''/'' p)) then ''./'' else []);
          body = (if u_Opaque u \<noteq> [] then scheme @ u_Opaque u else pre @ dot @ p)
      in body @
         (if u_ForceQuery u \<or> u_RawQuery u \<noteq> [] then ''?'' @ u_RawQuery u else []) @
         (if u_Fragment u \<noteq> [] then
            ''#'' @ escaped_form EncFragment (u_RawFragment u) (u_Fragment u) else []))"

subsection \<open>Query values\<close>

text \<open>\<open>url.Values\<close> is a map from keys to lists of values.\<close>

type_synonym query_values = "(string \<times> string list) list"

definition values_set :: "query_values \<Rightarrow> string \<Rightarrow> string \<Rightarrow> query_values" where
  "values_set q k v = AList.update k [v] q"

definition values_add :: "query_values \<Rightarrow> string \<Rightarrow> string \<Rightarrow> query_values" where
  "values_add q k v =
     AList.update k ((case map_of q k of None \<Rightarrow> [] | Some vs \<Rightarrow> vs) @ [v]) q"

text \<open>\<open>URL.Query\<close>: malformed pairs are dropped, as \<open>Query\<close> ignores the error of \<open>ParseQuery\<close>.\<close>

definition query_pair :: "query_values \<Rightarrow> string \<Rightarrow> query_values" where
  "query_pair q pair =
     (if CHR '';'' \<in> set pair \<or> pair = [] then q
      else (case cut CHR ''='' pair of (k, v, _) \<Rightarrow>
        (case (unescape EncQueryComponent k, unescape EncQueryComponent v) of
           (Some k', Some v') \<Rightarrow> values_add q k' v'
         | _ \<Rightarrow> q)))"

definition parse_query :: "string \<Rightarrow> query_values" where
  "parse_query s = foldl query_pair [] (split_on CHR ''&'' s)"

text \<open>\<open>Values.Encode\<close>: sorted by key.\<close>

definition values_encode :: "query_values \<Rightarrow> string" where
  "values_encode q =
     join ''&'' (concat (map (\<lambda>(k, vs). map (\<lambda>v. query_escape k @ ''='' @ query_escape v) vs)
       (sort_key fst q)))"

lemma parse_query_Nil [simp]: "parse_query [] = []"
  by (simp add: parse_query_def query_pair_def)

lemma values_encode_Nil [simp]: "values_encode [] = []"
  by (simp add: values_encode_def)

end
