(* ===== verification/GoJson.thy ===== *)
theory GoJson
  imports GoUrl
begin

text \<open>
  What the driver uses of Go's package \<open>encoding/json\<close>: values, the scanner (a byte-at-a-time state
  machine followed by a stack machine on tokens, so that no fuel is needed), and decoding into structs
  with Go's rules (case-insensitive member names, \<open>null\<close> leaves a field alone, a type mismatch is
  recorded and decoding goes on).
\<close>

section \<open>Values and strings\<close>

datatype json = JNull | JBool bool | JNum string | JStr string | JArr "json list"
  | JObj "(string \<times> json) list"

definition encode_rune :: "nat \<Rightarrow> string" where
  "encode_rune n =
     map char_of
       (if n < 0x80 then [n]
        else if n < 0x800 then [0xC0 + n div 64, 0x80 + n mod 64]
        else if n < 0x10000 then [0xE0 + n div 4096, 0x80 + n div 64 mod 64, 0x80 + n mod 64]
        else [0xF0 + n div 262144, 0x80 + n div 4096 mod 64, 0x80 + n div 64 mod 64, 0x80 + n mod 64])"

abbreviation replacement :: string where
  "replacement \<equiv> encode_rune 0xFFFD"

definition cont :: "nat \<Rightarrow> nat \<Rightarrow> nat \<Rightarrow> bool" where
  "cont lo hi b = (lo \<le> b \<and> b \<le> hi)"

text \<open>\<open>utf8.DecodeRune\<close>: the width of the valid encoding at the front, or \<open>None\<close>.\<close>

fun utf8_width :: "nat list \<Rightarrow> nat option" where
  "utf8_width [] = None"
| "utf8_width (a # r) =
     (if a < 0x80 then Some 1
      else case r of
        [] \<Rightarrow> None
      | b # r2 \<Rightarrow>
          if cont 0xC2 0xDF a then (if cont 0x80 0xBF b then Some 2 else None)
          else case r2 of
            [] \<Rightarrow> None
          | c # r3 \<Rightarrow>
              if cont 0xE0 0xEF a then
                (if cont (if a = 0xE0 then 0xA0 else 0x80) (if a = 0xED then 0x9F else 0xBF) b
                    \<and> cont 0x80 0xBF c then Some 3 else None)
              else case r3 of
                [] \<Rightarrow> None
              | d # _ \<Rightarrow>
                  if cont 0xF0 0xF4 a
                    \<and> cont (if a = 0xF0 then 0x90 else 0x80) (if a = 0xF4 then 0x8F else 0xBF) b
                    \<and> cont 0x80 0xBF c \<and> cont 0x80 0xBF d then Some 4 else None)"

text \<open>A string literal's elements: a byte (also the byte of a two-character escape) or \<open>\uXXXX\<close>.\<close>

datatype selem = B char | U nat

fun raw_front :: "nat \<Rightarrow> selem list \<Rightarrow> string" where
  "raw_front (Suc n) (B c # r) = c # raw_front n r"
| "raw_front _ _ = []"

definition surrogate :: "nat \<Rightarrow> bool" where
  "surrogate n = (0xD800 \<le> n \<and> n < 0xE000)"

function unquote :: "selem list \<Rightarrow> string" where
  "unquote [] = []"
| "unquote (U a # r) =
     (if \<not> surrogate a then encode_rune a @ unquote r
      else case r of
        U b # r' \<Rightarrow>
          if a < 0xDC00 \<and> 0xDC00 \<le> b \<and> b < 0xE000
          then encode_rune (0x10000 + (a - 0xD800) * 1024 + (b - 0xDC00)) @ unquote r'
          else replacement @ unquote r
      | _ \<Rightarrow> replacement @ unquote r)"
| "unquote (B c # r) =
     (let s = raw_front 4 (B c # r) in
      case utf8_width (map byte s) of
        None \<Rightarrow> replacement @ unquote r
      | Some k \<Rightarrow> take k s @ unquote (drop (k - 1) r))"
  by pat_completeness auto
termination
  by (relation "measure length") auto

text \<open>Evaluation takes ASCII bytes as they are.\<close>

lemma unquote_code [code]:
  "unquote [] = []"
  "unquote (U a # r) =
     (if \<not> surrogate a then encode_rune a @ unquote r
      else case r of
        U b # r' \<Rightarrow>
          if a < 0xDC00 \<and> 0xDC00 \<le> b \<and> b < 0xE000
          then encode_rune (0x10000 + (a - 0xD800) * 1024 + (b - 0xDC00)) @ unquote r'
          else replacement @ unquote r
      | _ \<Rightarrow> replacement @ unquote r)"
  "unquote (B c # r) =
     (if is_ascii c then c # unquote r
      else
        let s = raw_front 4 (B c # r) in
        case utf8_width (map byte s) of
          None \<Rightarrow> replacement @ unquote r
        | Some k \<Rightarrow> take k s @ unquote (drop (k - 1) r))"
proof -
  show "unquote (B c # r) =
     (if is_ascii c then c # unquote r
      else
        let s = raw_front 4 (B c # r) in
        case utf8_width (map byte s) of
          None \<Rightarrow> replacement @ unquote r
        | Some k \<Rightarrow> take k s @ unquote (drop (k - 1) r))"
    by (simp add: is_ascii_def numeral_eq_Suc)
qed (rule unquote.simps)+

section \<open>Scanner\<close>

datatype token = TLBrace | TRBrace | TLBrack | TRBrack | TColon | TComma
  | TStr string | TNum string | TLit json

datatype lexmode = LIdle | LStr "selem list" | LEsc "selem list" | LHex "selem list" nat nat
  | LNum string | LWord string

definition json_space :: "char \<Rightarrow> bool" where
  "json_space c = (byte c \<in> {32, 9, 10, 13})"

definition control_char :: "char \<Rightarrow> bool" where
  "control_char c = (byte c < 32)"

definition lower_letter :: "char \<Rightarrow> bool" where
  "lower_letter c = (97 \<le> byte c \<and> byte c \<le> 122)"

lemma json_class_code [code]:
  "json_space c = ((of_char c :: int) \<in> {32, 9, 10, 13})"
  "control_char c = ((of_char c :: int) < 32)"
  "lower_letter c = (97 \<le> (of_char c :: int) \<and> (of_char c :: int) \<le> 122)"
  by (simp_all add: json_space_def control_char_def lower_letter_def flip: byte_int)

definition number_char :: "char \<Rightarrow> bool" where
  "number_char c = (is_digit c \<or> c \<in> set ''+-.eE'')"

definition lex_idle :: "char \<Rightarrow> token list \<Rightarrow> (lexmode \<times> token list) option" where
  "lex_idle c ts =
     (if json_space c then Some (LIdle, ts)
      else if c = CHR ''{'' then Some (LIdle, TLBrace # ts)
      else if c = CHR ''}'' then Some (LIdle, TRBrace # ts)
      else if c = CHR ''['' then Some (LIdle, TLBrack # ts)
      else if c = CHR '']'' then Some (LIdle, TRBrack # ts)
      else if c = CHR '':'' then Some (LIdle, TColon # ts)
      else if c = CHR '','' then Some (LIdle, TComma # ts)
      else if c = CHR 0x22 then Some (LStr [], ts)
      else if is_digit c \<or> c = CHR ''-'' then Some (LNum [c], ts)
      else if lower_letter c then Some (LWord [c], ts)
      else None)"

definition digits1 :: "string \<Rightarrow> bool" where
  "digits1 s = (s \<noteq> [] \<and> list_all is_digit s)"

definition json_exponent :: "string \<Rightarrow> bool" where
  "json_exponent s =
     (case s of
        [] \<Rightarrow> True
      | e # t \<Rightarrow> e \<in> set ''eE'' \<and>
          (case t of [] \<Rightarrow> False | g # t' \<Rightarrow> digits1 (if g \<in> set ''+-'' then t' else t)))"

definition json_fraction :: "string \<Rightarrow> bool" where
  "json_fraction s =
     (case s of
        [] \<Rightarrow> True
      | c # t \<Rightarrow>
          if c = CHR ''.'' then
            takeWhile is_digit t \<noteq> [] \<and> json_exponent (dropWhile is_digit t)
          else json_exponent s)"

definition json_number :: "string \<Rightarrow> bool" where
  "json_number s =
     (let t = (if prefix ''-'' s then tl s else s); i = takeWhile is_digit t in
      i \<noteq> [] \<and> (hd i = CHR ''0'' \<longrightarrow> length i = 1) \<and> json_fraction (dropWhile is_digit t))"

definition json_word :: "string \<Rightarrow> json option" where
  "json_word s =
     (if s = ''true'' then Some (JBool True)
      else if s = ''false'' then Some (JBool False)
      else if s = ''null'' then Some JNull
      else None)"

definition json_escape :: "char \<Rightarrow> char option" where
  "json_escape c =
     (if c \<in> {CHR 0x22, CHR 0x5C, CHR ''/''} then Some c
      else if c = CHR ''b'' then Some (CHR 0x08)
      else if c = CHR ''f'' then Some (CHR 0x0C)
      else if c = CHR ''n'' then Some (CHR 0x0A)
      else if c = CHR ''r'' then Some (CHR 0x0D)
      else if c = CHR ''t'' then Some (CHR 0x09)
      else None)"

fun lex_flush :: "lexmode \<Rightarrow> token list \<Rightarrow> token list option" where
  "lex_flush LIdle ts = Some ts"
| "lex_flush (LNum acc) ts = (if json_number (rev acc) then Some (TNum (rev acc) # ts) else None)"
| "lex_flush (LWord acc) ts = map_option (\<lambda>v. TLit v # ts) (json_word (rev acc))"
| "lex_flush _ ts = None"

fun lex_step :: "lexmode \<Rightarrow> token list \<Rightarrow> char \<Rightarrow> (lexmode \<times> token list) option" where
  "lex_step LIdle ts c = lex_idle c ts"
| "lex_step (LStr acc) ts c =
     (if c = CHR 0x22 then Some (LIdle, TStr (unquote (rev acc)) # ts)
      else if c = CHR 0x5C then Some (LEsc acc, ts)
      else if control_char c then None
      else Some (LStr (B c # acc), ts))"
| "lex_step (LEsc acc) ts c =
     (if c = CHR ''u'' then Some (LHex acc 0 4, ts)
      else map_option (\<lambda>e. (LStr (B e # acc), ts)) (json_escape c))"
| "lex_step (LHex acc v n) ts c =
     map_option (\<lambda>d. (if n \<le> 1 then LStr (U (16 * v + d) # acc)
                      else LHex acc (16 * v + d) (n - 1), ts)) (unhex c)"
| "lex_step (LNum acc) ts c =
     (if number_char c then Some (LNum (c # acc), ts)
      else case lex_flush (LNum acc) ts of None \<Rightarrow> None | Some ts' \<Rightarrow> lex_idle c ts')"
| "lex_step (LWord acc) ts c =
     (if lower_letter c then Some (LWord (c # acc), ts)
      else case lex_flush (LWord acc) ts of None \<Rightarrow> None | Some ts' \<Rightarrow> lex_idle c ts')"

fun lex :: "lexmode \<Rightarrow> token list \<Rightarrow> string \<Rightarrow> token list option" where
  "lex m ts [] = map_option rev (lex_flush m ts)"
| "lex m ts (c # s) =
     (case lex_step m ts c of None \<Rightarrow> None | Some (m', ts') \<Rightarrow> lex m' ts' s)"

section \<open>Parser\<close>

datatype frame = FArr "json list" | FObj "(string \<times> json) list" string

datatype pmode = MVal | MFirst | MKeyFirst | MKey | MColon | MAfter | MDone json

fun put_value :: "json \<Rightarrow> frame list \<Rightarrow> (pmode \<times> frame list) option" where
  "put_value v [] = Some (MDone v, [])"
| "put_value v (FArr acc # st) = Some (MAfter, FArr (v # acc) # st)"
| "put_value v (FObj acc k # st) = Some (MAfter, FObj ((k, v) # acc) k # st)"

definition max_depth :: nat where
  "max_depth = 10000"

definition push_frame :: "pmode \<Rightarrow> frame \<Rightarrow> frame list \<Rightarrow> (pmode \<times> frame list) option" where
  "push_frame m f st = (if length st < max_depth then Some (m, f # st) else None)"

lemma push_frame_code [code]:
  "push_frame m f st = (if int (length st) < 10000 then Some (m, f # st) else None)"
  by (simp add: push_frame_def max_depth_def)

definition start_value :: "token \<Rightarrow> frame list \<Rightarrow> (pmode \<times> frame list) option" where
  "start_value t st =
     (case t of
        TStr s \<Rightarrow> put_value (JStr s) st
      | TNum s \<Rightarrow> put_value (JNum s) st
      | TLit v \<Rightarrow> put_value v st
      | TLBrack \<Rightarrow> push_frame MFirst (FArr []) st
      | TLBrace \<Rightarrow> push_frame MKeyFirst (FObj [] []) st
      | _ \<Rightarrow> None)"

fun close_frame :: "token \<Rightarrow> frame list \<Rightarrow> (pmode \<times> frame list) option" where
  "close_frame TRBrack (FArr acc # st) = put_value (JArr (rev acc)) st"
| "close_frame TRBrace (FObj acc k # st) = put_value (JObj (rev acc)) st"
| "close_frame _ _ = None"

definition read_key :: "token \<Rightarrow> frame list \<Rightarrow> (pmode \<times> frame list) option" where
  "read_key t st =
     (case (t, st) of
        (TStr k, FObj acc _ # st') \<Rightarrow> Some (MColon, FObj acc k # st')
      | _ \<Rightarrow> None)"

fun parse_step :: "pmode \<Rightarrow> frame list \<Rightarrow> token \<Rightarrow> (pmode \<times> frame list) option" where
  "parse_step MVal st t = start_value t st"
| "parse_step MFirst st t = (if t = TRBrack then close_frame t st else start_value t st)"
| "parse_step MKeyFirst st t = (if t = TRBrace then close_frame t st else read_key t st)"
| "parse_step MKey st t = read_key t st"
| "parse_step MColon st t = (if t = TColon then Some (MVal, st) else None)"
| "parse_step MAfter st t =
     (if t = TComma then
        (case st of
           FArr _ # _ \<Rightarrow> Some (MVal, st)
         | FObj _ _ # _ \<Rightarrow> Some (MKey, st)
         | [] \<Rightarrow> None)
      else close_frame t st)"
| "parse_step (MDone v) st t = None"

fun parse_tokens :: "pmode \<Rightarrow> frame list \<Rightarrow> token list \<Rightarrow> json option" where
  "parse_tokens m st [] = (case m of MDone v \<Rightarrow> Some v | _ \<Rightarrow> None)"
| "parse_tokens m st (t # ts) =
     (case parse_step m st t of None \<Rightarrow> None | Some (m', st') \<Rightarrow> parse_tokens m' st' ts)"

definition json_parse :: "string \<Rightarrow> json option" where
  "json_parse s = (case lex LIdle [] s of None \<Rightarrow> None | Some ts \<Rightarrow> parse_tokens MVal [] ts)"

section \<open>Decoding into Go values\<close>

text \<open>
  A decoder gets the value and the target's present content; the flag says that no
  \<open>UnmarshalTypeError\<close> was recorded. The target is filled as far as the value allows either way.
\<close>

type_synonym 'r decoder = "json \<Rightarrow> 'r \<Rightarrow> bool \<times> 'r"

definition dec_string :: "string decoder" where
  "dec_string j old = (case j of JStr s \<Rightarrow> (True, s) | JNull \<Rightarrow> (True, old) | _ \<Rightarrow> (False, old))"

definition dec_int64 :: "64 word decoder" where
  "dec_int64 j old =
     (case j of
        JNum s \<Rightarrow> (case parse_int s of Some n \<Rightarrow> (True, word_of_int n) | None \<Rightarrow> (False, old))
      | JNull \<Rightarrow> (True, old)
      | _ \<Rightarrow> (False, old))"

text \<open>Member names match case-insensitively, with the two non-ASCII runes that fold to ASCII.\<close>

fun fold_name :: "string \<Rightarrow> string" where
  "fold_name [] = []"
| "fold_name [a] = [ascii_lower a]"
| "fold_name (a # b # s) =
     (if [byte a, byte b] = [0xC5, 0xBF] then CHR ''s'' # fold_name s
      else case s of
        [] \<Rightarrow> ascii_lower a # fold_name (b # s)
      | c # t \<Rightarrow>
          if [byte a, byte b, byte c] = [0xE2, 0x84, 0xAA] then CHR ''k'' # fold_name t
          else ascii_lower a # fold_name (b # s))"

definition dec_struct :: "(string \<times> 'r decoder) list \<Rightarrow> 'r decoder" where
  "dec_struct flds j old =
     (case j of
        JObj kvs \<Rightarrow>
          foldl (\<lambda>(ok, r) (k, v).
            case map_of flds (fold_name k) of
              None \<Rightarrow> (ok, r)
            | Some d \<Rightarrow> (case d v r of (ok', r') \<Rightarrow> (ok \<and> ok', r')))
            (True, old) kvs
      | JNull \<Rightarrow> (True, old)
      | _ \<Rightarrow> (False, old))"

text \<open>A struct field, given by its selector and its update.\<close>

definition dec_field ::
  "'a decoder \<Rightarrow> ('r \<Rightarrow> 'a) \<Rightarrow> (('a \<Rightarrow> 'a) \<Rightarrow> 'r \<Rightarrow> 'r) \<Rightarrow> 'r decoder" where
  "dec_field d get upd j r = (case d j (get r) of (ok, v) \<Rightarrow> (ok, upd (\<lambda>_. v) r))"

text \<open>Array elements are decoded over the slice's present elements, or over zero values.\<close>

fun dec_elems :: "'r decoder \<Rightarrow> 'r \<Rightarrow> json list \<Rightarrow> 'r list \<Rightarrow> bool \<times> 'r list" where
  "dec_elems d zero [] old = (True, [])"
| "dec_elems d zero (j # js) old =
     (case d j (case old of [] \<Rightarrow> zero | r # _ \<Rightarrow> r) of
        (ok, r) \<Rightarrow> (case dec_elems d zero js (tl old) of (ok', rs) \<Rightarrow> (ok \<and> ok', r # rs)))"

definition dec_slice :: "'r decoder \<Rightarrow> 'r \<Rightarrow> 'r list decoder" where
  "dec_slice d zero j old =
     (case j of
        JArr js \<Rightarrow> dec_elems d zero js old
      | JNull \<Rightarrow> (True, [])
      | _ \<Rightarrow> (False, old))"

lemma raw_front_ascii: "is_ascii c \<Longrightarrow> utf8_width (map byte (c # r)) = Some 1"
  by (simp add: is_ascii_def)

lemma unquote_ascii: "list_all is_ascii s \<Longrightarrow> unquote (map B s) = s"
proof (induction s)
  case Nil
  then show ?case by simp
next
  case (Cons c s)
  then have "byte c < 0x80" by (simp add: is_ascii_def)
  with Cons show ?case by (simp add: numeral_eq_Suc)
qed

end
