(* ===== verification/GoMarshal.thy ===== *)
theory GoMarshal
  imports GoJson
begin

text \<open>
  \<open>json.Marshal\<close> on the values the driver sends (maps of strings, integers, lists and maps), byte by
  byte, and its round trip through the scanner and parser of \<open>GoJson\<close>.
\<close>

section \<open>Strings\<close>

text \<open>
  Quotes, backslashes, control characters and, since \<open>Marshal\<close> escapes for HTML, the three characters
  \<open><\<close>, \<open>>\<close> and \<open>&\<close> are escaped; an invalid byte becomes the escape of U+FFFD, and the line separators U+2028
  and U+2029 are escaped too. Everything else is copied.
\<close>

definition low_hex :: "nat \<Rightarrow> char" where
  "low_hex n = char_of (if n < 10 then n + 48 else n + 87)"

definition html_safe :: "char \<Rightarrow> bool" where
  "html_safe c =
     (\<not> control_char c \<and> is_ascii c \<and> c \<notin> {CHR 0x22, CHR 0x5C, CHR ''<'', CHR ''>'', CHR ''&''})"

definition unicode_escape :: "nat \<Rightarrow> string" where
  "unicode_escape n =
     [CHR 0x5C, CHR ''u'', low_hex (n div 4096), low_hex (n div 256 mod 16), low_hex (n div 16 mod 16), low_hex (n mod 16)]"

definition short_escape :: "char \<Rightarrow> char option" where
  "short_escape c =
     (if c \<in> {CHR 0x22, CHR 0x5C} then Some c
      else if c = CHR 0x08 then Some (CHR ''b'')
      else if c = CHR 0x0C then Some (CHR ''f'')
      else if c = CHR 0x0A then Some (CHR ''n'')
      else if c = CHR 0x0D then Some (CHR ''r'')
      else if c = CHR 0x09 then Some (CHR ''t'')
      else None)"

definition quote_ascii :: "char \<Rightarrow> string" where
  "quote_ascii c =
     (if html_safe c then [c]
      else case short_escape c of Some e \<Rightarrow> [CHR 0x5C, e] | None \<Rightarrow> unicode_escape (byte c))"

definition quote_rune :: "string \<Rightarrow> string" where
  "quote_rune u =
     (if map byte u = [0xE2, 0x80, 0xA8] then unicode_escape 0x2028
      else if map byte u = [0xE2, 0x80, 0xA9] then unicode_escape 0x2029
      else u)"

function quote_body :: "string \<Rightarrow> string" where
  "quote_body [] = []"
| "quote_body (c # r) =
     (case utf8_width (map byte (take 4 (c # r))) of
        None \<Rightarrow> unicode_escape 0xFFFD @ quote_body r
      | Some k \<Rightarrow>
          (if k = 1 then quote_ascii c else quote_rune (take k (c # r))) @ quote_body (drop (k - 1) r))"
  by pat_completeness auto
termination by (relation "measure length") auto

definition quote_string :: "string \<Rightarrow> string" where
  "quote_string s = CHR 0x22 # quote_body s @ [CHR 0x22]"

text \<open>What a reader gets for a string: invalid bytes are replaced.\<close>

definition utf8_fix :: "string \<Rightarrow> string" where
  "utf8_fix s = unquote (map B s)"

subsection \<open>Reading a quoted string\<close>

lemma unhex_low_hex: "n < 16 \<Longrightarrow> unhex (low_hex n) = Some n"
  by (auto simp: unhex_def low_hex_def is_digit_def byte_def)

lemma utf8_width_cases:
  assumes "utf8_width xs = Some k"
  obtains a r where "xs = a # r" "k = 1" "a < 0x80"
  | a b r where "xs = a # b # r" "k = 2" "\<forall>ys. utf8_width (a # b # ys) = Some 2" "0x80 \<le> a" "0x80 \<le> b"
  | a b c r where "xs = a # b # c # r" "k = 3" "\<forall>ys. utf8_width (a # b # c # ys) = Some 3" "0x80 \<le> a" "0x80 \<le> b" "0x80 \<le> c"
  | a b c d r where "xs = a # b # c # d # r" "k = 4" "\<forall>ys. utf8_width (a # b # c # d # ys) = Some 4"
      "0x80 \<le> a" "0x80 \<le> b" "0x80 \<le> c" "0x80 \<le> d"
proof -
  obtain a r where xs: "xs = a # r" using assms by (cases xs) auto
  show thesis
  proof (cases "a < 0x80")
    case True with assms xs show ?thesis by (intro that(1)) simp_all
  next
    case a: False
    then obtain b r2 where r: "r = b # r2" using assms xs by (cases r) simp_all
    show ?thesis
    proof (cases "cont 0xC2 0xDF a")
      case True with a assms xs r show ?thesis by (intro that(2) [of a b r2]) (simp_all add: cont_def split: if_splits)
    next
      case two: False
      then obtain c r3 where r2: "r2 = c # r3" using assms xs a r by (cases r2) simp_all
      show ?thesis
      proof (cases "cont 0xE0 0xEF a")
        case True
        with a two assms xs r r2 have b: "cont (if a = 0xE0 then 0xA0 else 0x80) (if a = 0xED then 0x9F else 0xBF) b" "cont 0x80 0xBF c" "k = 3"
          by (simp_all split: if_splits)
        have "0x80 \<le> b" "0x80 \<le> c" using b(1,2) by (simp_all add: cont_def split: if_splits)
        with True a two xs r r2 b show ?thesis by (intro that(3) [of a b c r3]) simp_all
      next
        case three: False
        then obtain d r4 where r3: "r3 = d # r4" using assms xs a two r r2 by (cases r3) simp_all
        with three a two assms xs r r2 have b: "cont 0xF0 0xF4 a" "cont (if a = 0xF0 then 0x90 else 0x80) (if a = 0xF4 then 0x8F else 0xBF) b" "cont 0x80 0xBF c" "cont 0x80 0xBF d" "k = 4"
          by (simp_all split: if_splits)
        have "0x80 \<le> b" "0x80 \<le> c" "0x80 \<le> d" using b(2-4) by (simp_all add: cont_def split: if_splits)
        with three a two xs r r2 r3 b show ?thesis by (intro that(4) [of a b c d r4]) simp_all
      qed
    qed
  qed
qed

lemma utf8_width_bounds:
  assumes "utf8_width xs = Some k"
  shows "1 \<le> k \<and> k \<le> 4 \<and> k \<le> length xs"
  by (rule utf8_width_cases [OF assms]) (simp_all del: utf8_width.simps)

lemma utf8_width_prefix:
  assumes "utf8_width xs = Some k"
  shows "utf8_width (take k xs @ ys) = Some k"
proof (rule utf8_width_cases [OF assms])
  fix a r assume "xs = a # r" "k = 1" "a < 0x80"
  then show ?thesis by simp
next
  fix a b r assume h: "xs = a # b # r" "k = 2" "\<forall>ys. utf8_width (a # b # ys) = Some 2"
  have "take k xs @ ys = a # b # ys" using h(1,2) by simp
  with h(2,3) show ?thesis by metis
next
  fix a b c r assume h: "xs = a # b # c # r" "k = 3" "\<forall>ys. utf8_width (a # b # c # ys) = Some 3"
  have "take k xs @ ys = a # b # c # ys" using h(1,2) by simp
  with h(2,3) show ?thesis by metis
next
  fix a b c d r assume h: "xs = a # b # c # d # r" "k = 4" "\<forall>ys. utf8_width (a # b # c # d # ys) = Some 4"
  have "take k xs @ ys = a # b # c # d # ys" using h(1,2) by simp
  with h(2,3) show ?thesis by metis
qed

lemma utf8_width_one:
  assumes "utf8_width (a # xs) = Some k"
  shows "k = 1 \<longleftrightarrow> a < 0x80"
  by (rule utf8_width_cases [OF assms]) (simp_all del: utf8_width.simps)

lemma utf8_width_high:
  assumes "utf8_width xs = Some k" "k \<noteq> 1"
  shows "\<forall>b \<in> set (take k xs). 0x80 \<le> b"
  by (rule utf8_width_cases [OF assms(1)]) (use assms(2) in \<open>simp_all del: utf8_width.simps\<close>)

text \<open>The elements that the scanner collects from a quoted string.\<close>

definition ascii_elem :: "char \<Rightarrow> selem" where
  "ascii_elem c = (if html_safe c \<or> short_escape c \<noteq> None then B c else U (byte c))"

definition rune_elems :: "string \<Rightarrow> selem list" where
  "rune_elems u =
     (if map byte u = [0xE2, 0x80, 0xA8] then [U 0x2028]
      else if map byte u = [0xE2, 0x80, 0xA9] then [U 0x2029]
      else map B u)"

function quote_elems :: "string \<Rightarrow> selem list" where
  "quote_elems [] = []"
| "quote_elems (c # r) =
     (case utf8_width (map byte (take 4 (c # r))) of
        None \<Rightarrow> U 0xFFFD # quote_elems r
      | Some k \<Rightarrow>
          (if k = 1 then [ascii_elem c] else rune_elems (take k (c # r))) @ quote_elems (drop (k - 1) r))"
  by pat_completeness auto
termination by (relation "measure length") auto

lemma lex_unicode_escape:
  assumes "n < 65536"
  shows "lex (LStr acc) ts (unicode_escape n @ rest) = lex (LStr (U n # acc)) ts rest"
proof -
  have digits: "unhex (low_hex (n div 4096)) = Some (n div 4096)" "unhex (low_hex (n div 256 mod 16)) = Some (n div 256 mod 16)"
    "unhex (low_hex (n div 16 mod 16)) = Some (n div 16 mod 16)" "unhex (low_hex (n mod 16)) = Some (n mod 16)"
    using assms by (auto intro!: unhex_low_hex)
  have "n div 4096 = n div 256 div 16" "n div 256 = n div 16 div 16"
    by (simp_all add: div_mult2_eq [symmetric])
  then have "16 * (16 * (16 * (n div 4096) + n div 256 mod 16) + n div 16 mod 16) + n mod 16 = n"
    by (simp only: mult_div_mod_eq)
  with digits show ?thesis by (simp add: unicode_escape_def)
qed

lemma lex_quote_ascii:
  assumes "is_ascii c"
  shows "lex (LStr acc) ts (quote_ascii c @ rest) = lex (LStr (ascii_elem c # acc)) ts rest"
proof (cases "html_safe c")
  case True
  then show ?thesis by (simp add: quote_ascii_def ascii_elem_def html_safe_def)
next
  case False
  show ?thesis
  proof (cases "short_escape c")
    case None
    have "byte c < 65536" using byte_lt_256 [of c] by linarith
    with False None show ?thesis by (simp add: quote_ascii_def ascii_elem_def lex_unicode_escape)
  next
    case (Some e)
    then have "json_escape e = Some c \<and> e \<noteq> CHR ''u''"
      by (auto simp: short_escape_def json_escape_def split: if_splits)
    with False Some show ?thesis by (simp add: quote_ascii_def ascii_elem_def)
  qed
qed

lemma lex_high:
  assumes "\<forall>c \<in> set u. 0x80 \<le> byte c"
  shows "lex (LStr acc) ts (u @ rest) = lex (LStr (rev (map B u) @ acc)) ts rest"
  using assms
proof (induction u arbitrary: acc)
  case (Cons c u)
  then have "c \<noteq> CHR 0x22" "c \<noteq> CHR 0x5C" "\<not> control_char c"
    by (auto simp: control_char_def byte_def)
  with Cons show ?case by simp
qed simp

lemma lex_quote_rune:
  assumes "\<forall>c \<in> set u. 0x80 \<le> byte c"
  shows "lex (LStr acc) ts (quote_rune u @ rest) = lex (LStr (rev (rune_elems u) @ acc)) ts rest"
  by (simp add: quote_rune_def rune_elems_def lex_unicode_escape lex_high [OF assms])

lemma take_width:
  assumes "utf8_width (map byte (take 4 s)) = Some k"
  shows "take k (take 4 s) = take k s" "1 \<le> k" "k \<le> length s"
proof -
  note k = utf8_width_bounds [OF assms]
  then show "take k (take 4 s) = take k s" by (simp only: take_take min_absorb1)
  from k show "1 \<le> k" "k \<le> length s" by (simp_all add: length_take)
qed

lemma width_ascii:
  assumes "utf8_width (map byte (take 4 (c # r))) = Some 1"
  shows "is_ascii c"
proof -
  from assms have "utf8_width (byte c # map byte (take 3 r)) = Some 1" by (simp del: utf8_width.simps)
  from utf8_width_one [OF this] show ?thesis by (simp add: is_ascii_def)
qed

text \<open>One step of the two recursions, by the width of the first rune.\<close>

lemma quote_steps:
  "utf8_width (map byte (take 4 (c # r))) = None \<Longrightarrow> quote_body (c # r) = unicode_escape 0xFFFD @ quote_body r"
  "utf8_width (map byte (take 4 (c # r))) = None \<Longrightarrow> quote_elems (c # r) = U 0xFFFD # quote_elems r"
  "utf8_width (map byte (take 4 (c # r))) = Some 1 \<Longrightarrow> quote_body (c # r) = quote_ascii c @ quote_body r"
  "utf8_width (map byte (take 4 (c # r))) = Some 1 \<Longrightarrow> quote_elems (c # r) = ascii_elem c # quote_elems r"
  "utf8_width (map byte (take 4 (c # r))) = Some k \<Longrightarrow> k \<noteq> 1 \<Longrightarrow>
     quote_body (c # r) = quote_rune (take k (c # r)) @ quote_body (drop (k - 1) r)"
  "utf8_width (map byte (take 4 (c # r))) = Some k \<Longrightarrow> k \<noteq> 1 \<Longrightarrow>
     quote_elems (c # r) = rune_elems (take k (c # r)) @ quote_elems (drop (k - 1) r)"
  by (simp_all only: quote_body.simps quote_elems.simps option.case if_True if_False append_Cons append_Nil
      diff_self_eq_0 drop_0 simp_thms)

lemma lex_quote_body:
  "lex (LStr acc) ts (quote_body s @ rest) = lex (LStr (rev (quote_elems s) @ acc)) ts rest"
proof (induction s arbitrary: acc rule: quote_body.induct)
  case (2 c r)
  show ?case
  proof (cases "utf8_width (map byte (take 4 (c # r)))")
    case None
    show ?thesis
      using 2(1) [OF None] lex_unicode_escape [of "0xFFFD"] by (simp only: quote_steps(1,2) [OF None]) simp
  next
    case (Some k)
    note IH = 2(2) [OF Some]
    show ?thesis
    proof (cases "k = 1")
      case True
      with Some have w: "utf8_width (map byte (take 4 (c # r))) = Some 1" by (simp only:)
      show ?thesis
        using IH True lex_quote_ascii [OF width_ascii [OF w]] by (simp only: quote_steps(3,4) [OF w]) simp
    next
      case False
      have "\<forall>b \<in> set (take k (c # r)). 0x80 \<le> byte b"
        using utf8_width_high [OF Some False] by (simp only: take_map take_width(1) [OF Some] set_map ball_simps)
      from lex_quote_rune [OF this] IH show ?thesis
        by (simp only: quote_steps(5,6) [OF Some False] append_assoc rev_append)
    qed
  qed
qed simp

text \<open>Their decoding is that of the bytes themselves.\<close>

lemma raw_front_append:
  "raw_front n (map B u @ es) = take n u @ raw_front (n - length u) es"
proof (induction u arbitrary: n)
  case Nil
  then show ?case by (cases n) simp_all
next
  case (Cons c u)
  then show ?case by (cases n) simp_all
qed

lemma raw_front_map: "raw_front n (map B u) = take n u"
  using raw_front_append [of n u "[]"] by (cases "n - length u") auto

lemma unquote_run:
  assumes "utf8_width (map byte u) = Some k" "length u = k"
  shows "unquote (map B u @ es) = u @ unquote es"
proof -
  from utf8_width_bounds [OF assms(1)] obtain c r where u: "u = c # r" by (cases u) auto
  let ?s = "raw_front 4 (map B u @ es)"
  have s: "?s = u @ raw_front (4 - length u) es"
    using utf8_width_bounds [OF assms(1)] assms(2) by (simp add: raw_front_append)
  have w: "utf8_width (map byte ?s) = Some k"
    using utf8_width_prefix [OF assms(1), of "map byte (raw_front (4 - length u) es)"] assms(2) s by simp
  have "unquote (B c # map B r @ es) = take k ?s @ unquote (drop (k - 1) (map B r @ es))"
    using w u by (simp add: Let_def del: utf8_width.simps)
  moreover have "take k ?s = u" using s assms(2) by simp
  moreover have "drop (k - 1) (map B r @ es) = es" using assms(2) u by simp
  ultimately show ?thesis using u by simp
qed

lemma unquote_ascii_elem:
  assumes "is_ascii c"
  shows "unquote (ascii_elem c # es) = c # unquote es"
proof -
  have "unquote (B c # es) = c # unquote es"
    using unquote_run [of "[c]" 1 es] assms by (simp add: is_ascii_def)
  moreover have "unquote (U (byte c) # es) = c # unquote es"
    using assms by (simp add: surrogate_def encode_rune_def is_ascii_def)
  ultimately show ?thesis by (simp add: ascii_elem_def)
qed

lemma unquote_rune_elems:
  assumes "utf8_width (map byte u) = Some k" "length u = k"
  shows "unquote (rune_elems u @ es) = u @ unquote es"
proof -
  have chars: "u = map char_of (map byte u)" by (simp add: o_def)
  have seps: "unquote (U 0x2028 # es) = map char_of [0xE2, 0x80, 0xA8 :: nat] @ unquote es"
    "unquote (U 0x2029 # es) = map char_of [0xE2, 0x80, 0xA9 :: nat] @ unquote es"
    by (simp_all add: surrogate_def encode_rune_def)
  show ?thesis
    using unquote_run [OF assms, of es] seps chars by (auto simp: rune_elems_def simp del: unquote.simps)
qed

lemma unquote_steps:
  "utf8_width (map byte (take 4 (c # r))) = None \<Longrightarrow> utf8_fix (c # r) = replacement @ utf8_fix r"
  "utf8_width (map byte (take 4 (c # r))) = Some k \<Longrightarrow> utf8_fix (c # r) = take k (c # r) @ utf8_fix (drop (k - 1) r)"
proof -
  note front = raw_front_map [of 4 "c # r", unfolded list.map]
  show "utf8_width (map byte (take 4 (c # r))) = None \<Longrightarrow> utf8_fix (c # r) = replacement @ utf8_fix r"
    by (simp only: utf8_fix_def list.map unquote.simps Let_def front option.case)
  show "utf8_width (map byte (take 4 (c # r))) = Some k \<Longrightarrow> utf8_fix (c # r) = take k (c # r) @ utf8_fix (drop (k - 1) r)"
    using take_width(1) by (simp only: utf8_fix_def list.map unquote.simps Let_def front option.case drop_map)
qed

lemma unquote_quote_elems: "unquote (quote_elems s) = utf8_fix s"
proof (induction s rule: quote_elems.induct)
  case 1
  then show ?case by (simp add: utf8_fix_def)
next
  case (2 c r)
  show ?case
  proof (cases "utf8_width (map byte (take 4 (c # r)))")
    case None
    have "unquote (U 0xFFFD # quote_elems r) = replacement @ unquote (quote_elems r)"
      by (simp add: surrogate_def)
    then show ?thesis
      by (simp only: quote_steps(2) [OF None] unquote_steps(1) [OF None] 2(1) [OF None])
  next
    case (Some k)
    let ?u = "take k (c # r)"
    have "take k (map byte (take 4 (c # r))) = map byte ?u" by (simp only: take_map take_width(1) [OF Some])
    then have width: "utf8_width (map byte ?u) = Some k"
      using utf8_width_prefix [OF Some, of "[]"] by (simp del: utf8_width.simps)
    show ?thesis
    proof (cases "k = 1")
      case True
      with Some have w: "utf8_width (map byte (take 4 (c # r))) = Some 1" by (simp only:)
      show ?thesis
        using 2(2) [OF Some] True unquote_ascii_elem [OF width_ascii [OF w]]
        by (simp only: quote_steps(4) [OF w] unquote_steps(2) [OF Some]) simp
    next
      case False
      have "length ?u = k" using take_width(3) [OF Some] by simp
      from unquote_rune_elems [OF width this] show ?thesis
        by (simp only: quote_steps(6) [OF Some False] unquote_steps(2) [OF Some] 2(2) [OF Some])
    qed
  qed
qed

lemma lex_quote_string:
  "lex LIdle ts (quote_string s @ rest) = lex LIdle (TStr (utf8_fix s) # ts) rest"
proof -
  have "lex_idle CHR 0x22 ts = Some (LStr [], ts)"
    by (simp add: lex_idle_def json_space_def byte_def)
  then show ?thesis
    using lex_quote_body [of "[]" ts s "CHR 0x22 # rest"]
    by (simp add: quote_string_def unquote_quote_elems del: unquote.simps)
qed

section \<open>Values\<close>

fun marshal :: "json \<Rightarrow> string" and
  marshal_elems :: "json list \<Rightarrow> string" and
  marshal_members :: "(string \<times> json) list \<Rightarrow> string" where
  "marshal JNull = ''null''"
| "marshal (JBool b) = format_bool b"
| "marshal (JNum s) = s"
| "marshal (JStr s) = quote_string s"
| "marshal (JArr js) = CHR ''['' # marshal_elems js @ '']''"
| "marshal (JObj kvs) = CHR ''{'' # marshal_members kvs @ ''}''"
| "marshal_elems [] = []"
| "marshal_elems (j # js) = marshal j @ (if js = [] then [] else CHR '','' # marshal_elems js)"
| "marshal_members [] = []"
| "marshal_members ((k, v) # kvs) =
     quote_string k @ CHR '':'' # marshal v @ (if kvs = [] then [] else CHR '','' # marshal_members kvs)"

text \<open>The value that a reader gets, its nesting depth, and the values whose numbers are JSON numbers.\<close>

fun json_fix :: "json \<Rightarrow> json" and json_fix_members :: "(string \<times> json) list \<Rightarrow> (string \<times> json) list" where
  "json_fix (JStr s) = JStr (utf8_fix s)"
| "json_fix (JArr js) = JArr (map json_fix js)"
| "json_fix (JObj kvs) = JObj (json_fix_members kvs)"
| "json_fix j = j"
| "json_fix_members [] = []"
| "json_fix_members ((k, v) # kvs) = (utf8_fix k, json_fix v) # json_fix_members kvs"

fun json_depth :: "json \<Rightarrow> nat" and elems_depth :: "json list \<Rightarrow> nat" and
  members_depth :: "(string \<times> json) list \<Rightarrow> nat" where
  "json_depth (JArr js) = Suc (elems_depth js)"
| "json_depth (JObj kvs) = Suc (members_depth kvs)"
| "json_depth j = 0"
| "elems_depth [] = 0"
| "elems_depth (j # js) = max (json_depth j) (elems_depth js)"
| "members_depth [] = 0"
| "members_depth ((k, v) # kvs) = max (json_depth v) (members_depth kvs)"

fun json_ok :: "json \<Rightarrow> bool" and elems_ok :: "json list \<Rightarrow> bool" and
  members_ok :: "(string \<times> json) list \<Rightarrow> bool" where
  "json_ok (JNum s) = json_number s"
| "json_ok (JArr js) = elems_ok js"
| "json_ok (JObj kvs) = members_ok kvs"
| "json_ok j = True"
| "elems_ok [] = True"
| "elems_ok (j # js) = (json_ok j \<and> elems_ok js)"
| "members_ok [] = True"
| "members_ok ((k, v) # kvs) = (json_ok v \<and> members_ok kvs)"

fun tokens :: "json \<Rightarrow> token list" and elem_tokens :: "json list \<Rightarrow> token list" and
  member_tokens :: "(string \<times> json) list \<Rightarrow> token list" where
  "tokens (JNum s) = [TNum s]"
| "tokens (JStr s) = [TStr (utf8_fix s)]"
| "tokens (JArr js) = TLBrack # elem_tokens js @ [TRBrack]"
| "tokens (JObj kvs) = TLBrace # member_tokens kvs @ [TRBrace]"
| "tokens j = [TLit j]"
| "elem_tokens [] = []"
| "elem_tokens (j # js) = tokens j @ (if js = [] then [] else TComma # elem_tokens js)"
| "member_tokens [] = []"
| "member_tokens ((k, v) # kvs) =
     TStr (utf8_fix k) # TColon # tokens v @ (if kvs = [] then [] else TComma # member_tokens kvs)"

text \<open>The members of a Go map are written sorted by key.\<close>

definition json_map :: "(string \<times> json) list \<Rightarrow> json" where
  "json_map kvs = JObj (sort_key fst kvs)"

subsection \<open>The scanner reads the tokens\<close>

definition delimited :: "string \<Rightarrow> bool" where
  "delimited s = (s = [] \<or> hd s \<in> set '',]}'')"

lemma delimited_simps [simp]:
  "delimited []" "delimited (CHR '','' # s)" "delimited (CHR '']'' # s)" "delimited (CHR ''}'' # s)"
  by (simp_all add: delimited_def)

lemma lex_idle_marks [simp]:
  "lex_idle CHR ''['' ts = Some (LIdle, TLBrack # ts)" "lex_idle CHR '']'' ts = Some (LIdle, TRBrack # ts)"
  "lex_idle CHR ''{'' ts = Some (LIdle, TLBrace # ts)" "lex_idle CHR ''}'' ts = Some (LIdle, TRBrace # ts)"
  "lex_idle CHR '','' ts = Some (LIdle, TComma # ts)" "lex_idle CHR '':'' ts = Some (LIdle, TColon # ts)"
  by (simp_all add: lex_idle_def json_space_def byte_def)

lemma lex_idle_number:
  assumes "is_digit c \<or> c = CHR ''-''"
  shows "lex_idle c ts = Some (LNum [c], ts)"
proof -
  have marks: "x \<noteq> c" if "x \<in> {CHR ''{'', CHR ''}'', CHR ''['', CHR '']'', CHR '':'', CHR '','', CHR 0x22}" for x
    using that assms by (auto simp: is_digit_def byte_def)
  have "\<not> json_space c"
    using assms by (auto simp: json_space_def is_digit_def byte_def)
  moreover have "c \<notin> {CHR ''{'', CHR ''}'', CHR ''['', CHR '']'', CHR '':'', CHR '','', CHR 0x22}"
    using marks by blast
  ultimately show ?thesis
    using assms by (simp add: lex_idle_def)
qed

lemma lex_idle_word [simp]:
  "lex_idle CHR ''n'' ts = Some (LWord ''n'', ts)" "lex_idle CHR ''t'' ts = Some (LWord ''t'', ts)"
  "lex_idle CHR ''f'' ts = Some (LWord ''f'', ts)"
  by (simp_all add: lex_idle_def json_space_def is_digit_def lower_letter_def byte_def)

lemma word_letters:
  "lower_letter CHR ''u''" "lower_letter CHR ''l''" "lower_letter CHR ''r''" "lower_letter CHR ''e''"
  "lower_letter CHR ''a''" "lower_letter CHR ''s''"
  by (simp_all add: lower_letter_def byte_def)

lemma digits_number_chars: "list_all is_digit s \<Longrightarrow> list_all number_char s"
  by (auto simp: list_all_iff number_char_def)

lemma json_exponent_chars: "json_exponent s \<Longrightarrow> list_all number_char s"
  by (auto simp: json_exponent_def digits1_def number_char_def digits_number_chars split: list.splits if_splits)

lemma takeWhile_number_chars: "list_all number_char (dropWhile is_digit s) \<Longrightarrow> list_all number_char s"
  by (induction s) (auto simp: number_char_def split: if_splits)

lemma json_fraction_chars: "json_fraction s \<Longrightarrow> list_all number_char s"
  by (auto simp: json_fraction_def number_char_def intro: takeWhile_number_chars dest!: json_exponent_chars
      split: list.splits if_splits)

lemma json_number_chars:
  assumes "json_number s"
  shows "list_all number_char s" "s \<noteq> []" "is_digit (hd s) \<or> hd s = CHR ''-''"
proof -
  define t where "t = (if prefix ''-'' s then tl s else s)"
  have t: "takeWhile is_digit t \<noteq> []" "json_fraction (dropWhile is_digit t)"
    using assms by (simp_all add: json_number_def t_def Let_def)
  have chars: "list_all number_char t" using takeWhile_number_chars [OF json_fraction_chars [OF t(2)]] .
  have "t \<noteq> []" "is_digit (hd t)" using t(1) by (cases t; simp split: if_splits)+
  with chars show "list_all number_char s" "s \<noteq> []" "is_digit (hd s) \<or> hd s = CHR ''-''"
    by (cases s; auto simp: t_def number_char_def split: if_splits)+
qed

lemma lex_number_chars:
  "list_all number_char s \<Longrightarrow> lex (LNum acc) ts (s @ rest) = lex (LNum (rev s @ acc)) ts rest"
  by (induction s arbitrary: acc) simp_all

lemma lex_number:
  assumes "json_number s" "delimited rest"
  shows "lex LIdle ts (s @ rest) = lex LIdle (TNum s # ts) rest"
proof -
  note chars = json_number_chars [OF assms(1)]
  obtain c t where s: "s = c # t" using chars(2) by (cases s) auto
  have start: "lex_idle c ts = Some (LNum [c], ts)"
    using chars(3) s by (intro lex_idle_number) simp
  have "lex LIdle ts (s @ rest) = lex (LNum (rev s)) ts rest"
    using chars(1) s start by (simp add: lex_number_chars)
  also have "\<dots> = lex LIdle (TNum s # ts) rest"
  proof (cases rest)
    case Nil
    then show ?thesis using assms(1) by simp
  next
    case (Cons d u)
    with assms(2) consider "d = CHR '',''" | "d = CHR '']''" | "d = CHR ''}''" by (auto simp: delimited_def)
    then have "\<not> number_char d" by cases (simp_all add: number_char_def is_digit_def byte_def)
    with Cons assms(1) show ?thesis by simp
  qed
  finally show ?thesis .
qed

lemma lex_word:
  assumes "(w, v) \<in> {(''null'', JNull), (''true'', JBool True), (''false'', JBool False)}" "delimited rest"
  shows "lex LIdle ts (w @ rest) = lex LIdle (TLit v # ts) rest"
proof -
  have "lex LIdle ts (w @ rest) = lex (LWord (rev w)) ts rest"
    using assms(1) by (auto simp: word_letters)
  also have "\<dots> = lex LIdle (TLit v # ts) rest"
  proof (cases rest)
    case Nil
    then show ?thesis using assms(1) by (auto simp: json_word_def)
  next
    case (Cons d u)
    with assms(2) consider "d = CHR '',''" | "d = CHR '']''" | "d = CHR ''}''" by (auto simp: delimited_def)
    then have "\<not> lower_letter d" by cases (simp_all add: lower_letter_def byte_def)
    with Cons assms(1) show ?thesis by (auto simp: json_word_def)
  qed
  finally show ?thesis .
qed

lemma lex_marshal:
  "json_ok j \<Longrightarrow> delimited rest \<Longrightarrow> lex LIdle ts (marshal j @ rest) = lex LIdle (rev (tokens j) @ ts) rest"
  "elems_ok js \<Longrightarrow> delimited rest \<Longrightarrow> lex LIdle ts (marshal_elems js @ rest) = lex LIdle (rev (elem_tokens js) @ ts) rest"
  "members_ok kvs \<Longrightarrow> delimited rest \<Longrightarrow>
     lex LIdle ts (marshal_members kvs @ rest) = lex LIdle (rev (member_tokens kvs) @ ts) rest"
proof (induction j and js and kvs arbitrary: rest ts and rest ts and rest ts
    rule: marshal_marshal_elems_marshal_members.induct)
  case 1
  then show ?case using lex_word [of "''null''" JNull] by simp
next
  case (2 b)
  then show ?case
    using lex_word [of "''true''" "JBool True"] lex_word [of "''false''" "JBool False"]
    by (simp add: format_bool_def)
qed (simp_all add: lex_number lex_quote_string)

subsection \<open>The parser reads the values\<close>

text \<open>A value that is read continues with \<open>put_value\<close>.\<close>

definition put_then :: "json \<Rightarrow> frame list \<Rightarrow> token list \<Rightarrow> json option" where
  "put_then v st rest = (case put_value v st of None \<Rightarrow> None | Some (m, st') \<Rightarrow> parse_tokens m st' rest)"

lemma put_then_frame [simp]:
  "put_then v (FArr acc # st) rest = parse_tokens MAfter (FArr (v # acc) # st) rest"
  "put_then v (FObj macc k # st) rest = parse_tokens MAfter (FObj ((k, v) # macc) k # st) rest"
  by (simp_all add: put_then_def)

lemma first_token:
  "\<exists>t ts. tokens j = t # ts \<and> t \<noteq> TRBrack \<and> (\<forall>st. parse_step MFirst st t = start_value t st)"
  by (cases j) auto

lemma parse_first: "parse_tokens MFirst st (tokens j @ rest) = parse_tokens MVal st (tokens j @ rest)"
  using first_token [of j] by auto

lemma parse_marshal:
  "length st + json_depth j \<le> max_depth \<Longrightarrow>
     parse_tokens MVal st (tokens j @ rest) = put_then (json_fix j) st rest"
  "length st + 1 + elems_depth js \<le> max_depth \<Longrightarrow> js \<noteq> [] \<Longrightarrow>
     parse_tokens MVal (FArr acc # st) (elem_tokens js @ TRBrack # rest) =
     put_then (JArr (rev acc @ map json_fix js)) st rest"
  "length st + 1 + members_depth kvs \<le> max_depth \<Longrightarrow> kvs \<noteq> [] \<Longrightarrow>
     parse_tokens MKey (FObj macc k0 # st) (member_tokens kvs @ TRBrace # rest) =
     put_then (JObj (rev macc @ json_fix_members kvs)) st rest"
proof (induction j and js and kvs arbitrary: st rest and acc st rest and macc k0 st rest
    rule: marshal_marshal_elems_marshal_members.induct)
  case (5 js)
  show ?case
  proof (cases js)
    case Nil
    with 5(2) show ?thesis by (simp add: start_value_def push_frame_def put_then_def)
  next
    case (Cons j' js')
    have "parse_tokens MFirst (FArr [] # st) (elem_tokens js @ TRBrack # rest) =
        parse_tokens MVal (FArr [] # st) (elem_tokens js @ TRBrack # rest)"
      using Cons parse_first by simp
    with 5 Cons show ?thesis by (simp add: start_value_def push_frame_def)
  qed
next
  case (6 kvs)
  show ?case
  proof (cases kvs)
    case Nil
    with 6(2) show ?thesis by (simp add: start_value_def push_frame_def put_then_def)
  next
    case (Cons kv kvs')
    have "parse_tokens MKeyFirst (FObj [] [] # st) (member_tokens kvs @ TRBrace # rest) =
        parse_tokens MKey (FObj [] [] # st) (member_tokens kvs @ TRBrace # rest)"
      using Cons by (cases kv) simp
    with 6 Cons show ?thesis by (simp add: start_value_def push_frame_def)
  qed
next
  case (8 j js)
  then show ?case by (cases js) (simp_all add: put_then_def [of _ st])
next
  case (10 k v kvs)
  then show ?case by (cases kvs) (simp_all add: read_key_def put_then_def [of _ st])
qed (simp_all add: start_value_def put_then_def)

text \<open>The text of a value is read as that value, with invalid UTF-8 replaced.\<close>

lemma json_parse_marshal:
  assumes "json_ok j" "json_depth j \<le> max_depth"
  shows "json_parse (marshal j) = Some (json_fix j)"
  using lex_marshal(1) [OF assms(1), of "[]" "[]"] parse_marshal(1) [of "[]" j "[]"] assms(2)
  by (simp add: json_parse_def put_then_def)

end
