(* ===== verification/GoQuote.thy ===== *)
theory GoQuote
  imports GoMarshal
begin

text \<open>
  \<open>strconv.Quote\<close>, which \<open>fmt\<close> uses for the verb \<open>%q\<close>. The Unicode table behind \<open>strconv.IsPrint\<close> is a
  parameter for runes from U+0080 on.
\<close>

definition rune_value :: "nat list \<Rightarrow> nat" where
  "rune_value bs =
     (case bs of
        [a] \<Rightarrow> a
      | [a, b] \<Rightarrow> (a mod 32) * 64 + b mod 64
      | [a, b, c] \<Rightarrow> (a mod 16) * 4096 + (b mod 64) * 64 + c mod 64
      | [a, b, c, d] \<Rightarrow> (a mod 8) * 262144 + (b mod 64) * 4096 + (c mod 64) * 64 + d mod 64
      | _ \<Rightarrow> 0)"

definition hex_escape :: "char \<Rightarrow> string" where
  "hex_escape c = [CHR 0x5C, CHR ''x'', low_hex (byte c div 16), low_hex (byte c mod 16)]"

definition long_escape :: "nat \<Rightarrow> string" where
  "long_escape n =
     (if n < 0x10000 then unicode_escape n
      else [CHR 0x5C, CHR ''U'', CHR ''0'', CHR ''0'', low_hex (n div 1048576), low_hex (n div 65536 mod 16)] @
        drop 2 (unicode_escape (n mod 65536)))"

definition quote_plain :: "char \<Rightarrow> string" where
  "quote_plain c =
     (if c \<in> {CHR 0x22, CHR 0x5C} then [CHR 0x5C, c]
      else if 32 \<le> byte c \<and> byte c < 127 then [c]
      else if c = CHR 0x07 then [CHR 0x5C, CHR ''a'']
      else if c = CHR 0x0B then [CHR 0x5C, CHR ''v'']
      else case short_escape c of Some e \<Rightarrow> [CHR 0x5C, e] | None \<Rightarrow> hex_escape c)"

function go_quote_body :: "(nat \<Rightarrow> bool) \<Rightarrow> string \<Rightarrow> string" where
  "go_quote_body is_print [] = []"
| "go_quote_body is_print (c # r) =
     (case utf8_width (map byte (take 4 (c # r))) of
        None \<Rightarrow> hex_escape c @ go_quote_body is_print r
      | Some k \<Rightarrow>
          (if k = 1 then quote_plain c
           else let n = rune_value (map byte (take k (c # r))) in
             if is_print n then take k (c # r) else long_escape n) @
          go_quote_body is_print (drop (k - 1) r))"
  by pat_completeness auto
termination by (relation "measure (length \<circ> snd)") auto

definition go_quote :: "(nat \<Rightarrow> bool) \<Rightarrow> string \<Rightarrow> string" where
  "go_quote is_print s = CHR 0x22 # go_quote_body is_print s @ [CHR 0x22]"

section \<open>A quoted string is one line\<close>

definition visible :: "char \<Rightarrow> bool" where
  "visible c = (32 \<le> byte c \<and> byte c \<noteq> 127)"

lemma visible_low_hex: "n < 16 \<Longrightarrow> visible (low_hex n)"
  by (auto simp: visible_def low_hex_def byte_def)

lemma visible_lits:
  "visible CHR 0x22" "visible CHR 0x5C" "visible CHR ''a''" "visible CHR ''v''" "visible CHR ''x''" "visible CHR ''u''"
  "visible CHR ''U''" "visible CHR ''0''" "visible CHR ''b''" "visible CHR ''f''" "visible CHR ''n''" "visible CHR ''r''"
  "visible CHR ''t''"
  by (simp_all add: visible_def byte_def)

lemma visible_hex_escape: "list_all visible (hex_escape c)"
proof -
  have "byte c div 16 < 16" "byte c mod 16 < 16" by (simp_all add: byte_div_16)
  then show ?thesis by (simp add: hex_escape_def visible_low_hex visible_lits)
qed

lemma visible_unicode_escape: "n < 65536 \<Longrightarrow> list_all visible (unicode_escape n)"
  by (simp add: unicode_escape_def visible_lits, intro conjI visible_low_hex) auto

lemma visible_long_escape: "n < 16777216 \<Longrightarrow> list_all visible (long_escape n)"
proof -
  assume n: "n < 16777216"
  have "list_all visible (drop 2 (unicode_escape (n mod 65536)))"
    using visible_unicode_escape [of "n mod 65536"] by (simp add: unicode_escape_def)
  moreover have "visible (low_hex (n div 1048576))" "visible (low_hex (n div 65536 mod 16))"
    using n by (auto intro!: visible_low_hex)
  ultimately show ?thesis
    using visible_unicode_escape [of n] by (simp add: long_escape_def visible_lits)
qed

lemma visible_quote_plain: "list_all visible (quote_plain c)"
proof (cases "short_escape c")
  case None
  then show ?thesis
    using visible_hex_escape [of c] by (simp add: quote_plain_def visible_lits) (simp add: visible_def)
next
  case (Some e)
  then have "e \<in> {CHR 0x22, CHR 0x5C, CHR ''b'', CHR ''f'', CHR ''n'', CHR ''r'', CHR ''t''}"
    by (auto simp: short_escape_def split: if_splits)
  then have "visible e" by (auto simp: visible_lits)
  with Some show ?thesis
    by (simp add: quote_plain_def visible_lits) (auto simp: visible_def)
qed

lemma rune_value_bound:
  assumes "\<forall>b \<in> set bs. b < 256"
  shows "rune_value bs < 16777216"
proof -
  have mods: "a mod 32 < 32" "a mod 16 < 16" "a mod 8 < 8" "b mod 64 < 64" for a b :: nat by simp_all
  have "(a mod 32) * 64 + b mod 64 < 16777216" for a b :: nat
    using mods(1) [of a] mods(4) [of b] by linarith
  moreover have "(a mod 16) * 4096 + (b mod 64) * 64 + c mod 64 < 16777216" for a b c :: nat
    using mods(2) [of a] mods(4) [of b] mods(4) [of c] by linarith
  moreover have "(a mod 8) * 262144 + (b mod 64) * 4096 + (c mod 64) * 64 + d mod 64 < 16777216" for a b c d :: nat
    using mods(3) [of a] mods(4) [of b] mods(4) [of c] mods(4) [of d] by linarith
  ultimately show ?thesis
    using assms by (auto simp: rune_value_def split: list.split)
qed

lemma visible_go_quote: "list_all visible (go_quote is_print s)"
proof -
  have "list_all visible (go_quote_body is_print s)"
  proof (induction is_print s rule: go_quote_body.induct)
    case (2 is_print c r)
    show ?case
    proof (cases "utf8_width (map byte (take 4 (c # r)))")
      case None
      with 2(1) visible_hex_escape show ?thesis by (simp del: utf8_width.simps take_Suc_Cons)
    next
      case (Some k)
      let ?u = "take k (c # r)"
      have "list_all visible ?u" if "k \<noteq> 1"
      proof -
        have "\<forall>b \<in> set ?u. 0x80 \<le> byte b"
          using utf8_width_high [OF Some that] by (simp only: take_map take_width(1) [OF Some] set_map ball_simps)
        then show ?thesis by (auto simp: list_all_iff visible_def)
      qed
      moreover have "list_all visible (long_escape (rune_value (map byte ?u)))"
        by (intro visible_long_escape rune_value_bound) auto
      ultimately show ?thesis
        using 2(2) [OF Some] visible_quote_plain Some by (simp del: utf8_width.simps take_Suc_Cons add: Let_def)
    qed
  qed simp
  then show ?thesis by (simp add: go_quote_def visible_lits)
qed

end
