(* ===== verification/Errors.thy ===== *)
theory Errors
  imports GoQuote
begin

text \<open>
  The driver's errors (\<open>pkg/clients/common.go\<close> and the error types of \<open>pkg/clients/s3/s3.go\<close>) as one
  datatype, with Go's \<open>errors.Is\<close> and \<open>errors.As\<close> on the chains the program builds, and the
  classification of quota rejections.
\<close>

section \<open>Error values\<close>

datatype grpc_code = OK | Canceled | Unknown | InvalidArgument | DeadlineExceeded | NotFound
  | AlreadyExists | PermissionDenied | ResourceExhausted | FailedPrecondition | Aborted | OutOfRange
  | Unimplemented | Internal | Unavailable | DataLoss | Unauthenticated | OtherCode "32 word"

datatype ctx_err = CtxCanceled | CtxDeadlineExceeded

record ontapHTTPError =
  he_statusCode :: int
  he_message :: string
  he_quotaExhausted :: bool

record ontapJobError =
  je_operation :: string
  je_jobState :: string
  je_errorCode :: string
  je_errorMsg :: string
  je_bucketName :: string
  je_quotaExhausted :: bool

text \<open>
  \<open>ErrText\<close> is an error that is only its text (\<open>errors.New\<close>, \<open>fmt.Errorf\<close> without \<open>%w\<close>, errors of
  libraries), and \<open>Quoted p s q\<close> is \<open>fmt.Errorf("p%qq", s)\<close>. \<open>Wrapped p e\<close> is \<open>fmt.Errorf("p%w", e)\<close>, and
  \<open>WrappedQuoted p s q e\<close> is \<open>fmt.Errorf("p%qq%w", s, e)\<close>. \<open>Status c m\<close> is \<open>status.Error(c, m)\<close> for a code
  other than \<open>OK\<close>, and \<open>StatusErrf c e\<close> is \<open>status.Errorf(c, "%s", e)\<close>: a status whose message is the
  text of \<open>e\<close>, which \<open>errors.Is\<close> and \<open>errors.As\<close> do not look through.
\<close>

datatype gerror =
    ErrText string
  | Quoted string string string
  | ErrQuotaExhausted
  | ErrBucketNotFound
  | ErrEmptyDriverName
  | CtxErr ctx_err
  | HTTPErr ontapHTTPError
  | JobErr ontapJobError
  | Wrapped string gerror
  | WrappedQuoted string string string gerror
  | Status grpc_code string
  | StatusErrf grpc_code gerror

section \<open>errors.Is and errors.As\<close>

text \<open>\<open>ontapHTTPError.Is\<close> and \<open>ontapJobError.Is\<close>, whose only true target is \<open>ErrQuotaExhausted\<close>.\<close>

definition ontapHTTPError_Is :: "ontapHTTPError \<Rightarrow> gerror \<Rightarrow> bool" where
  "ontapHTTPError_Is e target = (target = ErrQuotaExhausted \<and> he_quotaExhausted e)"

definition ontapJobError_Is :: "ontapJobError \<Rightarrow> gerror \<Rightarrow> bool" where
  "ontapJobError_Is e target = (target = ErrQuotaExhausted \<and> je_quotaExhausted e)"

text \<open>\<open>errors.Is(err, clients.ErrQuotaExhausted)\<close>.\<close>

fun is_quota :: "gerror \<Rightarrow> bool" where
  "is_quota ErrQuotaExhausted = True"
| "is_quota (HTTPErr e) = ontapHTTPError_Is e ErrQuotaExhausted"
| "is_quota (JobErr e) = ontapJobError_Is e ErrQuotaExhausted"
| "is_quota (Wrapped _ e) = is_quota e"
| "is_quota (WrappedQuoted _ _ _ e) = is_quota e"
| "is_quota _ = False"

text \<open>\<open>errors.As(err, &apiErr)\<close> for an \<open>*ontapHTTPError\<close>.\<close>

fun as_http :: "gerror \<Rightarrow> ontapHTTPError option" where
  "as_http (HTTPErr e) = Some e"
| "as_http (Wrapped _ e) = as_http e"
| "as_http (WrappedQuoted _ _ _ e) = as_http e"
| "as_http _ = None"

definition isHTTPStatus :: "gerror \<Rightarrow> int \<Rightarrow> bool" where
  "isHTTPStatus err code = (case as_http err of None \<Rightarrow> False | Some e \<Rightarrow> he_statusCode e = code)"

lemma isHTTPStatus_simps [simp]:
  "isHTTPStatus (HTTPErr e) code \<longleftrightarrow> he_statusCode e = code"
  "isHTTPStatus (Wrapped p err) code \<longleftrightarrow> isHTTPStatus err code"
  by (simp_all add: isHTTPStatus_def)

text \<open>
  \<open>status.Code(err)\<close>, the code the RPC ends with. \<open>status.FromError\<close> looks through wrapping; an error
  with no status in its chain is \<open>Unknown\<close> (unless it is a context's error, which the gRPC server
  answers with the context's own code).
\<close>

fun status_code :: "gerror \<Rightarrow> grpc_code" where
  "status_code (Status c _) = c"
| "status_code (StatusErrf c _) = c"
| "status_code (Wrapped _ e) = status_code e"
| "status_code (WrappedQuoted _ _ _ e) = status_code e"
| "status_code _ = Unknown"

text \<open>\<open>status.Error(c, msg)\<close> returns a nil error for the code \<open>OK\<close>.\<close>

definition status_error :: "grpc_code \<Rightarrow> string \<Rightarrow> gerror option" where
  "status_error c msg = (if c = OK then None else Some (Status c msg))"

section \<open>Quota rejections\<close>

text \<open>
  \<open>isQuotaExhaustedMessage\<close>. Lower-casing is done byte by byte: the only non-ASCII runes that
  \<open>strings.ToLower\<close> maps to ASCII are U+0130 (to \<open>i\<close>) and U+212A (to \<open>k\<close>), and neither letter occurs in
  the two phrases, so the answer is that of the full Unicode mapping.
\<close>

definition isQuotaExhaustedMessage :: "string \<Rightarrow> bool" where
  "isQuotaExhaustedMessage msg =
     (let lower = map ascii_lower msg in
      contains lower ''quota exhausted'' \<or> contains lower ''quota exceeded'')"

lemma isQuotaExhaustedMessage_context:
  assumes "isQuotaExhaustedMessage msg"
  shows "isQuotaExhaustedMessage (a @ msg @ b)"
proof -
  have "contains (u @ v @ w) p" if "contains v p" for u v w p :: string
  proof -
    from that obtain x y where "v = x @ p @ y" by (auto simp: contains_iff)
    then have "u @ v @ w = (u @ x) @ p @ (y @ w)" by simp
    then show ?thesis unfolding contains_iff by blast
  qed
  with assms show ?thesis by (auto simp: isQuotaExhaustedMessage_def Let_def)
qed

section \<open>Texts\<close>

text \<open>
  The \<open>Error\<close> methods. \<open>is_print\<close> is the Unicode table of \<open>strconv.IsPrint\<close>. The text of a status error
  names its code as \<open>codes.Code.String\<close> does.
\<close>

definition ontapHTTPError_Error :: "(nat \<Rightarrow> bool) \<Rightarrow> ontapHTTPError \<Rightarrow> string" where
  "ontapHTTPError_Error is_print e =
     ''ontap API error: status='' @ format_int (he_statusCode e) @ '' message='' @ go_quote is_print (he_message e)"

definition ontapJobError_Error :: "(nat \<Rightarrow> bool) \<Rightarrow> ontapJobError \<Rightarrow> string" where
  "ontapJobError_Error is_print e =
     ''bucket '' @ je_operation e @ '' job failed: state='' @ go_quote is_print (je_jobState e) @
     '' bucket='' @ go_quote is_print (je_bucketName e) @ '' code='' @ go_quote is_print (je_errorCode e) @
     '' message='' @ go_quote is_print (je_errorMsg e)"

fun code_text :: "grpc_code \<Rightarrow> string" where
  "code_text OK = ''OK''"
| "code_text Canceled = ''Canceled''"
| "code_text Unknown = ''Unknown''"
| "code_text InvalidArgument = ''InvalidArgument''"
| "code_text DeadlineExceeded = ''DeadlineExceeded''"
| "code_text NotFound = ''NotFound''"
| "code_text AlreadyExists = ''AlreadyExists''"
| "code_text PermissionDenied = ''PermissionDenied''"
| "code_text ResourceExhausted = ''ResourceExhausted''"
| "code_text FailedPrecondition = ''FailedPrecondition''"
| "code_text Aborted = ''Aborted''"
| "code_text OutOfRange = ''OutOfRange''"
| "code_text Unimplemented = ''Unimplemented''"
| "code_text Internal = ''Internal''"
| "code_text Unavailable = ''Unavailable''"
| "code_text DataLoss = ''DataLoss''"
| "code_text Unauthenticated = ''Unauthenticated''"
| "code_text (OtherCode n) = ''Code('' @ format_int (uint n) @ '')''"

fun error_text :: "(nat \<Rightarrow> bool) \<Rightarrow> gerror \<Rightarrow> string" where
  "error_text is_print (ErrText s) = s"
| "error_text is_print (Quoted p s q) = p @ go_quote is_print s @ q"
| "error_text is_print ErrQuotaExhausted = ''bucket quota exhausted''"
| "error_text is_print ErrBucketNotFound = ''bucket not found''"
| "error_text is_print ErrEmptyDriverName = ''empty driver name''"
| "error_text is_print (CtxErr CtxCanceled) = ''context canceled''"
| "error_text is_print (CtxErr CtxDeadlineExceeded) = ''context deadline exceeded''"
| "error_text is_print (HTTPErr e) = ontapHTTPError_Error is_print e"
| "error_text is_print (JobErr e) = ontapJobError_Error is_print e"
| "error_text is_print (Wrapped p e) = p @ error_text is_print e"
| "error_text is_print (WrappedQuoted p s q e) = p @ go_quote is_print s @ q @ error_text is_print e"
| "error_text is_print (Status c m) = ''rpc error: code = '' @ code_text c @ '' desc = '' @ m"
| "error_text is_print (StatusErrf c e) = ''rpc error: code = '' @ code_text c @ '' desc = '' @ error_text is_print e"

text \<open>
  The message that the client of an RPC gets: that of the status; for a status under wrapping, and
  for an error without a status, the whole text.
\<close>

definition status_message :: "(nat \<Rightarrow> bool) \<Rightarrow> gerror \<Rightarrow> string" where
  "status_message is_print err =
     (case err of
        Status c m \<Rightarrow> m
      | StatusErrf c e \<Rightarrow> error_text is_print e
      | e \<Rightarrow> error_text is_print e)"

end
