(* ===== verification/Http.thy ===== *)
theory Http
  imports Errors
begin

text \<open>
  The ONTAP client's state and its one way to the network, \<open>doJSON\<close> (\<open>pkg/clients/s3/s3.go\<close>).

  What is outside the repository is an environment \<open>'o env\<close>: the HTTP exchange with an ONTAP system
  (any server, any network failure, any duration), the random choice of \<open>select\<close>, the Unicode case
  table, the CA file and certificate pool, and the Kubernetes API. The world holds the clock, in
  milliseconds, and the environment's own state.
\<close>

section \<open>Client state\<close>

record S3Credentials =
  AccessKeyID :: string
  AccessSecretKey :: string

record TLSConfig =
  tls_SSL :: bool
  tls_CACertPath :: string
  tls_SkipVerify :: bool

text \<open>
  An \<open>http.Client\<close>: no TLS configuration, or one with its minimal version, \<open>InsecureSkipVerify\<close> and
  the extra root.
\<close>

definition VersionTLS12 :: int where
  "VersionTLS12 = 0x0303"

record tls_transport =
  tt_MinVersion :: int
  tt_InsecureSkipVerify :: bool
  tt_RootCA :: "string option"

type_synonym http_client = "tls_transport option"

record client =
  c_httpClient :: http_client
  c_baseURL :: url
  c_s3Endpoint :: string
  c_s3UseSSL :: bool
  c_admin :: S3Credentials
  c_svmUUID :: string
  c_region :: string

section \<open>The world outside\<close>

record request =
  rq_method :: string
  rq_url :: url
  rq_headers :: "(string \<times> string) list"
  rq_auth :: "string \<times> string"
  rq_body :: "string option"

text \<open>
  The errors of the HTTP library: a text, or the error of the context. None of them is one of the
  driver's own error types.
\<close>

datatype net_err = NetText string | NetCtx ctx_err

fun net_error :: "net_err \<Rightarrow> gerror" where
  "net_error (NetText msg) = ErrText msg"
| "net_error (NetCtx why) = CtxErr why"

datatype reply =
    NoRequest net_err   \<comment> \<open>\<open>http.NewRequestWithContext\<close> refuses the request\<close>
  | NoReply net_err     \<comment> \<open>\<open>httpClient.Do\<close> fails\<close>
  | BadBody int net_err \<comment> \<open>the body cannot be read\<close>
  | Reply int string    \<comment> \<open>status code and body\<close>

record 'o env =
  env_send :: "http_client \<Rightarrow> request \<Rightarrow> 'o \<Rightarrow> reply \<times> nat \<times> 'o"
  env_choose :: "'o \<Rightarrow> nat \<times> 'o"
  env_lower :: "string \<Rightarrow> string"
  env_read_file :: "string \<Rightarrow> gerror + string"
  env_system_pool :: "gerror option"
  env_pem_ok :: "string \<Rightarrow> bool"
  env_secret :: "string \<Rightarrow> string \<Rightarrow> 'o \<Rightarrow> (gerror + params) \<times> nat \<times> 'o"

record 'o world =
  now :: nat
  node :: 'o

text \<open>A context is the time and the reason of its end, if it ends.\<close>

type_synonym ctx = "(nat \<times> ctx_err) option"

text \<open>
  One HTTP exchange under a context: nothing is sent once the context is done, and an exchange that
  would last until then fails at that moment, although the server may have acted on the request.
\<close>

definition http_do ::
  "'o env \<Rightarrow> http_client \<Rightarrow> ctx \<Rightarrow> request \<Rightarrow> 'o world \<Rightarrow> reply \<times> 'o world" where
  "http_do env hc cx rq w =
     (case cx of
        None \<Rightarrow>
          (case env_send env hc rq (node w) of
             (r, d, s) \<Rightarrow> (r, w\<lparr>now := now w + d, node := s\<rparr>))
      | Some (t, why) \<Rightarrow>
          if t \<le> now w then (NoReply (NetCtx why), w)
          else
            (case env_send env hc rq (node w) of
               (r, d, s) \<Rightarrow>
                 if t \<le> now w + d then (NoReply (NetCtx why), w\<lparr>now := t, node := s\<rparr>)
                 else (r, w\<lparr>now := now w + d, node := s\<rparr>)))"

section \<open>Requests\<close>

definition request_url :: "client \<Rightarrow> string \<Rightarrow> params \<Rightarrow> url" where
  "request_url c endpointPath query =
     (let u = (c_baseURL c)\<lparr>u_Path := endpointPath\<rparr>;
          q = fold (\<lambda>(k, v) q. values_set q k v) query (parse_query (u_RawQuery u))
      in u\<lparr>u_RawQuery := values_encode q\<rparr>)"

definition build_request ::
  "client \<Rightarrow> string \<Rightarrow> string \<Rightarrow> params \<Rightarrow> json option \<Rightarrow> request" where
  "build_request c method endpointPath query requestBody =
     \<lparr>rq_method = method,
      rq_url = request_url c endpointPath query,
      rq_headers = (''Accept'', ''application/json'') #
        (if requestBody \<noteq> None then [(''Content-Type'', ''application/json'')] else []),
      rq_auth = (AccessKeyID (c_admin c), AccessSecretKey (c_admin c)),
      rq_body = map_option marshal requestBody\<rparr>"

section \<open>Replies\<close>

text \<open>\<open>ontapErrorResponse\<close>, reduced to the message the driver reads.\<close>

definition dec_error_message :: "string decoder" where
  "dec_error_message =
     dec_struct [(''error'', dec_struct [(''message'', dec_string), (''code'', \<lambda>j m. (fst (dec_string j []), m))])]"

text \<open>\<open>ontapRecordsResponse[T]\<close>: only the records are read.\<close>

definition dec_records :: "'r decoder \<Rightarrow> 'r \<Rightarrow> 'r list decoder" where
  "dec_records d zero = dec_struct
     [(''num_records'', \<lambda>j rs. (fst (dec_int64 j 0), rs)),
      (''records'', dec_slice d zero)]"

definition unmarshal :: "'r decoder \<Rightarrow> string \<Rightarrow> 'r \<Rightarrow> bool \<times> 'r" where
  "unmarshal dec raw old =
     (case json_parse raw of None \<Rightarrow> (False, old) | Some j \<Rightarrow> dec j old)"

definition api_error :: "int \<Rightarrow> string \<Rightarrow> ontapHTTPError" where
  "api_error code raw =
     (let msg1 = trim_space (if raw \<noteq> [] then snd (unmarshal dec_error_message raw []) else []);
          msg = (if msg1 = [] then trim_space raw else msg1)
      in \<lparr>he_statusCode = code, he_message = msg, he_quotaExhausted = isQuotaExhaustedMessage msg\<rparr>)"

text \<open>
  \<open>doJSON\<close>. The response target is a decoder and its present content; \<open>None\<close> is a nil target. The
  request bodies of the driver (maps of strings, lists and integers) always marshal.
\<close>

definition read_reply ::
  "'r decoder option \<Rightarrow> 'r \<Rightarrow> reply \<Rightarrow> ('r, gerror) outcome" where
  "read_reply dec old reply =
     (case reply of
        NoRequest e \<Rightarrow> Err (Wrapped ''failed to build request: '' (net_error e))
      | NoReply e \<Rightarrow> Err (Wrapped ''request failed: '' (net_error e))
      | BadBody _ e \<Rightarrow> Err (Wrapped ''failed to read response body: '' (net_error e))
      | Reply code raw \<Rightarrow>
          if code < 200 \<or> 300 \<le> code then Err (HTTPErr (api_error code raw))
          else (case dec of
             None \<Rightarrow> Ok old
           | Some d \<Rightarrow>
               if raw = [] then Ok old
               else (case unmarshal d raw old of
                  (True, r) \<Rightarrow> Ok r
                | (False, _) \<Rightarrow> Err (Wrapped ''failed to decode response body: '' (ErrText ''json'')))))"

definition doJSON ::
  "'o env \<Rightarrow> client \<Rightarrow> ctx \<Rightarrow> string \<Rightarrow> string \<Rightarrow> params \<Rightarrow> json option \<Rightarrow>
   'r decoder option \<Rightarrow> 'r \<Rightarrow> ('r, gerror, 'o world) io" where
  "doJSON env c cx method endpointPath query requestBody dec old w =
     (case http_do env (c_httpClient c) cx
             (build_request c method endpointPath query requestBody) w of
        (reply, w') \<Rightarrow> (read_reply dec old reply, w'))"

lemma read_reply_no_panic [simp]: "no_panic (read_reply dec old r)"
  by (simp add: read_reply_def split: reply.split option.split prod.split bool.split)

lemma doJSON_no_panic [simp]: "no_panic (fst (doJSON env c cx m p q b dec old w))"
  by (simp add: doJSON_def split: prod.split)

lemma doJSON_not_Panic [simp]: "doJSON env c cx m p q b dec old w \<noteq> (Panic s, w')"
  using doJSON_no_panic [of env c cx m p q b dec old w] by fastforce

lemma doJSON_Ok_before_done:
  "doJSON env c (Some (t, why)) m p q b dec old w = (Ok r, w') \<Longrightarrow> now w' < t"
  by (auto simp: doJSON_def http_do_def read_reply_def split: prod.splits if_splits)

lemma doJSON_now_mono: "doJSON env c cx m p q b dec old w = (r, w') \<Longrightarrow> now w \<le> now w'"
  by (auto simp: doJSON_def http_do_def split: prod.splits if_splits option.splits)

end
