(* ===== verification/Paths.thy ===== *)
theory Paths
  imports Http
begin

text \<open>
  The REST paths of the ONTAP client: \<open>servicesPath\<close>, \<open>bucketsPath\<close> and \<open>jobsPath\<close> of
  \<open>pkg/clients/s3/s3.go\<close>. For ordinary names the paths are plain concatenations and distinct names
  have distinct paths; empty and dot names, which \<open>path.Join\<close> removes, address something else.
\<close>

definition path_parts :: "string list \<Rightarrow> string list" where
  "path_parts parts = map (\<lambda>p. path_escape (trim_space p)) parts"

definition servicesPath :: "client \<Rightarrow> string list \<Rightarrow> string" where
  "servicesPath c parts =
     CHR ''/'' # path_join (path_parts ([''api'', ''protocols'', ''s3'', ''services'', c_svmUUID c] @ parts))"

definition bucketsPath :: "client \<Rightarrow> string list \<Rightarrow> string" where
  "bucketsPath c parts =
     CHR ''/'' # path_join (path_parts ([''api'', ''protocols'', ''s3'', ''buckets'', c_svmUUID c] @ parts))"

definition jobsPath :: "string \<Rightarrow> string" where
  "jobsPath jobUUID =
     CHR ''/'' # path_join [''api'', ''cluster'', ''jobs'', path_escape (trim_space jobUUID)]"

text \<open>A name that is a path segment of its own once trimmed.\<close>

definition plain_name :: "string \<Rightarrow> bool" where
  "plain_name s = plain_segment (trim_space s)"

lemma path_parts_simps [simp]:
  "path_parts [] = []"
  "path_parts (p # ps) = path_escape (trim_space p) # path_parts ps"
  "path_parts (ps @ qs) = path_parts ps @ path_parts qs"
  by (simp_all add: path_parts_def)

lemma path_parts_plain: "list_all plain_segment (path_parts ps) \<longleftrightarrow> list_all plain_name ps"
  by (induction ps) (simp_all add: plain_name_def)

lemma path_parts_no_slash: "\<forall>y \<in> set (path_parts ps). CHR ''/'' \<notin> set y"
  by (auto simp: path_parts_def path_escape_no_slash)

lemma path_parts_inj:
  assumes "path_parts ps = path_parts qs"
  shows "map trim_space ps = map trim_space qs"
proof -
  have "map path_escape (map trim_space ps) = map path_escape (map trim_space qs)"
    using assms by (simp add: path_parts_def comp_def)
  moreover have "inj path_escape" by (rule injI) (rule path_escape_inj)
  ultimately show ?thesis by (simp only: inj_map_eq_map)
qed

lemma trim_escape_literals [simp]:
  "path_escape (trim_space ''api'') = ''api''"
  "path_escape (trim_space ''protocols'') = ''protocols''"
  "path_escape (trim_space ''s3'') = ''s3''"
  "path_escape (trim_space ''services'') = ''services''"
  "path_escape (trim_space ''buckets'') = ''buckets''"
  "path_escape (trim_space ''users'') = ''users''"
  "path_escape (trim_space ''groups'') = ''groups''"
  "path_escape (trim_space ''policies'') = ''policies''"
  by code_simp+

lemma plain_literals [simp]:
  "plain_name ''api''" "plain_name ''protocols''" "plain_name ''s3''" "plain_name ''services''"
  "plain_name ''buckets''" "plain_name ''users''" "plain_name ''groups''" "plain_name ''policies''"
  by code_simp+

lemma servicesPath_plain:
  assumes "list_all plain_name (c_svmUUID c # parts)"
  shows "servicesPath c parts =
    ''/api/protocols/s3/services/'' @ join ''/'' (path_parts (c_svmUUID c # parts))"
proof -
  let ?ps = "[''api'', ''protocols'', ''s3'', ''services'', c_svmUUID c] @ parts"
  have "path_join (path_parts ?ps) = join ''/'' (path_parts ?ps)"
  proof (rule path_join_plain)
    show "list_all plain_segment (path_parts ?ps)"
      using assms by (simp only: path_parts_plain) simp
  qed (simp, rule path_parts_no_slash)
  then show ?thesis by (simp add: servicesPath_def)
qed

lemma servicesPath_clean:
  "servicesPath c parts = CHR ''/'' #
     (let out = rev (foldl (clean_step False)
                  (rev [''api'', ''protocols'', ''s3'', ''services'']) (path_parts (c_svmUUID c # parts)))
      in if out = [] then ''.'' else join ''/'' out)"
proof -
  let ?tl = "[''protocols'', ''s3'', ''services''] @ path_parts (c_svmUUID c # parts)"
  have "path_join (''api'' # ?tl) =
      (let out = rev (foldl (clean_step False) [] (''api'' # ?tl))
       in if out = [] then ''.'' else join ''/'' out)"
    by (rule path_join_segments) (use path_parts_no_slash [of "c_svmUUID c # parts"] in simp_all)
  then show ?thesis by (simp add: servicesPath_def clean_step_def)
qed

lemma servicesPath_drop_empty:
  assumes "trim_space p = []"
  shows "servicesPath c (ps @ [p]) = servicesPath c ps"
  using assms by (simp add: servicesPath_clean clean_step_def)

lemma servicesPath_dotdot:
  assumes "plain_name k" "trim_space p = ''..''"
  shows "servicesPath c (ps @ [k, p]) = servicesPath c ps"
  using assms by (simp add: servicesPath_clean clean_step_def plain_name_def plain_segment_def
      path_escape_dots path_escape_eq_dot path_escape_eq_dotdot)

text \<open>
  The path on the wire is escaped again by \<open>URL.String\<close>, so what the server decodes is
  \<open>endpointPath\<close> itself: its segments are the escaped names.
\<close>

lemma request_url_Path [simp]: "u_Path (request_url c p q) = p"
  by (simp add: request_url_def Let_def)

lemma servicesPath_segments:
  assumes "list_all plain_name (c_svmUUID c # parts)"
  shows "split_on CHR ''/'' (servicesPath c parts) =
    [[], ''api'', ''protocols'', ''s3'', ''services''] @ path_parts (c_svmUUID c # parts)"
proof -
  let ?xs = "[[], ''api'', ''protocols'', ''s3'', ''services''] @ path_parts (c_svmUUID c # parts)"
  have "servicesPath c parts = join ''/'' ?xs"
    using servicesPath_plain [OF assms] by simp
  moreover have "split_on CHR ''/'' (join ''/'' ?xs) = ?xs"
    by (rule split_on_join) (use path_parts_no_slash [of "c_svmUUID c # parts"] in simp_all)
  ultimately show ?thesis by simp
qed

section \<open>Properties of the paths\<close>

text \<open>
  C27: Requests for plain names address the same path only if the names are the same up to
  surrounding space: a name with a slash cannot reach another resource.
\<close>

theorem servicesPath_injective:
  assumes "list_all plain_name (c_svmUUID c # ps)" "list_all plain_name (c_svmUUID c # qs)"
  shows "servicesPath c ps = servicesPath c qs \<longleftrightarrow> map trim_space ps = map trim_space qs"
proof
  assume "servicesPath c ps = servicesPath c qs"
  then have eq: "join ''/'' (path_parts (c_svmUUID c # ps)) = join ''/'' (path_parts (c_svmUUID c # qs))"
    by (simp only: servicesPath_plain [OF assms(1)] servicesPath_plain [OF assms(2)] same_append_eq)
  have "path_parts (c_svmUUID c # ps) = path_parts (c_svmUUID c # qs)"
    by (rule join_inj [OF _ _ path_parts_no_slash path_parts_no_slash eq]) simp_all
  then show "map trim_space ps = map trim_space qs"
    by (auto dest: path_parts_inj)
next
  assume eq: "map trim_space ps = map trim_space qs"
  then have "map path_escape (map trim_space ps) = map path_escape (map trim_space qs)"
    by (simp only:)
  then have "path_parts ps = path_parts qs" by (simp add: path_parts_def comp_def)
  then show "servicesPath c ps = servicesPath c qs" by (simp add: servicesPath_def)
qed

definition path_client :: client where
  "path_client =
     \<lparr>c_httpClient = None, c_baseURL = empty_url\<lparr>u_Scheme := ''https'', u_Host := ''ontap.example''\<rparr>,
      c_s3Endpoint = [], c_s3UseSSL = True, c_admin = \<lparr>AccessKeyID = [], AccessSecretKey = []\<rparr>,
      c_svmUUID = ''svm-1'', c_region = []\<rparr>"

lemma servicesPath_injective_witness:
  "servicesPath path_client [''users'', ''a/b''] \<noteq> servicesPath path_client [''users'', ''a'', ''b'']"
proof -
  have "list_all plain_name (c_svmUUID path_client # [''users'', ''a/b''])"
    "list_all plain_name (c_svmUUID path_client # [''users'', ''a'', ''b''])"
    by code_simp+
  from servicesPath_injective [OF this] show ?thesis by simp
qed

text \<open>
  C33: The last path segment that a server decodes from a request is the escaped name, which is
  the name itself only if no character of it needs escaping: other names reach the server
  escaped twice.
\<close>

theorem name_on_the_wire:
  assumes "plain_name (c_svmUUID c)" "plain_name kind" "plain_name name"
  shows "\<exists>decoded. unescape EncPath (escaped_path (request_url c (servicesPath c [kind, name]) q)) = Some decoded \<and>
    last (split_on CHR ''/'' decoded) = path_escape (trim_space name) \<and>
    (path_escape (trim_space name) = trim_space name \<longleftrightarrow>
       list_all (\<lambda>ch. \<not> should_escape EncPathSegment ch) (trim_space name))"
proof -
  have "list_all plain_name (c_svmUUID c # [kind, name])" using assms by simp
  from servicesPath_segments [OF this]
  have "last (split_on CHR ''/'' (servicesPath c [kind, name])) = path_escape (trim_space name)" by simp
  moreover have "path_escape (trim_space name) = trim_space name \<longleftrightarrow>
       list_all (\<lambda>ch. \<not> should_escape EncPathSegment ch) (trim_space name)"
    by (rule escape_eq_iff) simp
  ultimately show ?thesis by (simp add: unescape_escaped_path)
qed

lemma name_on_the_wire_witness:
  "\<exists>decoded. unescape EncPath (escaped_path (request_url path_client (servicesPath path_client [''users'', ''a b'']) [])) =
      Some decoded \<and> last (split_on CHR ''/'' decoded) = ''a%20b''"
proof -
  have "plain_name (c_svmUUID path_client)" "plain_name ''users''" "plain_name ''a b''"
    by code_simp+
  moreover have "path_escape (trim_space ''a b'') = ''a%20b''" by code_simp
  ultimately show ?thesis using name_on_the_wire [of path_client "''users''" "''a b''" "[]"] by auto
qed

end
