(* ===== verification/Transcript.thy ===== *)
theory Transcript
  imports Http
begin

text \<open>
  Transcripts: the same environment with a record of every request that reached the network and the
  reply to it. \<open>talks m ml P\<close> says that \<open>ml\<close>, the operation in the recording environment, behaves as
  \<open>m\<close> does and that its exchanges satisfy \<open>P\<close> together with its result. The rules below follow the
  structure of the operations.
\<close>

type_synonym exchange = "request \<times> reply"

definition recording :: "'o env \<Rightarrow> ('o \<times> exchange list) env" where
  "recording env =
     \<lparr>env_send = (\<lambda>hc rq (s, es). case env_send env hc rq s of
        (r, d, s') \<Rightarrow> (r, d, (s', es @ [(rq, r)]))),
      env_choose = (\<lambda>(s, es). case env_choose env s of (k, s') \<Rightarrow> (k, (s', es))),
      env_lower = env_lower env,
      env_read_file = env_read_file env,
      env_system_pool = env_system_pool env,
      env_pem_ok = env_pem_ok env,
      env_secret = (\<lambda>ns name (s, es). case env_secret env ns name s of (r, d, s') \<Rightarrow> (r, d, (s', es)))\<rparr>"

definition recorded :: "'o world \<Rightarrow> exchange list \<Rightarrow> ('o \<times> exchange list) world" where
  "recorded w es = \<lparr>now = now w, node = (node w, es)\<rparr>"

definition talks ::
  "('a, 'e, 'o world) io \<Rightarrow> ('a, 'e, ('o \<times> exchange list) world) io \<Rightarrow>
   (('a, 'e) outcome \<Rightarrow> exchange list \<Rightarrow> bool) \<Rightarrow> bool" where
  "talks m ml P \<longleftrightarrow>
     (\<forall>w log. \<exists>es. P (fst (m w)) es \<and> ml (recorded w log) = (fst (m w), recorded (snd (m w)) (log @ es)))"

lemma recorded_simps [simp]:
  "now (recorded w es) = now w" "node (recorded w es) = (node w, es)"
  "(recorded w es)\<lparr>now := t\<rparr> = recorded (w\<lparr>now := t\<rparr>) es"
  "(recorded w es)\<lparr>node := (s, es')\<rparr> = recorded (w\<lparr>node := s\<rparr>) es'"
  by (simp_all add: recorded_def)

lemma recording_simps [simp]:
  "env_send (recording env) hc rq (s, es) =
     (case env_send env hc rq s of (r, d, s') \<Rightarrow> (r, d, (s', es @ [(rq, r)])))"
  "env_choose (recording env) (s, es) = (case env_choose env s of (k, s') \<Rightarrow> (k, (s', es)))"
  "env_lower (recording env) = env_lower env"
  by (simp_all add: recording_def)

lemma talksI:
  "(\<And>w log. \<exists>es. P (fst (m w)) es \<and> ml (recorded w log) = (fst (m w), recorded (snd (m w)) (log @ es)))
   \<Longrightarrow> talks m ml P"
  by (simp add: talks_def)

lemma talksE:
  assumes "talks m ml P" "m w = (r, w')"
  obtains es where "P r es" "ml (recorded w log) = (r, recorded w' (log @ es))"
  using assms unfolding talks_def by (metis fst_conv snd_conv)

lemma talks_mono: "talks m ml P \<Longrightarrow> (\<And>r es. P r es \<Longrightarrow> Q r es) \<Longrightarrow> talks m ml Q"
  unfolding talks_def by blast

lemma talks_ok: "talks (io_ok x) (io_ok x) (\<lambda>r es. r = Ok x \<and> es = [])"
  by (auto simp: talks_def io_ok_def)

lemma talks_err: "talks (io_err e) (io_err e) (\<lambda>r es. r = Err e \<and> es = [])"
  by (auto simp: talks_def io_err_def)

lemma talks_panic: "talks (io_panic p) (io_panic p) (\<lambda>r es. r = Panic p \<and> es = [])"
  by (auto simp: talks_def io_panic_def)

text \<open>Sequencing: the first part's exchanges, then the chosen continuation's.\<close>

definition seq_spec ::
  "(('a, 'e) outcome \<Rightarrow> exchange list \<Rightarrow> bool) \<Rightarrow>
   ('e \<Rightarrow> ('b, 'e) outcome \<Rightarrow> exchange list \<Rightarrow> bool) \<Rightarrow>
   ('a \<Rightarrow> ('b, 'e) outcome \<Rightarrow> exchange list \<Rightarrow> bool) \<Rightarrow>
   ('b, 'e) outcome \<Rightarrow> exchange list \<Rightarrow> bool" where
  "seq_spec P H Q r es \<longleftrightarrow>
     (\<exists>x es1 es2. es = es1 @ es2 \<and> P (Ok x) es1 \<and> Q x r es2) \<or>
     (\<exists>e es1 es2. es = es1 @ es2 \<and> P (Err e) es1 \<and> H e r es2) \<or>
     (\<exists>p. r = Panic p \<and> P (Panic p) es)"

lemma talks_handle:
  assumes m: "talks m ml P" and h: "\<And>e. talks (h e) (hl e) (H e)" and f: "\<And>x. talks (f x) (fl x) (Q x)"
  shows "talks (io_handle m h f) (io_handle ml hl fl) (seq_spec P H Q)"
proof (rule talksI)
  fix w log
  obtain r w1 where mw: "m w = (r, w1)" by fastforce
  obtain es1 where es1: "P r es1" "ml (recorded w log) = (r, recorded w1 (log @ es1))"
    using talksE [OF m mw] by metis
  show "\<exists>es. seq_spec P H Q (fst (io_handle m h f w)) es \<and>
      io_handle ml hl fl (recorded w log) =
        (fst (io_handle m h f w), recorded (snd (io_handle m h f w)) (log @ es))"
  proof (cases r)
    case (Ok x)
    obtain r2 w2 where fx: "f x w1 = (r2, w2)" by fastforce
    obtain es2 where es2: "Q x r2 es2" "fl x (recorded w1 (log @ es1)) = (r2, recorded w2 ((log @ es1) @ es2))"
      using talksE [OF f fx] by metis
    from Ok mw fx es1 es2 show ?thesis
      by (intro exI [of _ "es1 @ es2"]) (auto simp: io_handle_def seq_spec_def)
  next
    case (Err e)
    obtain r2 w2 where he: "h e w1 = (r2, w2)" by fastforce
    obtain es2 where es2: "H e r2 es2" "hl e (recorded w1 (log @ es1)) = (r2, recorded w2 ((log @ es1) @ es2))"
      using talksE [OF h he] by metis
    from Err mw he es1 es2 show ?thesis
      by (intro exI [of _ "es1 @ es2"]) (auto simp: io_handle_def seq_spec_def)
  next
    case (Panic p)
    with mw es1 show ?thesis
      by (intro exI [of _ es1]) (auto simp: io_handle_def seq_spec_def)
  qed
qed

lemma io_bind_as_handle: "io_bind m f = io_handle m io_err f"
  by (rule ext) (simp add: io_bind_def io_handle_def io_err_def split: prod.split outcome.split)

lemma talks_bind:
  assumes "talks m ml P" "\<And>x. talks (f x) (fl x) (Q x)"
  shows "talks (io_bind m f) (io_bind ml fl) (seq_spec P (\<lambda>e r es. r = Err e \<and> es = []) Q)"
  unfolding io_bind_as_handle by (rule talks_handle [OF assms(1) talks_err assms(2)])

text \<open>One call of \<open>doJSON\<close>: at most one exchange, and the result is what its reply says unless the
  context ended meanwhile.\<close>

definition call_spec ::
  "request \<Rightarrow> 'r decoder option \<Rightarrow> 'r \<Rightarrow> ('r, gerror) outcome \<Rightarrow> exchange list \<Rightarrow> bool" where
  "call_spec rq dec old r es \<longleftrightarrow>
     (\<exists>reply. es = [(rq, reply)] \<and> r = read_reply dec old reply) \<or>
     (\<exists>why. r = Err (Wrapped ''request failed: '' (CtxErr why)) \<and> (es = [] \<or> (\<exists>reply. es = [(rq, reply)])))"

lemma talks_doJSON:
  fixes env :: "'o env"
  shows "talks (doJSON env c cx m p q b dec old) (doJSON (recording env) c cx m p q b dec old)
     (call_spec (build_request c m p q b) dec old)"
proof (rule talksI)
  fix w :: "'o world" and log
  obtain rep d s where send: "env_send env (c_httpClient c) (build_request c m p q b) (node w) = (rep, d, s)"
    by (cases "env_send env (c_httpClient c) (build_request c m p q b) (node w)")
  let ?goal = "\<lambda>es. call_spec (build_request c m p q b) dec old (fst (doJSON env c cx m p q b dec old w)) es \<and>
       doJSON (recording env) c cx m p q b dec old (recorded w log) =
       (fst (doJSON env c cx m p q b dec old w),
        recorded (snd (doJSON env c cx m p q b dec old w)) (log @ es))"
  consider (none) "cx = None" | (past) t why where "cx = Some (t, why)" "t \<le> now w"
    | (live) t why where "cx = Some (t, why)" "now w < t"
    by (metis not_le_imp_less option.exhaust prod.exhaust)
  then show "\<exists>es. ?goal es"
  proof cases
    case none
    with send have "?goal [(build_request c m p q b, rep)]"
      by (simp add: doJSON_def http_do_def call_spec_def)
    then show ?thesis by blast
  next
    case past
    then have "?goal []"
      by (simp add: doJSON_def http_do_def call_spec_def read_reply_def)
    then show ?thesis by blast
  next
    case live
    with send have "?goal [(build_request c m p q b, rep)]"
      by (simp add: doJSON_def http_do_def call_spec_def read_reply_def)
    then show ?thesis by blast
  qed
qed

lemma seq_specE:
  assumes "seq_spec P H Q r es"
  obtains (Ok) x es1 es2 where "es = es1 @ es2" "P (Ok x) es1" "Q x r es2"
    | (Err) e es1 es2 where "es = es1 @ es2" "P (Err e) es1" "H e r es2"
    | (Panic) p where "r = Panic p" "P (Panic p) es"
  using assms unfolding seq_spec_def by blast

lemma call_spec_Ok: "call_spec rq dec old (Ok x) es \<Longrightarrow>
    \<exists>rep. es = [(rq, rep)] \<and> read_reply dec old rep = Ok x"
  unfolding call_spec_def by (metis outcome.distinct(1))

lemma call_spec_not_Panic: "call_spec rq dec old (Panic p) es \<Longrightarrow> False"
  unfolding call_spec_def by (metis outcome.distinct(3,5) no_panic_simps(3) read_reply_no_panic)

lemma call_spec_length: "call_spec rq dec old r es \<Longrightarrow> es = [] \<or> (\<exists>rep. es = [(rq, rep)])"
  unfolding call_spec_def by blast

lemma talks_no_panic:
  "talks m ml P \<Longrightarrow> (\<And>w. no_panic (fst (m w))) \<Longrightarrow> talks m ml (\<lambda>r es. no_panic r \<and> P r es)"
  unfolding talks_def by blast

section \<open>Statements about successful runs\<close>

definition accepted :: "reply \<Rightarrow> bool" where
  "accepted rep = (case rep of Reply code raw \<Rightarrow> 200 \<le> code \<and> code < 300 | _ \<Rightarrow> False)"

definition answered :: "int \<Rightarrow> reply \<Rightarrow> bool" where
  "answered n rep = (case rep of Reply code raw \<Rightarrow> code = n | _ \<Rightarrow> False)"

lemma read_reply_unit: "read_reply None old rep = Ok x \<longleftrightarrow> accepted rep \<and> x = old"
  by (auto simp: read_reply_def accepted_def split: reply.split)

lemma isHTTPStatus_other [simp]:
  "\<not> isHTTPStatus (ErrText m) n" "\<not> isHTTPStatus (CtxErr e) n" "\<not> isHTTPStatus (net_error ne) n"
  by (simp_all add: isHTTPStatus_def) (cases ne; simp)

lemma read_reply_status:
  assumes "read_reply dec old rep = Err e" "isHTTPStatus e n"
  shows "answered n rep"
  using assms
  by (auto simp: read_reply_def answered_def api_error_def Let_def
      split: reply.splits if_splits option.splits prod.splits bool.splits)

lemma call_spec_status:
  "call_spec rq dec old (Err e) es \<Longrightarrow> isHTTPStatus e n \<Longrightarrow> \<exists>rep. es = [(rq, rep)] \<and> answered n rep"
  unfolding call_spec_def by (auto dest: read_reply_status [OF sym])

text \<open>A statement about the successful runs only.\<close>

definition on_ok :: "('a \<Rightarrow> exchange list \<Rightarrow> bool) \<Rightarrow> ('a, 'e) outcome \<Rightarrow> exchange list \<Rightarrow> bool" where
  "on_ok Q r es = (case r of Ok x \<Rightarrow> Q x es | _ \<Rightarrow> True)"

lemma on_ok_simps [simp]: "on_ok Q (Ok x) es = Q x es" "on_ok Q (Err e) es" "on_ok Q (Panic p) es"
  by (simp_all add: on_ok_def)

definition followed_by ::
  "('a \<Rightarrow> exchange list \<Rightarrow> bool) \<Rightarrow> ('a \<Rightarrow> 'b \<Rightarrow> exchange list \<Rightarrow> bool) \<Rightarrow> 'b \<Rightarrow> exchange list \<Rightarrow> bool" where
  "followed_by P Q y es = (\<exists>x es1 es2. es = es1 @ es2 \<and> P x es1 \<and> Q x y es2)"

lemma talks_bind_ok:
  assumes "talks m ml (on_ok P)" "\<And>x. talks (f x) (fl x) (on_ok (Q x))"
  shows "talks (io_bind m f) (io_bind ml fl) (on_ok (followed_by P Q))"
proof (rule talks_mono [OF talks_bind [OF assms]])
  fix r es
  assume "seq_spec (on_ok P) (\<lambda>e r es. r = Err e \<and> es = []) (\<lambda>x. on_ok (Q x)) r es"
  then show "on_ok (followed_by P Q) r es"
    by (cases rule: seq_specE; cases r) (auto simp: followed_by_def)
qed

lemma talks_return: "talks (io_ok x) (io_ok x) (on_ok (\<lambda>y es. y = x \<and> es = []))"
  by (rule talks_mono [OF talks_ok]) simp

lemma talks_fail: "talks (io_err e) (io_err e) (on_ok Q)"
  by (rule talks_mono [OF talks_err]) simp

lemma talks_call: "talks (doJSON env c cx m p q b dec old) (doJSON (recording env) c cx m p q b dec old)
    (on_ok (\<lambda>x es. \<exists>rep. es = [(build_request c m p q b, rep)] \<and> read_reply dec old rep = Ok x))"
proof (rule talks_mono [OF talks_doJSON])
  fix r es
  assume "call_spec (build_request c m p q b) dec old r es"
  then show "on_ok (\<lambda>x es. \<exists>rep. es = [(build_request c m p q b, rep)] \<and> read_reply dec old rep = Ok x) r es"
    by (cases r) (auto dest: call_spec_Ok)
qed

text \<open>A call with a second way after the status \<open>n\<close>: the first request is answered with it.\<close>

lemma talks_call_or:
  assumes f: "\<And>x. talks (f x) (fl x) (on_ok (Q x))"
    and h: "talks h hl (on_ok H)"
  shows "talks
     (io_handle (doJSON env c cx m p q b dec old) (\<lambda>err. if \<not> isHTTPStatus err n then io_err err else h) f)
     (io_handle (doJSON (recording env) c cx m p q b dec old)
        (\<lambda>err. if \<not> isHTTPStatus err n then io_err err else hl) fl)
     (on_ok (\<lambda>y es. \<exists>rep es2. es = (build_request c m p q b, rep) # es2 \<and>
        ((\<exists>x. read_reply dec old rep = Ok x \<and> Q x y es2) \<or> answered n rep \<and> H y es2)))"
proof (rule talks_mono [OF talks_handle [OF talks_doJSON _ f]])
  show "talks (if \<not> isHTTPStatus err n then io_err err else h) (if \<not> isHTTPStatus err n then io_err err else hl)
     (\<lambda>r es. if isHTTPStatus err n then on_ok H r es else r = Err err \<and> es = [])" for err
    using h by (simp add: talks_err)
next
  fix r es
  assume "seq_spec (call_spec (build_request c m p q b) dec old)
     (\<lambda>err r es. if isHTTPStatus err n then on_ok H r es else r = Err err \<and> es = []) (\<lambda>x. on_ok (Q x)) r es"
  then show "on_ok (\<lambda>y es. \<exists>rep es2. es = (build_request c m p q b, rep) # es2 \<and>
        ((\<exists>x. read_reply dec old rep = Ok x \<and> Q x y es2) \<or> answered n rep \<and> H y es2)) r es"
  proof (cases rule: seq_specE)
    case (Ok x es1 es2)
    from call_spec_Ok [OF Ok(2)] Ok show ?thesis by (cases r) auto
  next
    case (Err e es1 es2)
    show ?thesis
    proof (cases "isHTTPStatus e n")
      case True
      from call_spec_status [OF Err(2) True] Err True show ?thesis by (cases r) auto
    next
      case False
      with Err show ?thesis by simp
    qed
  qed simp
qed

lemma read_refusal:
  "read_reply dec old (Reply 409 raw) = Err (HTTPErr (api_error 409 raw))"
  "read_reply dec old (Reply 404 raw) = Err (HTTPErr (api_error 404 raw))"
  "isHTTPStatus (HTTPErr (api_error n raw)) m \<longleftrightarrow> n = m"
  "he_statusCode (api_error n raw) = n"
  by (simp_all add: read_reply_def api_error_def Let_def)

lemma read_accepted: "read_reply None old (Reply 201 raw) = Ok old" "read_reply None old (Reply 200 raw) = Ok old"
  by (simp_all add: read_reply_def)

end
