(* ===== verification/Scripted.thy ===== *)
theory Scripted
  imports Transcript
begin

text \<open>
  A concrete environment to evaluate the operations in: an ONTAP system that answers from a script,
  each reply with its delay in milliseconds, and fails to answer when the script is over. The
  witnesses run the program's definitions in it.
\<close>

type_synonym script = "(reply \<times> nat) list"

definition scripted :: "script env" where
  "scripted =
     \<lparr>env_send = (\<lambda>_ _ sc. case sc of
        [] \<Rightarrow> (NoReply (NetText ''connection refused''), 0, [])
      | (r, d) # rest \<Rightarrow> (r, d, rest)),
      env_choose = (\<lambda>sc. (0, sc)),
      env_lower = (\<lambda>s. s),
      env_read_file = (\<lambda>_. Inl (ErrText ''no such file'')),
      env_system_pool = None,
      env_pem_ok = (\<lambda>_. True),
      env_secret = (\<lambda>ns name sc.
        (if ns = ''tenant-a'' then
           Inr [(''ONTAP_MGMT_ENDPOINT'', ''https://a.example''), (''ONTAP_MGMT_SVM_UUID'', ''svm-a''),
                (''ONTAP_MGMT_USERNAME'', ''admin-a''), (''ONTAP_MGMT_PASSWORD'', ''pw-a'')]
         else Inl (ErrText ''not found''), 5, sc))\<rparr>"

definition play :: "(int \<times> string) list \<Rightarrow> script world" where
  "play replies = \<lparr>now = 0, node = map (\<lambda>(code, body). (Reply code body, 10)) replies\<rparr>"

definition sample_client :: client where
  "sample_client =
     \<lparr>c_httpClient = None,
      c_baseURL = \<lparr>u_Scheme = ''https'', u_Opaque = [], u_User = None, u_Host = ''ontap.example'',
        u_Path = [], u_RawPath = [], u_OmitHost = False, u_ForceQuery = False, u_RawQuery = [],
        u_Fragment = [], u_RawFragment = []\<rparr>,
      c_s3Endpoint = [], c_s3UseSSL = True,
      c_admin = \<lparr>AccessKeyID = ''admin'', AccessSecretKey = ''secret''\<rparr>,
      c_svmUUID = ''svm-1'', c_region = ''us-east-1''\<rparr>"

text \<open>JSON texts for the scripts.\<close>

definition dq :: "string \<Rightarrow> string" where
  "dq s = CHR 0x22 # s @ [CHR 0x22]"

definition obj :: "(string \<times> string) list \<Rightarrow> string" where
  "obj members = ''{'' @ join '','' (map (\<lambda>(k, v). dq k @ '':'' @ v) members) @ ''}''"

definition arr :: "string list \<Rightarrow> string" where
  "arr vs = ''['' @ join '','' vs @ '']''"

definition job_ref :: "string \<Rightarrow> string" where
  "job_ref u = obj [(''job'', obj [(''uuid'', dq u)])]"

definition job_state :: "string \<Rightarrow> string" where
  "job_state st = obj [(''state'', dq st)]"

definition records_of :: "string list \<Rightarrow> string" where
  "records_of rs = obj [(''records'', arr rs)]"

lemma doJSON_scripted [simp]:
  "doJSON scripted c None m p q b dec old \<lparr>now = t, node = (r, d) # rest\<rparr> =
     (read_reply dec old r, \<lparr>now = t + d, node = rest\<rparr>)"
  by (simp add: doJSON_def http_do_def scripted_def)

lemma env_send_scripted [simp]: "env_send scripted hc rq ((r, d) # rest) = (r, d, rest)"
  by (simp add: scripted_def)

lemma env_scripted [simp]: "env_choose scripted sc = (0, sc)" "env_lower scripted = (\<lambda>s. s)"
  by (simp_all add: scripted_def)

lemma play_simps [simp]:
  "play rs = \<lparr>now = 0, node = map (\<lambda>(code, body). (Reply code body, 10)) rs\<rparr>"
  by (simp add: play_def)

end
