(* ===== verification/Jobs.thy ===== *)
theory Jobs
  imports Paths Scripted
begin

text \<open>
  Asynchronous ONTAP jobs: the records \<open>ontapJobRefResponse\<close> and \<open>ontapJobStatus\<close> and the poll loop
  \<open>waitForJob\<close> of \<open>pkg/clients/s3/s3.go\<close>, with its ticker, its timeout and its \<open>select\<close>.
\<close>

section \<open>Job records\<close>

definition dec_job_uuid :: "string decoder" where
  "dec_job_uuid = dec_struct [(''job'', dec_struct [(''uuid'', dec_string)])]"

record ontapJobStatus =
  js_UUID :: string
  js_Description :: string
  js_State :: string
  js_Message :: string
  js_Code :: "64 word"
  js_StartTime :: string
  js_EndTime :: string
  js_ErrorMessage :: string
  js_ErrorCode :: string

definition zero_job_status :: ontapJobStatus where
  "zero_job_status = \<lparr>js_UUID = [], js_Description = [], js_State = [], js_Message = [], js_Code = 0,
     js_StartTime = [], js_EndTime = [], js_ErrorMessage = [], js_ErrorCode = []\<rparr>"

definition dec_job_status :: "ontapJobStatus decoder" where
  "dec_job_status = dec_struct
     [(''uuid'', dec_field dec_string js_UUID js_UUID_update),
      (''description'', dec_field dec_string js_Description js_Description_update),
      (''state'', dec_field dec_string js_State js_State_update),
      (''message'', dec_field dec_string js_Message js_Message_update),
      (''code'', dec_field dec_int64 js_Code js_Code_update),
      (''start_time'', dec_field dec_string js_StartTime js_StartTime_update),
      (''end_time'', dec_field dec_string js_EndTime js_EndTime_update),
      (''error'', dec_struct
        [(''message'', dec_field dec_string js_ErrorMessage js_ErrorMessage_update),
         (''code'', dec_field dec_string js_ErrorCode js_ErrorCode_update)])]"

section \<open>Time\<close>

text \<open>\<open>defaultJobPollInterval\<close> (2 seconds) and \<open>defaultJobPollTimeout\<close> (5 minutes), in milliseconds.\<close>

definition defaultJobPollInterval :: nat where
  "defaultJobPollInterval = 2000"

definition defaultJobPollTimeout :: nat where
  "defaultJobPollTimeout = 300000"

text \<open>\<open>context.WithTimeout(ctx, defaultJobPollTimeout)\<close>: the earlier of the two ends.\<close>

definition poll_deadline :: "ctx \<Rightarrow> nat \<Rightarrow> nat \<times> ctx_err" where
  "poll_deadline cx t =
     (case cx of
        None \<Rightarrow> (t + defaultJobPollTimeout, CtxDeadlineExceeded)
      | Some (p, why) \<Rightarrow>
          if p \<le> t + defaultJobPollTimeout then (p, why)
          else (t + defaultJobPollTimeout, CtxDeadlineExceeded))"

text \<open>The index of the ticker's last tick at a time; the ticker keeps one tick for a slow receiver.\<close>

definition ticks_at :: "nat \<Rightarrow> nat \<Rightarrow> nat" where
  "ticks_at start t = (t - start) div defaultJobPollInterval"

text \<open>
  The \<open>select\<close> of the loop: it wakes at the earliest of the next tick, the poll deadline and the end of
  the caller's context, and picks at random among the cases that are ready.
\<close>

datatype select_case = PollDone | Tick | CtxDone

definition next_tick :: "nat \<Rightarrow> nat \<Rightarrow> nat \<Rightarrow> nat" where
  "next_tick start taken t =
     (if taken < ticks_at start t then t else start + (taken + 1) * defaultJobPollInterval)"

definition ready_cases :: "ctx \<Rightarrow> nat \<Rightarrow> nat \<Rightarrow> nat \<Rightarrow> select_case list" where
  "ready_cases cx deadline tick t =
     (if deadline \<le> t then [PollDone] else []) @
     (if tick \<le> t then [Tick] else []) @
     (case cx of Some (p, _) \<Rightarrow> if p \<le> t then [CtxDone] else [] | None \<Rightarrow> [])"

definition select_wait ::
  "'o env \<Rightarrow> ctx \<Rightarrow> nat \<Rightarrow> nat \<Rightarrow> nat \<Rightarrow> 'o world \<Rightarrow> select_case \<times> 'o world" where
  "select_wait env cx deadline start taken w =
     (let tick = next_tick start taken (now w);
          t = max (now w) (min tick deadline);
          rs = ready_cases cx deadline tick t
      in case env_choose env (node w) of
           (n, s) \<Rightarrow> (rs ! (n mod length rs), w\<lparr>now := t, node := s\<rparr>))"

lemma next_tick_ticks_at: "next_tick start taken t \<le> t' \<Longrightarrow> t \<le> t' \<Longrightarrow> taken < ticks_at start t'"
proof (cases "taken < ticks_at start t")
  case True
  assume "t \<le> t'"
  then have "ticks_at start t \<le> ticks_at start t'" by (simp add: ticks_at_def div_le_mono)
  with True show ?thesis by simp
next
  case False
  assume "next_tick start taken t \<le> t'"
  with False have "(taken + 1) * defaultJobPollInterval \<le> t' - start"
    by (simp add: next_tick_def)
  then show ?thesis
    by (simp add: ticks_at_def defaultJobPollInterval_def less_eq_div_iff_mult_less_eq flip: Suc_le_eq)
qed

lemma select_wait_Tick:
  assumes "select_wait env cx deadline start taken w = (Tick, w')" "now w < deadline"
  shows "taken < ticks_at start (now w')" "now w' \<le> deadline"
proof -
  define tick where "tick = next_tick start taken (now w)"
  define t where "t = max (now w) (min tick deadline)"
  define rs where "rs = ready_cases cx deadline tick t"
  have t: "now w' = t"
    using assms(1) by (auto simp: select_wait_def Let_def t_def tick_def split: prod.splits)
  have "rs \<noteq> []" using assms(2) by (auto simp: rs_def ready_cases_def t_def)
  moreover obtain n where "rs ! (n mod length rs) = Tick"
    using assms(1) by (auto simp: select_wait_def Let_def rs_def t_def tick_def split: prod.splits)
  ultimately have "Tick \<in> set rs" by (metis length_greater_0_conv mod_less_divisor nth_mem)
  then have "tick \<le> t" by (auto simp: rs_def ready_cases_def split: if_splits option.splits)
  then show "taken < ticks_at start (now w')"
    using t next_tick_ticks_at [of start taken "now w" t] by (simp add: t_def tick_def)
  show "now w' \<le> deadline" using t assms(2) by (simp add: t_def)
qed

section \<open>The poll loop\<close>

definition poll_job ::
  "'o env \<Rightarrow> client \<Rightarrow> nat \<times> ctx_err \<Rightarrow> string \<Rightarrow> (ontapJobStatus, gerror, 'o world) io" where
  "poll_job env c dl jobUUID =
     doJSON env c (Some dl) ''GET'' (jobsPath jobUUID) [] None (Some dec_job_status) zero_job_status"

function wait_loop ::
  "'o env \<Rightarrow> client \<Rightarrow> ctx \<Rightarrow> nat \<times> ctx_err \<Rightarrow> nat \<Rightarrow> nat \<Rightarrow> string \<Rightarrow> 'o world \<Rightarrow>
   (ontapJobStatus, gerror) outcome \<times> 'o world" where
  "wait_loop env c cx dl start taken jobUUID w =
     (case poll_job env c dl jobUUID w of
        (Panic p, w1) \<Rightarrow> (Panic p, w1)
      | (Err e, w1) \<Rightarrow> (Err e, w1)
      | (Ok st, w1) \<Rightarrow>
          if js_State st = ''success'' then (Ok st, w1)
          else if js_State st = ''failure'' then (Ok st, w1)
          else
            (case select_wait env cx (fst dl) start taken w1 of
               (PollDone, w2) \<Rightarrow>
                 (Err (Wrapped (''timed out waiting for job '' @ jobUUID @ '' to complete: '')
                    (CtxErr (snd dl))), w2)
             | (Tick, w2) \<Rightarrow> wait_loop env c cx dl start (ticks_at start (now w2)) jobUUID w2
             | (CtxDone, w2) \<Rightarrow>
                 (Err (Wrapped (''context cancelled while waiting for job '' @ jobUUID @ '': '')
                    (case cx of Some (_, why) \<Rightarrow> CtxErr why | None \<Rightarrow> CtxErr CtxCanceled)), w2)))"
  by pat_completeness auto

lemma poll_job_before_deadline: "poll_job env c dl u w = (Ok st, w1) \<Longrightarrow> now w1 < fst dl"
  by (cases dl) (auto simp: poll_job_def intro: doJSON_Ok_before_done)

lemma poll_tick_progress:
  assumes "poll_job env c dl u w = (Ok st, w1)" "select_wait env cx (fst dl) start taken w1 = (Tick, w2)"
  shows "taken < ticks_at start (now w2)" "ticks_at start (now w2) \<le> ticks_at start (fst dl)"
proof -
  note before = poll_job_before_deadline [OF assms(1)]
  show "taken < ticks_at start (now w2)" by (rule select_wait_Tick(1) [OF assms(2) before])
  have "now w2 \<le> fst dl" by (rule select_wait_Tick(2) [OF assms(2) before])
  then show "ticks_at start (now w2) \<le> ticks_at start (fst dl)"
    by (simp add: ticks_at_def div_le_mono)
qed

lemma poll_tick_measure:
  assumes "poll_job env c dl u w = (Ok st, w1)" "select_wait env cx (fst dl) start taken w1 = (Tick, w2)"
  shows "ticks_at start (fst dl) - ticks_at start (now w2) < ticks_at start (fst dl) - taken"
  using poll_tick_progress [OF assms] by simp

termination wait_loop
proof (relation "measure (\<lambda>(env, c, cx, dl, start, taken, u, w). ticks_at start (fst dl) - taken)", goal_cases)
  case 1
  show ?case by simp
next
  case (2 env c cx dl start taken u w res w1 st sel w2)
  then have "poll_job env c dl u w = (Ok st, w1)"
    "select_wait env cx (fst dl) start taken w1 = (Tick, w2)"
    by simp_all
  then show ?case by (simp only: in_measure prod.case poll_tick_measure)
qed

declare wait_loop.simps [simp del]

definition waitForJob ::
  "'o env \<Rightarrow> client \<Rightarrow> ctx \<Rightarrow> string \<Rightarrow> (ontapJobStatus, gerror, 'o world) io" where
  "waitForJob env c cx jobUUID w =
     wait_loop env c cx (poll_deadline cx (now w)) (now w) 0 jobUUID w"

section \<open>What the loop guarantees\<close>

lemma poll_job_no_Panic [simp]: "poll_job env c dl u w \<noteq> (Panic p, w1)"
  by (simp add: poll_job_def)

definition job_terminal :: "ontapJobStatus \<Rightarrow> bool" where
  "job_terminal st = (js_State st = ''success'' \<or> js_State st = ''failure'')"

lemma wait_loop_Err:
  "poll_job env c dl u w = (Err e, w1) \<Longrightarrow> wait_loop env c cx dl start taken u w = (Err e, w1)"
  by (subst wait_loop.simps) simp

lemma wait_loop_Done:
  "poll_job env c dl u w = (Ok st, w1) \<Longrightarrow> job_terminal st \<Longrightarrow>
   wait_loop env c cx dl start taken u w = (Ok st, w1)"
  by (subst wait_loop.simps) (auto simp: job_terminal_def)

lemma wait_loop_Stop:
  "poll_job env c dl u w = (Ok st, w1) \<Longrightarrow> \<not> job_terminal st \<Longrightarrow>
   select_wait env cx (fst dl) start taken w1 = (sel, w2) \<Longrightarrow> sel \<noteq> Tick \<Longrightarrow>
   \<exists>e. wait_loop env c cx dl start taken u w = (Err e, w2)"
  by (subst wait_loop.simps) (cases sel; auto simp: job_terminal_def)

lemma wait_loop_Tick:
  "poll_job env c dl u w = (Ok st, w1) \<Longrightarrow> \<not> job_terminal st \<Longrightarrow>
   select_wait env cx (fst dl) start taken w1 = (Tick, w2) \<Longrightarrow>
   wait_loop env c cx dl start taken u w = wait_loop env c cx dl start (ticks_at start (now w2)) u w2"
  by (subst wait_loop.simps) (auto simp: job_terminal_def)

text \<open>Induction over the rounds of the loop, one case per way a round can go.\<close>

lemma wait_loop_rounds [case_names Error Done Stop Tick]:
  assumes error: "\<And>taken w e w1. poll_job env c dl u w = (Err e, w1) \<Longrightarrow> P taken w (Err e, w1)"
    and done_: "\<And>taken w st w1. poll_job env c dl u w = (Ok st, w1) \<Longrightarrow> job_terminal st \<Longrightarrow>
      P taken w (Ok st, w1)"
    and stop: "\<And>taken w st w1 sel w2 e. poll_job env c dl u w = (Ok st, w1) \<Longrightarrow>
      \<not> job_terminal st \<Longrightarrow> select_wait env cx (fst dl) start taken w1 = (sel, w2) \<Longrightarrow> sel \<noteq> Tick \<Longrightarrow>
      wait_loop env c cx dl start taken u w = (Err e, w2) \<Longrightarrow> P taken w (Err e, w2)"
    and tick: "\<And>taken w st w1 w2. poll_job env c dl u w = (Ok st, w1) \<Longrightarrow>
      \<not> job_terminal st \<Longrightarrow> select_wait env cx (fst dl) start taken w1 = (Tick, w2) \<Longrightarrow>
      P (ticks_at start (now w2)) w2 (wait_loop env c cx dl start (ticks_at start (now w2)) u w2) \<Longrightarrow>
      P taken w (wait_loop env c cx dl start (ticks_at start (now w2)) u w2)"
  shows "P taken w (wait_loop env c cx dl start taken u w)"
proof (induction "ticks_at start (fst dl) - taken" arbitrary: taken w rule: less_induct)
  case less
  obtain res w1 where poll: "poll_job env c dl u w = (res, w1)" by fastforce
  show ?case
  proof (cases res)
    case (Panic p)
    with poll show ?thesis by simp
  next
    case (Err e)
    with poll show ?thesis using error by (simp add: wait_loop_Err)
  next
    case (Ok st)
    note poll = poll [unfolded Ok]
    show ?thesis
    proof (cases "job_terminal st")
      case True
      with poll show ?thesis using done_ by (simp add: wait_loop_Done)
    next
      case False
      obtain sel w2 where sel: "select_wait env cx (fst dl) start taken w1 = (sel, w2)" by fastforce
      show ?thesis
      proof (cases "sel = Tick")
        case True
        note sel = sel [unfolded True]
        from less [OF poll_tick_measure [OF poll sel]] show ?thesis
          unfolding wait_loop_Tick [OF poll False sel] by (rule tick [OF poll False sel])
      next
        case not_tick: False
        then obtain e where "wait_loop env c cx dl start taken u w = (Err e, w2)"
          using wait_loop_Stop [OF poll False sel] by blast
        with stop [OF poll False sel not_tick] show ?thesis by simp
      qed
    qed
  qed
qed

lemma wait_loop_terminal:
  "wait_loop env c cx dl start taken u w = (Ok st, w') \<Longrightarrow> job_terminal st"
proof -
  have "\<forall>st w'. wait_loop env c cx dl start taken u w = (Ok st, w') \<longrightarrow> job_terminal st"
    by (rule wait_loop_rounds [where P = "\<lambda>_ _ r. \<forall>st w'. r = (Ok st, w') \<longrightarrow> job_terminal st"]) simp_all
  then show "wait_loop env c cx dl start taken u w = (Ok st, w') \<Longrightarrow> job_terminal st" by blast
qed

lemma wait_loop_no_panic: "no_panic (fst (wait_loop env c cx dl start taken u w))"
  by (rule wait_loop_rounds [where P = "\<lambda>_ _ r. no_panic (fst r)"]) simp_all

lemma select_wait_now:
  assumes "select_wait env cx deadline start taken w = (sel, w')" "now w < deadline"
  shows "now w' \<le> deadline"
  using assms by (auto simp: select_wait_def Let_def split: prod.splits)

lemma poll_job_now:
  assumes "poll_job env c dl u w = (r, w1)"
  shows "now w1 \<le> max (now w) (fst dl)"
  using assms by (cases dl) (auto simp: poll_job_def doJSON_def http_do_def split: prod.splits if_splits)

lemma wait_loop_deadline: "now (snd (wait_loop env c cx dl start taken u w)) \<le> max (now w) (fst dl)"
proof (rule wait_loop_rounds [where P = "\<lambda>_ w r. now (snd r) \<le> max (now w) (fst dl)"], goal_cases)
  case (1 taken w e w1)
  then show ?case by (simp add: poll_job_now)
next
  case (2 taken w st w1)
  then show ?case by (simp add: poll_job_now)
next
  case (3 taken w st w1 sel w2 e)
  then show ?case
    using poll_job_before_deadline [OF 3(1)] select_wait_now [OF 3(3)] by simp
next
  case (4 taken w st w1 w2)
  then show ?case
    using poll_job_before_deadline [OF 4(1)] select_wait_now [OF 4(3)] by simp
qed

section \<open>The exchanges of the loop\<close>

text \<open>
  The transcript of a wait: polls of the same job, each but the last answered by a job that is not
  finished; if the wait succeeds, the last reply is the status it returns.
\<close>

definition poll_request :: "client \<Rightarrow> string \<Rightarrow> request" where
  "poll_request c u = build_request c ''GET'' (jobsPath u) [] None"

abbreviation status_reply :: "reply \<Rightarrow> (ontapJobStatus, gerror) outcome" where
  "status_reply \<equiv> read_reply (Some dec_job_status) zero_job_status"

definition pending_reply :: "reply \<Rightarrow> bool" where
  "pending_reply rep = (\<exists>st. status_reply rep = Ok st \<and> \<not> job_terminal st)"

definition wait_spec ::
  "client \<Rightarrow> string \<Rightarrow> nat \<Rightarrow> (ontapJobStatus, gerror) outcome \<Rightarrow> exchange list \<Rightarrow> bool" where
  "wait_spec c u bound r es \<longleftrightarrow>
     length es \<le> bound \<and>
     (\<forall>(rq, rep) \<in> set es. rq = poll_request c u) \<and>
     (\<forall>(rq, rep) \<in> set (butlast es). pending_reply rep) \<and>
     (\<forall>st. r = Ok st \<longrightarrow> job_terminal st \<and> es \<noteq> [] \<and> status_reply (snd (last es)) = Ok st)"

lemma talks_poll_job:
  "talks (poll_job env c dl u) (poll_job (recording env) c dl u)
     (call_spec (poll_request c u) (Some dec_job_status) zero_job_status)"
  unfolding poll_job_def poll_request_def by (rule talks_doJSON)

lemma recording_select_wait:
  "select_wait env cx deadline start taken w = (sel, w') \<Longrightarrow>
   select_wait (recording env) cx deadline start taken (recorded w log) = (sel, recorded w' log)"
  by (auto simp: select_wait_def Let_def split: prod.splits)

lemma wait_spec_Err:
  "call_spec (poll_request c u) (Some dec_job_status) zero_job_status (Err e) es \<Longrightarrow> 0 < bound \<Longrightarrow>
   wait_spec c u bound (Err e) es"
  by (auto simp: wait_spec_def call_spec_def)

lemma wait_spec_Ok:
  "call_spec (poll_request c u) (Some dec_job_status) zero_job_status (Ok st) es \<Longrightarrow> job_terminal st \<Longrightarrow>
   0 < bound \<Longrightarrow> wait_spec c u bound (Ok st) es"
  by (auto simp: wait_spec_def call_spec_def)

lemma wait_spec_stop:
  "call_spec (poll_request c u) (Some dec_job_status) zero_job_status (Ok st) es \<Longrightarrow> 0 < bound \<Longrightarrow>
   wait_spec c u bound (Err e) es"
  by (auto simp: wait_spec_def call_spec_def)

lemma wait_spec_tick:
  assumes poll: "call_spec (poll_request c u) (Some dec_job_status) zero_job_status (Ok st) es1"
    and "\<not> job_terminal st" and rest: "wait_spec c u b2 r es2" and "b2 < bound"
  shows "wait_spec c u bound r (es1 @ es2)"
proof -
  from poll obtain reply where es1: "es1 = [(poll_request c u, reply)]" "status_reply reply = Ok st"
    by (auto simp: call_spec_def)
  with assms(2) have "pending_reply reply" by (auto simp: pending_reply_def)
  with es1 rest assms(4) show ?thesis
    by (cases "es2 = []") (auto simp: wait_spec_def)
qed

definition wait_talk ::
  "'o env \<Rightarrow> client \<Rightarrow> ctx \<Rightarrow> nat \<times> ctx_err \<Rightarrow> nat \<Rightarrow> string \<Rightarrow> nat \<Rightarrow> 'o world \<Rightarrow>
   (ontapJobStatus, gerror) outcome \<times> 'o world \<Rightarrow> bool" where
  "wait_talk env c cx dl start u taken w res \<longleftrightarrow>
     (\<forall>log. \<exists>es. wait_spec c u (1 + (ticks_at start (fst dl) - taken)) (fst res) es \<and>
        wait_loop (recording env) c cx dl start taken u (recorded w log) =
          (fst res, recorded (snd res) (log @ es)))"

lemma wait_loop_talks: "wait_talk env c cx dl start u taken w (wait_loop env c cx dl start taken u w)"
proof (rule wait_loop_rounds [where P = "wait_talk env c cx dl start u"], goal_cases)
  case (1 taken w e w1)
  show ?case unfolding wait_talk_def
  proof
    fix log
    obtain es where es: "call_spec (poll_request c u) (Some dec_job_status) zero_job_status (Err e) es"
      "poll_job (recording env) c dl u (recorded w log) = (Err e, recorded w1 (log @ es))"
      using talksE [OF talks_poll_job 1] by metis
    from wait_spec_Err [OF es(1)] wait_loop_Err [OF es(2)]
    show "\<exists>es. wait_spec c u (1 + (ticks_at start (fst dl) - taken)) (fst (Err e, w1)) es \<and>
        wait_loop (recording env) c cx dl start taken u (recorded w log) =
          (fst (Err e, w1), recorded (snd (Err e, w1)) (log @ es))"
      by (intro exI [of _ es]) simp
  qed
next
  case (2 taken w st w1)
  show ?case unfolding wait_talk_def
  proof
    fix log
    obtain es where es: "call_spec (poll_request c u) (Some dec_job_status) zero_job_status (Ok st) es"
      "poll_job (recording env) c dl u (recorded w log) = (Ok st, recorded w1 (log @ es))"
      using talksE [OF talks_poll_job 2(1)] by metis
    from wait_spec_Ok [OF es(1) 2(2)] wait_loop_Done [OF es(2) 2(2)]
    show "\<exists>es. wait_spec c u (1 + (ticks_at start (fst dl) - taken)) (fst (Ok st, w1)) es \<and>
        wait_loop (recording env) c cx dl start taken u (recorded w log) =
          (fst (Ok st, w1), recorded (snd (Ok st, w1)) (log @ es))"
      by (intro exI [of _ es]) simp
  qed
next
  case (3 taken w st w1 sel w2 e)
  show ?case unfolding wait_talk_def
  proof
    fix log
    obtain es where es: "call_spec (poll_request c u) (Some dec_job_status) zero_job_status (Ok st) es"
      "poll_job (recording env) c dl u (recorded w log) = (Ok st, recorded w1 (log @ es))"
      using talksE [OF talks_poll_job 3(1)] by metis
    have "wait_loop (recording env) c cx dl start taken u (recorded w log) = (Err e, recorded w2 (log @ es))"
      using 3 es(2) recording_select_wait [OF 3(3), of "log @ es"]
      by (auto simp: wait_loop.simps [of env] wait_loop.simps [of "recording env"] job_terminal_def
          split: select_case.splits)
    with wait_spec_stop [OF es(1)]
    show "\<exists>es. wait_spec c u (1 + (ticks_at start (fst dl) - taken)) (fst (Err e, w2)) es \<and>
        wait_loop (recording env) c cx dl start taken u (recorded w log) =
          (fst (Err e, w2), recorded (snd (Err e, w2)) (log @ es))"
      by (intro exI [of _ es]) simp
  qed
next
  case (4 taken w st w1 w2)
  let ?res = "wait_loop env c cx dl start (ticks_at start (now w2)) u w2"
  show ?case unfolding wait_talk_def
  proof
    fix log
    obtain es where es: "call_spec (poll_request c u) (Some dec_job_status) zero_job_status (Ok st) es"
      "poll_job (recording env) c dl u (recorded w log) = (Ok st, recorded w1 (log @ es))"
      using talksE [OF talks_poll_job 4(1)] by metis
    obtain es2 where es2: "wait_spec c u (1 + (ticks_at start (fst dl) - ticks_at start (now w2))) (fst ?res) es2"
      "wait_loop (recording env) c cx dl start (ticks_at start (now w2)) u (recorded w2 (log @ es)) =
       (fst ?res, recorded (snd ?res) ((log @ es) @ es2))"
      using 4(4) unfolding wait_talk_def by metis
    have "wait_loop (recording env) c cx dl start taken u (recorded w log) =
        (fst ?res, recorded (snd ?res) (log @ es @ es2))"
      using wait_loop_Tick [OF es(2) 4(2) recording_select_wait [OF 4(3)]] es2(2) by simp
    moreover have "wait_spec c u (1 + (ticks_at start (fst dl) - taken)) (fst ?res) (es @ es2)"
      using poll_tick_measure [OF 4(1,3)] by (intro wait_spec_tick [OF es(1) 4(2) es2(1)]) simp
    ultimately show "\<exists>es. wait_spec c u (1 + (ticks_at start (fst dl) - taken)) (fst ?res) es \<and>
        wait_loop (recording env) c cx dl start taken u (recorded w log) =
          (fst ?res, recorded (snd ?res) (log @ es))"
      by blast
  qed
qed

lemma poll_deadline_ticks: "ticks_at t (fst (poll_deadline cx t)) \<le> 150"
proof -
  have "fst (poll_deadline cx t) - t \<le> 300000"
    by (auto simp: poll_deadline_def defaultJobPollTimeout_def split: option.splits prod.splits)
  then have "ticks_at t (fst (poll_deadline cx t)) \<le> 300000 div 2000"
    unfolding ticks_at_def defaultJobPollInterval_def by (rule div_le_mono)
  then show ?thesis by simp
qed

section \<open>A job that ends in time is reported\<close>

text \<open>
  Rounds with prompt replies: the \<open>n\<close>-th poll is sent \<open>n\<close> intervals after the start, and only the
  tick is ready when it has been answered.
\<close>

lemma poll_job_prompt:
  assumes "env_send env (c_httpClient c) (poll_request c u) (node w) = (rep, d, s)"
    "read_reply (Some dec_job_status) zero_job_status rep = Ok st" "now w + d < fst dl"
  shows "poll_job env c dl u w = (Ok st, w\<lparr>now := now w + d, node := s\<rparr>)"
  using assms by (cases dl) (simp add: poll_job_def doJSON_def http_do_def poll_request_def)

text \<open>The caller's context is still alive at the time \<open>t\<close>.\<close>

definition alive_at :: "ctx \<Rightarrow> nat \<Rightarrow> bool" where
  "alive_at cx t = (case cx of None \<Rightarrow> True | Some (p, _) \<Rightarrow> t < p)"

lemma alive_at_mono: "alive_at cx t \<Longrightarrow> t' \<le> t \<Longrightarrow> alive_at cx t'"
  by (auto simp: alive_at_def split: option.splits)

lemma select_wait_prompt:
  assumes "now w = start + taken * defaultJobPollInterval + d" "d < defaultJobPollInterval"
    "start + (taken + 1) * defaultJobPollInterval < deadline" "alive_at cx (start + (taken + 1) * defaultJobPollInterval)"
  shows "select_wait env cx deadline start taken w =
    (Tick, w\<lparr>now := start + (taken + 1) * defaultJobPollInterval, node := snd (env_choose env (node w))\<rparr>)"
proof -
  have "ticks_at start (now w) = taken"
    using assms(1,2) by (simp add: ticks_at_def defaultJobPollInterval_def)
  then have "next_tick start taken (now w) = start + (taken + 1) * defaultJobPollInterval"
    by (simp add: next_tick_def)
  with assms show ?thesis
    by (cases cx) (auto simp: select_wait_def ready_cases_def alive_at_def max_def min_def split: prod.split)
qed

lemma talks_waitForJob:
  fixes env :: "'o env"
  shows "talks (waitForJob env c cx u) (waitForJob (recording env) c cx u) (wait_spec c u 151)"
proof (rule talksI)
  fix w :: "'o world" and log
  let ?dl = "poll_deadline cx (now w)"
  obtain es where es: "wait_spec c u (1 + (ticks_at (now w) (fst ?dl) - 0)) (fst (waitForJob env c cx u w)) es"
    "wait_loop (recording env) c cx ?dl (now w) 0 u (recorded w log) =
      (fst (waitForJob env c cx u w), recorded (snd (waitForJob env c cx u w)) (log @ es))"
    using wait_loop_talks [of env c cx ?dl "now w" u 0 w] unfolding wait_talk_def waitForJob_def by blast
  moreover have "1 + (ticks_at (now w) (fst ?dl) - 0) \<le> 151"
    using poll_deadline_ticks [of "now w" cx] by simp
  then have "wait_spec c u 151 (fst (waitForJob env c cx u w)) es"
    using es(1) by (auto simp: wait_spec_def)
  moreover have "waitForJob (recording env) c cx u (recorded w log) =
      wait_loop (recording env) c cx ?dl (now w) 0 u (recorded w log)"
    by (simp add: waitForJob_def)
  ultimately show "\<exists>es. wait_spec c u 151 (fst (waitForJob env c cx u w)) es \<and>
      waitForJob (recording env) c cx u (recorded w log) =
        (fst (waitForJob env c cx u w), recorded (snd (waitForJob env c cx u w)) (log @ es))"
    by (intro exI [of _ es]) simp
qed

lemma waitForJob_no_panic: "no_panic (fst (waitForJob env c cx u w))"
  by (simp add: waitForJob_def wait_loop_no_panic)

text \<open>A job that is finished when it is first asked for.\<close>

lemma waitForJob_at_once:
  assumes "env_send env (c_httpClient c) (poll_request c u) (node w) = (rep, d, s)"
    "status_reply rep = Ok st" "job_terminal st" "d < 300000"
  shows "waitForJob env c None u w = (Ok st, w\<lparr>now := now w + d, node := s\<rparr>)"
proof -
  have "now w + d < fst (poll_deadline None (now w))"
    using assms(4) by (simp add: poll_deadline_def defaultJobPollTimeout_def)
  then show ?thesis
    unfolding waitForJob_def by (rule wait_loop_Done [OF poll_job_prompt [OF assms(1,2)] assms(3)])
qed

text \<open>Replies of the scripts.\<close>

lemma script_job_replies:
  "read_reply (Some dec_job_uuid) [] (Reply 202 (job_ref ''j1'')) = Ok ''j1''"
  "status_reply (Reply 200 (job_state ''success'')) = Ok (zero_job_status\<lparr>js_State := ''success''\<rparr>)"
  "status_reply (Reply 200 (job_state ''running'')) = Ok (zero_job_status\<lparr>js_State := ''running''\<rparr>)"
  "status_reply (Reply 200 (job_state ''failure'')) = Ok (zero_job_status\<lparr>js_State := ''failure''\<rparr>)"
  by code_simp+

lemma waitForJob_script_success:
  "waitForJob scripted c None u \<lparr>now = t, node = (Reply 200 (job_state ''success''), 10) # rest\<rparr> =
     (Ok (zero_job_status\<lparr>js_State := ''success''\<rparr>), \<lparr>now = t + 10, node = rest\<rparr>)"
  by (rule trans [OF waitForJob_at_once]) (auto simp: script_job_replies job_terminal_def)

section \<open>Properties of waiting\<close>

text \<open>
  C4: A status that waitForJob returns is terminal and is the content of the last reply; every
  request was a poll of the job, every earlier reply was a pending status, and there were at
  most 151 polls.
\<close>

theorem waitForJob_transcript:
  assumes "waitForJob env c cx u w = (Ok st, w')"
  shows "job_terminal st \<and>
    (\<exists>es. waitForJob (recording env) c cx u (recorded w []) = (Ok st, recorded w' es) \<and>
       es \<noteq> [] \<and> length es \<le> 151 \<and>
       (\<forall>(rq, rep) \<in> set es. rq = poll_request c u) \<and>
       (\<forall>(rq, rep) \<in> set (butlast es). pending_reply rep) \<and>
       status_reply (snd (last es)) = Ok st)"
proof -
  obtain es where "wait_spec c u 151 (Ok st) es"
    "waitForJob (recording env) c cx u (recorded w []) = (Ok st, recorded w' es)"
    using talksE [OF talks_waitForJob assms, of "[]"] by auto
  then show ?thesis unfolding wait_spec_def by auto
qed

lemma waitForJob_transcript_witness:
  "job_terminal (zero_job_status\<lparr>js_State := ''success''\<rparr>) \<and>
   (\<exists>es. waitForJob (recording scripted) sample_client None ''j1''
      (recorded \<lparr>now = 0, node = [(Reply 200 (job_state ''success''), 10)]\<rparr> []) =
      (Ok (zero_job_status\<lparr>js_State := ''success''\<rparr>), recorded \<lparr>now = 10, node = []\<rparr> es) \<and> es \<noteq> [])"
  using waitForJob_transcript [OF waitForJob_script_success [of sample_client "''j1''" 0 "[]"]] by auto

text \<open>
  C6: waitForJob always returns, without a panic and at most 300 seconds after it was called,
  even if the server never answers or the job never ends.
\<close>

theorem waitForJob_bound:
  "no_panic (fst (waitForJob env c cx u w)) \<and> now (snd (waitForJob env c cx u w)) \<le> now w + 300000"
proof -
  have "fst (poll_deadline cx (now w)) \<le> now w + 300000"
    by (auto simp: poll_deadline_def defaultJobPollTimeout_def split: option.splits prod.splits)
  moreover have "now (snd (waitForJob env c cx u w)) \<le> max (now w) (fst (poll_deadline cx (now w)))"
    by (simp add: waitForJob_def wait_loop_deadline)
  ultimately show ?thesis using waitForJob_no_panic [of env c cx u w] by simp
qed

lemma ticks_at_tick: "ticks_at start (start + n * defaultJobPollInterval) = n"
  by (simp add: ticks_at_def defaultJobPollInterval_def)

lemma wait_loop_prompt:
  assumes send: "\<And>n. n \<le> N \<Longrightarrow> env_send env (c_httpClient c) (poll_request c u) (os n) = (rep n, d n, os' n)"
    and next_state: "\<And>n. n < N \<Longrightarrow> snd (env_choose env (os' n)) = os (Suc n)"
    and answers: "\<And>n. n \<le> N \<Longrightarrow> status_reply (rep n) = Ok (st n)"
    and pending: "\<And>n. n < N \<Longrightarrow> \<not> job_terminal (st n)" and fin: "job_terminal (st N)"
    and prompt: "\<And>n. n \<le> N \<Longrightarrow> d n < defaultJobPollInterval"
    and time: "start + N * defaultJobPollInterval + d N < fst dl" and alive: "alive_at cx (start + N * defaultJobPollInterval)"
    and n: "n \<le> N"
  shows "wait_loop env c cx dl start n u \<lparr>now = start + n * defaultJobPollInterval, node = os n\<rparr> =
    (Ok (st N), \<lparr>now = start + N * defaultJobPollInterval + d N, node = os' N\<rparr>)"
  using n
proof (induction n rule: inc_induct)
  case base
  have "poll_job env c dl u \<lparr>now = start + N * defaultJobPollInterval, node = os N\<rparr> =
    (Ok (st N), \<lparr>now = start + N * defaultJobPollInterval + d N, node = os' N\<rparr>)"
    using poll_job_prompt [of env c u "\<lparr>now = start + N * defaultJobPollInterval, node = os N\<rparr>",
        OF _ answers [of N], of "d N" "os' N" dl]
      send [of N] time by simp
  then show ?case by (rule wait_loop_Done [OF _ fin])
next
  case (step n)
  let ?w = "\<lparr>now = start + n * defaultJobPollInterval, node = os n\<rparr>"
  let ?w1 = "\<lparr>now = start + n * defaultJobPollInterval + d n, node = os' n\<rparr>"
  let ?w2 = "\<lparr>now = start + Suc n * defaultJobPollInterval, node = os (Suc n)\<rparr>"
  have "(n + 1) * defaultJobPollInterval \<le> N * defaultJobPollInterval"
    using step(2) by (intro mult_right_mono) auto
  with time have room: "start + (n + 1) * defaultJobPollInterval < fst dl"
    and alive: "alive_at cx (start + (n + 1) * defaultJobPollInterval)"
    by (auto intro: alive_at_mono [OF alive])
  have dn: "d n < defaultJobPollInterval" using prompt [of n] step(2) by simp
  have poll: "poll_job env c dl u ?w = (Ok (st n), ?w1)"
    using poll_job_prompt [of env c u ?w, OF _ answers [of n], of "d n" "os' n" dl]
      send [of n] dn room step(2) by simp
  have tick: "select_wait env cx (fst dl) start n ?w1 = (Tick, ?w2)"
    using select_wait_prompt [of ?w1 start n "d n" "fst dl" cx env] dn room alive
      next_state [of n] step(2) by (simp add: defaultJobPollInterval_def)
  have "wait_loop env c cx dl start n u ?w = wait_loop env c cx dl start (ticks_at start (now ?w2)) u ?w2"
    by (rule wait_loop_Tick [OF poll pending tick]) (use step(2) in simp)
  also have "ticks_at start (now ?w2) = Suc n" by (simp add: ticks_at_tick del: mult_Suc)
  finally show ?case using step(3) by simp
qed

lemma waitForJob_prompt:
  assumes "\<forall>n \<le> N. env_send env (c_httpClient c) (poll_request c u) (os n) = (rep n, d n, os' n) \<and>
       status_reply (rep n) = Ok (st n) \<and> d n < 2000"
    and "\<forall>n < N. snd (env_choose env (os' n)) = os (Suc n) \<and> \<not> job_terminal (st n)"
    and "job_terminal (st N)" "N \<le> 149" "node w = os 0" "alive_at cx (now w + N * 2000 + d N)"
  shows "waitForJob env c cx u w = (Ok (st N), \<lparr>now = now w + N * 2000 + d N, node = os' N\<rparr>)"
proof -
  have w: "w = \<lparr>now = now w + 0 * defaultJobPollInterval, node = os 0\<rparr>" using assms(5) by simp
  have dN: "d N < 2000" using assms(1) by blast
  have "N * 2000 \<le> 149 * 2000" using assms(4) by (rule mult_right_mono) simp
  with dN assms(6) have time: "now w + N * defaultJobPollInterval + d N < fst (poll_deadline cx (now w))"
    by (auto simp: poll_deadline_def alive_at_def defaultJobPollInterval_def defaultJobPollTimeout_def split: option.splits)
  have "alive_at cx (now w + N * defaultJobPollInterval)"
    by (rule alive_at_mono [OF assms(6)]) (simp add: defaultJobPollInterval_def)
  note alive = this
  have "wait_loop env c cx (poll_deadline cx (now w)) (now w) 0 u \<lparr>now = now w + 0 * defaultJobPollInterval, node = os 0\<rparr> =
    (Ok (st N), \<lparr>now = now w + N * defaultJobPollInterval + d N, node = os' N\<rparr>)"
    by (rule wait_loop_prompt [where st = st and d = d and os' = os' and N = N and rep = rep])
      (use assms time alive in \<open>auto simp: defaultJobPollInterval_def\<close>)
  then show ?thesis
    unfolding waitForJob_def using w by (simp add: defaultJobPollInterval_def)
qed

text \<open>
  C5: If every poll is answered within the poll interval, the job is terminal at the N-th poll,
  N at most 149, and the caller's context, if it can end, is still alive when that reply
  arrives, then waitForJob returns that status, N intervals after its start plus the time of the
  last reply.
\<close>

theorem waitForJob_reports:
  assumes "\<forall>n \<le> N. env_send env (c_httpClient c) (poll_request c u) (os n) = (rep n, d n, os' n) \<and>
       status_reply (rep n) = Ok (st n) \<and> d n < 2000"
    and "\<forall>n < N. snd (env_choose env (os' n)) = os (Suc n) \<and> \<not> job_terminal (st n)"
    and "job_terminal (st N)" "N \<le> 149" "node w = os 0"
    and "case cx of None \<Rightarrow> True | Some (p, _) \<Rightarrow> now w + N * 2000 + d N < p"
  shows "waitForJob env c cx u w = (Ok (st N), \<lparr>now = now w + N * 2000 + d N, node = os' N\<rparr>)"
  by (rule waitForJob_prompt [OF assms(1-5) assms(6) [folded alive_at_def]])

definition two_polls :: script where
  "two_polls = [(Reply 200 (job_state ''running''), 10), (Reply 200 (job_state ''success''), 10)]"

lemma waitForJob_reports_witness:
  "waitForJob scripted sample_client (Some (3000, CtxDeadlineExceeded)) ''j1'' \<lparr>now = 0, node = two_polls\<rparr> =
     (Ok (zero_job_status\<lparr>js_State := ''success''\<rparr>), \<lparr>now = 2010, node = []\<rparr>)"
proof -
  let ?st = "\<lambda>n. zero_job_status\<lparr>js_State := if n = 0 then ''running'' else ''success''\<rparr>"
  let ?rep = "\<lambda>n. Reply 200 (job_state (if n = 0 then ''running'' else ''success''))"
  have "waitForJob scripted sample_client (Some (3000, CtxDeadlineExceeded)) ''j1'' \<lparr>now = 0, node = two_polls\<rparr> =
     (Ok (?st (1 :: nat)), \<lparr>now = now \<lparr>now = 0, node = two_polls\<rparr> + 1 * 2000 + 10, node = drop (Suc 1) two_polls\<rparr>)"
    by (rule waitForJob_reports [where os = "\<lambda>n. drop n two_polls" and os' = "\<lambda>n. drop (Suc n) two_polls"
          and rep = ?rep and d = "\<lambda>_. 10" and st = ?st])
      (auto simp: two_polls_def script_job_replies job_terminal_def le_Suc_eq)
  then show ?thesis by (simp add: two_polls_def)
qed

end
