(* ===== verification/Buckets.thy ===== *)
theory Buckets
  imports Jobs
begin

text \<open>
  The bucket operations of the ONTAP client in \<open>pkg/clients/s3/s3.go\<close>: the size parameter, lookup by
  name, comparison, asynchronous creation and deletion.
\<close>

section \<open>Records\<close>

record ontapBucketRecord =
  br_UUID :: string
  br_Name :: string
  br_Size :: "64 word"

definition zero_bucket_record :: ontapBucketRecord where
  "zero_bucket_record = \<lparr>br_UUID = [], br_Name = [], br_Size = 0\<rparr>"

definition dec_bucket_record :: "ontapBucketRecord decoder" where
  "dec_bucket_record = dec_struct
     [(''uuid'', dec_field dec_string br_UUID br_UUID_update),
      (''name'', dec_field dec_string br_Name br_Name_update),
      (''size'', dec_field dec_int64 br_Size br_Size_update)]"

section \<open>The size parameter\<close>

definition sizeKey :: string where "sizeKey = ''size''"
definition commentKey :: string where "commentKey = ''comment''"
definition objectLockingKey :: string where "objectLockingKey = ''objectLocking''"

definition gib :: "64 word" where
  "gib = 1024 * 1024 * 1024"

definition max_int64 :: int where
  "max_int64 = 2 ^ 63 - 1"

text \<open>\<open>strings.EqualFold(t, "Gi")\<close> on a two-byte suffix.\<close>

definition gi_suffix :: "string \<Rightarrow> bool" where
  "gi_suffix s = (2 \<le> length s \<and> map ascii_lower (drop (length s - 2) s) = ''gi'')"

definition invalid_size :: "string \<Rightarrow> gerror" where
  "invalid_size raw = Quoted ''invalid bucket size parameter '' raw
     '': must be a positive whole number of GiB (e.g. \"10\" or \"10Gi\")''"

definition size_too_large :: "string \<Rightarrow> gerror" where
  "size_too_large raw = Quoted ''invalid bucket size parameter '' raw '': too large''"

definition parseBucketSize :: "string \<Rightarrow> (64 word, gerror) outcome" where
  "parseBucketSize raw =
     (let s = trim_space raw;
          t = (if gi_suffix s then take (length s - 2) s else s)
      in case parse_int (trim_space t) of
           None \<Rightarrow> Err (invalid_size raw)
         | Some n \<Rightarrow>
             let sz = word_of_int n :: 64 word in
             if sint sz \<le> 0 then Err (invalid_size raw)
             else if max_int64 div sint gib < sint sz then Err (size_too_large raw)
             else Ok (sz * gib))"

section \<open>Lookup\<close>

definition listBucketsByName ::
  "'o env \<Rightarrow> client \<Rightarrow> ctx \<Rightarrow> string \<Rightarrow> (ontapBucketRecord list, gerror, 'o world) io" where
  "listBucketsByName env c cx name =
     doJSON env c cx ''GET'' (servicesPath c [''buckets''])
       [(''name'', name), (''return_records'', ''true'')] None
       (Some (dec_records dec_bucket_record zero_bucket_record)) []"

definition bucketByName ::
  "'o env \<Rightarrow> client \<Rightarrow> ctx \<Rightarrow> string \<Rightarrow> (ontapBucketRecord option, gerror, 'o world) io" where
  "bucketByName env c cx name =
     io_bind (listBucketsByName env c cx name) (\<lambda>records.
       io_ok (find (\<lambda>r. br_Name r = name) records))"

definition BucketExists ::
  "'o env \<Rightarrow> client \<Rightarrow> ctx \<Rightarrow> string \<Rightarrow> (bool, gerror, 'o world) io" where
  "BucketExists env c cx bucket =
     io_bind (listBucketsByName env c cx bucket) (\<lambda>records. io_ok (0 < length records))"

definition IsBucketEqual ::
  "'o env \<Rightarrow> client \<Rightarrow> ctx \<Rightarrow> string \<Rightarrow> params \<Rightarrow> (bool, gerror, 'o world) io" where
  "IsBucketEqual env c cx bucket ps =
     (case map_of ps sizeKey of
        None \<Rightarrow> io_ok True
      | Some rawSize \<Rightarrow>
          if trim_space rawSize = [] then io_ok True
          else (case parseBucketSize rawSize of
             Err e \<Rightarrow> io_err e
           | Panic p \<Rightarrow> io_panic p
           | Ok want \<Rightarrow>
               io_bind (bucketByName env c cx bucket) (\<lambda>rec.
                 case rec of
                   None \<Rightarrow> io_ok False
                 | Some r \<Rightarrow> io_ok (br_Size r = want))))"

section \<open>Asynchronous creation and deletion\<close>

definition createBucketAsync ::
  "'o env \<Rightarrow> client \<Rightarrow> ctx \<Rightarrow> json \<Rightarrow> (string, gerror, 'o world) io" where
  "createBucketAsync env c cx body =
     io_bind (doJSON env c cx ''POST'' (servicesPath c [''buckets'']) [] (Some body) (Some dec_job_uuid) [])
       (\<lambda>uuid. if uuid = [] then io_err (ErrText ''ONTAP did not return a job UUID for bucket creation'')
               else io_ok uuid)"

definition deleteBucketAsync ::
  "'o env \<Rightarrow> client \<Rightarrow> ctx \<Rightarrow> string \<Rightarrow> (string, gerror, 'o world) io" where
  "deleteBucketAsync env c cx bucketUUID =
     io_bind (doJSON env c cx ''DELETE'' (bucketsPath c [bucketUUID]) [] None (Some dec_job_uuid) [])
       (\<lambda>uuid. if uuid = [] then io_err (ErrText ''ONTAP did not return a job UUID for bucket deletion'')
               else io_ok uuid)"

text \<open>The error for a failed job, in \<open>CreateBucket\<close> and \<open>DeleteBucket\<close>.\<close>

definition job_failure :: "string \<Rightarrow> string \<Rightarrow> ontapJobStatus \<Rightarrow> gerror" where
  "job_failure operation bucket st =
     (let errMsg = (if js_ErrorMessage st = [] then js_Message st else js_ErrorMessage st)
      in JobErr \<lparr>je_operation = operation, je_jobState = js_State st, je_errorCode = js_ErrorCode st,
           je_errorMsg = errMsg, je_bucketName = bucket,
           je_quotaExhausted = isQuotaExhaustedMessage errMsg\<rparr>)"

definition size_required :: gerror where
  "size_required = Status InvalidArgument
     ''size parameter is required: the bucket size limit in GiB (must be a positive whole number)''"

text \<open>The body of the creation request: a Go map, so its members are written sorted by name.\<close>

definition create_body :: "string \<Rightarrow> 64 word \<Rightarrow> string \<Rightarrow> bool \<Rightarrow> json" where
  "create_body bucket sz comment objectLocking =
     json_map
       ([(''name'', JStr bucket), (''size'', JNum (format_int (sint sz)))] @
        (if comment \<noteq> [] then [(''comment'', JStr comment)] else []) @
        (if objectLocking then
           [(''retention'', json_map [(''mode'', JStr ''governance''), (''default_period'', JStr ''P1D'')])]
         else []))"

definition object_locking :: "params \<Rightarrow> bool option" where
  "object_locking ps =
     (let ol = param_get ps objectLockingKey in if ol = [] then Some False else parse_bool ol)"

definition CreateBucket ::
  "'o env \<Rightarrow> client \<Rightarrow> ctx \<Rightarrow> string \<Rightarrow> params \<Rightarrow> (unit, gerror, 'o world) io" where
  "CreateBucket env c cx bucket ps =
     (let rawSize = trim_space (param_get ps sizeKey) in
      if rawSize = [] then io_err size_required
      else (case parseBucketSize rawSize of
         Panic p \<Rightarrow> io_panic p
       | Err e \<Rightarrow> io_err (StatusErrf InvalidArgument e)
       | Ok sz \<Rightarrow>
           (case object_locking ps of
              None \<Rightarrow> io_err (Quoted ''strconv.ParseBool: parsing '' (param_get ps objectLockingKey) '': invalid syntax'')
            | Some objectLocking \<Rightarrow>
                io_handle
                  (createBucketAsync env c cx
                     (create_body bucket sz (trim_space (param_get ps commentKey)) objectLocking))
                  (\<lambda>e. io_err (Wrapped ''failed to initiate bucket creation: '' e))
                  (\<lambda>jobUUID.
                     io_handle (waitForJob env c cx jobUUID)
                       (\<lambda>e. io_err (Wrapped ''failed waiting for bucket creation job: '' e))
                       (\<lambda>st. if js_State st = ''failure'' then io_err (job_failure ''create'' bucket st)
                              else io_ok ())))))"

definition DeleteBucket ::
  "'o env \<Rightarrow> client \<Rightarrow> ctx \<Rightarrow> string \<Rightarrow> (unit, gerror, 'o world) io" where
  "DeleteBucket env c cx bucket =
     io_bind (bucketByName env c cx bucket) (\<lambda>existing.
       case existing of
         None \<Rightarrow> io_ok ()
       | Some rec \<Rightarrow>
           io_handle (deleteBucketAsync env c cx (br_UUID rec))
             (\<lambda>e. io_err (Wrapped ''failed to initiate bucket deletion: '' e))
             (\<lambda>jobUUID.
                io_handle (waitForJob env c cx jobUUID)
                  (\<lambda>e. io_err (Wrapped ''failed waiting for bucket deletion job: '' e))
                  (\<lambda>st. if js_State st = ''failure'' then io_err (job_failure ''deletion'' bucket st)
                         else io_ok ())))"

section \<open>What the size parser accepts\<close>

lemma size_bound: "max_int64 div sint gib = 8589934591"
  by code_simp

lemma sint_times_gib:
  assumes "0 \<le> n" "n \<le> 8589934591"
  shows "sint (word_of_int n * gib) = n * 1073741824"
proof -
  have "int64_range (n * 1073741824)" using assms by (simp add: int64_range_def)
  moreover have "word_of_int n * gib = word_of_int (n * 1073741824)"
    by (simp add: gib_def)
  ultimately show ?thesis by (simp only: sint_of_int64)
qed

text \<open>The text that is read as a number: trimmed, without the suffix, trimmed again.\<close>

definition size_text :: "string \<Rightarrow> string" where
  "size_text raw =
     (let s = trim_space raw in trim_space (if gi_suffix s then take (length s - 2) s else s))"

lemma parseBucketSize_cases:
  "parseBucketSize raw =
     (case parse_int (size_text raw) of
        None \<Rightarrow> Err (invalid_size raw)
      | Some n \<Rightarrow>
          if n \<le> 0 then Err (invalid_size raw)
          else if 8589934591 < n then Err (size_too_large raw)
          else Ok (word_of_int n * gib))"
  unfolding parseBucketSize_def size_text_def Let_def size_bound
  by (auto split: option.split dest!: parse_int_range simp: sint_of_int64)

lemma parseBucketSize_no_panic: "no_panic (parseBucketSize raw)"
  by (simp add: parseBucketSize_cases split: option.split)

text \<open>
  C20: parseBucketSize accepts exactly the whole numbers of GiB from 1 to 8589934591 (2^33 - 1),
  and its 64-bit product is then the size in bytes without overflow.
\<close>

theorem parseBucketSize_exact:
  "parseBucketSize raw = Ok sz \<longleftrightarrow>
     (\<exists>n. parse_int (size_text raw) = Some n \<and> 1 \<le> n \<and> n \<le> 8589934591 \<and>
          sint sz = n * 1073741824)"
proof
  assume "parseBucketSize raw = Ok sz"
  then show "\<exists>n. parse_int (size_text raw) = Some n \<and> 1 \<le> n \<and> n \<le> 8589934591 \<and>
          sint sz = n * 1073741824"
    by (auto simp: parseBucketSize_cases sint_times_gib split: option.splits if_splits)
next
  assume "\<exists>n. parse_int (size_text raw) = Some n \<and> 1 \<le> n \<and> n \<le> 8589934591 \<and>
          sint sz = n * 1073741824"
  then obtain n where n: "parse_int (size_text raw) = Some n" "1 \<le> n" "n \<le> 8589934591"
    "sint sz = sint (word_of_int n * gib)"
    by (auto simp: sint_times_gib)
  then have "sz = word_of_int n * gib" by (simp only: signed_word_eqI)
  with n show "parseBucketSize raw = Ok sz" by (simp add: parseBucketSize_cases)
qed

lemma plain_byte_Gi [simp]: "plain_byte CHR ''G''" "plain_byte CHR ''i''"
  by code_simp+

lemma digits_gi_suffix: "list_all is_digit s \<Longrightarrow> \<not> gi_suffix s"
proof
  assume s: "list_all is_digit s" and gi: "gi_suffix s"
  then obtain a b where ab: "drop (length s - 2) s = [a, b]"
    by (auto simp: gi_suffix_def map_eq_Cons_conv)
  then have "is_digit b" using s set_drop_subset [of "length s - 2" s] by (auto simp: list_all_iff)
  moreover have "ascii_lower b = CHR ''i''" using gi ab by (simp add: gi_suffix_def)
  ultimately show False by (auto simp: is_digit_def ascii_lower_def byte_def split: if_splits)
qed

lemma size_text_digits:
  assumes "list_all is_digit s" "s \<noteq> []"
  shows "size_text s = s" "size_text (s @ ''Gi'') = s"
proof -
  show "size_text s = s"
    using assms by (simp add: size_text_def trim_space_digits digits_gi_suffix)
  have "list_all plain_byte (s @ ''Gi'')"
    using assms by (auto simp: list_all_iff is_digit_plain)
  then have "trim_space (s @ ''Gi'') = s @ ''Gi''" by (rule trim_space_plain)
  moreover have "gi_suffix (s @ ''Gi'')" by (simp add: gi_suffix_def) code_simp
  ultimately show "size_text (s @ ''Gi'') = s"
    using assms by (simp add: size_text_def trim_space_digits)
qed

text \<open>
  C21: The decimal text of a positive 64-bit number, with or without the suffix Gi, is read as
  that number of GiB, or rejected as too large from 2^33 on.
\<close>

theorem parseBucketSize_roundtrip:
  assumes "1 \<le> n" "n < 2 ^ 63"
  shows "if n \<le> 8589934591
    then \<exists>sz. parseBucketSize (format_int n) = Ok sz \<and> parseBucketSize (format_int n @ ''Gi'') = Ok sz \<and>
      sint sz = n * 1073741824
    else parseBucketSize (format_int n) = Err (size_too_large (format_int n)) \<and>
      parseBucketSize (format_int n @ ''Gi'') = Err (size_too_large (format_int n @ ''Gi''))"
proof -
  have "parse_int (format_int n) = Some n"
    using assms by (simp add: parse_int_format_int int64_range_def)
  moreover have "size_text (format_int n) = format_int n" "size_text (format_int n @ ''Gi'') = format_int n"
    using assms by (simp_all add: size_text_digits format_int_nonneg)
  ultimately show ?thesis
    using assms by (simp add: parseBucketSize_cases sint_times_gib)
qed

lemma parseBucketSize_roundtrip_witness:
  "\<exists>sz. parseBucketSize ''10'' = Ok sz \<and> parseBucketSize ''10Gi'' = Ok sz \<and> sint sz = 10737418240"
proof -
  have "format_int 10 = ''10''" by code_simp
  then show ?thesis
    using parseBucketSize_roundtrip [of 10] by simp
qed

section \<open>Job operations and their exchanges\<close>

text \<open>The first half of a creation or deletion: one request, answered by the reference of a job.\<close>

definition async_spec ::
  "request \<Rightarrow> (string, gerror) outcome \<Rightarrow> exchange list \<Rightarrow> bool" where
  "async_spec rq r es \<longleftrightarrow>
     (case r of
        Ok u \<Rightarrow> u \<noteq> [] \<and> (\<exists>rep. es = [(rq, rep)] \<and> read_reply (Some dec_job_uuid) [] rep = Ok u)
      | Err e \<Rightarrow> es = [] \<or> (\<exists>rep. es = [(rq, rep)])
      | Panic p \<Rightarrow> False)"

lemma async_spec_intro:
  assumes "seq_spec (call_spec rq (Some dec_job_uuid) []) (\<lambda>e r es. r = Err e \<and> es = [])
     (\<lambda>u r es. r = (if u = [] then Err e0 else Ok u) \<and> es = []) r es"
  shows "async_spec rq r es"
  using assms
proof (cases rule: seq_specE)
  case (Ok u es1 es2)
  with call_spec_Ok [OF Ok(2)] show ?thesis by (auto simp: async_spec_def)
next
  case (Err e es1 es2)
  with call_spec_length [OF Err(2)] show ?thesis by (auto simp: async_spec_def)
next
  case (Panic p)
  from call_spec_not_Panic [OF Panic(2)] show ?thesis ..
qed

lemma talks_uuid_check:
  "talks (if u = [] then io_err e else io_ok u) (if u = [] then io_err e else io_ok u)
     (\<lambda>r es. r = (if u = [] then Err e else Ok u) \<and> es = [])"
  by (simp add: talks_ok talks_err)

lemma talks_createBucketAsync:
  "talks (createBucketAsync env c cx body) (createBucketAsync (recording env) c cx body)
     (async_spec (build_request c ''POST'' (servicesPath c [''buckets'']) [] (Some body)))"
  unfolding createBucketAsync_def
  by (rule talks_mono [OF talks_bind [OF talks_doJSON talks_uuid_check] async_spec_intro])

lemma talks_deleteBucketAsync:
  "talks (deleteBucketAsync env c cx uuid) (deleteBucketAsync (recording env) c cx uuid)
     (async_spec (build_request c ''DELETE'' (bucketsPath c [uuid]) [] None))"
  unfolding deleteBucketAsync_def
  by (rule talks_mono [OF talks_bind [OF talks_doJSON talks_uuid_check] async_spec_intro])

text \<open>The whole of it: the request, then the polls of its job, then the job's verdict.\<close>

definition run_job ::
  "'o env \<Rightarrow> client \<Rightarrow> ctx \<Rightarrow> (string, gerror, 'o world) io \<Rightarrow> string \<Rightarrow> string \<Rightarrow>
   (ontapJobStatus \<Rightarrow> gerror) \<Rightarrow> (unit, gerror, 'o world) io" where
  "run_job env c cx start m1 m2 failure =
     io_handle start
       (\<lambda>e. io_err (Wrapped m1 e))
       (\<lambda>jobUUID.
          io_handle (waitForJob env c cx jobUUID)
            (\<lambda>e. io_err (Wrapped m2 e))
            (\<lambda>st. if js_State st = ''failure'' then io_err (failure st) else io_ok ()))"

definition job_spec ::
  "client \<Rightarrow> request \<Rightarrow> string \<Rightarrow> string \<Rightarrow> (ontapJobStatus \<Rightarrow> gerror) \<Rightarrow>
   (unit, gerror) outcome \<Rightarrow> exchange list \<Rightarrow> bool" where
  "job_spec c rq m1 m2 failure r es \<longleftrightarrow>
     (\<exists>e. r = Err (Wrapped m1 e) \<and> async_spec rq (Err e) es) \<or>
     (\<exists>u es1 es2. es = es1 @ es2 \<and> async_spec rq (Ok u) es1 \<and>
        ((\<exists>e. r = Err (Wrapped m2 e) \<and> wait_spec c u 151 (Err e) es2) \<or>
         (\<exists>st. wait_spec c u 151 (Ok st) es2 \<and>
            (if js_State st = ''failure'' then r = Err (failure st)
             else js_State st = ''success'' \<and> r = Ok ()))))"

lemma talks_verdict:
  "talks (if b then io_err e else io_ok ()) (if b then io_err e else io_ok ())
     (\<lambda>r es. r = (if b then Err e else Ok ()) \<and> es = [])"
  by (simp add: talks_ok talks_err)

lemma wait_spec_terminal: "wait_spec c u n (Ok st) es \<Longrightarrow> job_terminal st"
  by (simp add: wait_spec_def)

lemma async_spec_Panic [simp]: "\<not> async_spec rq (Panic p) es"
  by (simp add: async_spec_def)

lemma job_spec_intro:
  assumes "seq_spec (async_spec rq) (\<lambda>e r es. r = Err (Wrapped m1 e) \<and> es = [])
     (\<lambda>u. seq_spec (\<lambda>r es. no_panic r \<and> wait_spec c u 151 r es) (\<lambda>e r es. r = Err (Wrapped m2 e) \<and> es = [])
        (\<lambda>st r es. r = (if js_State st = ''failure'' then Err (failure st) else Ok ()) \<and> es = [])) r es"
  shows "job_spec c rq m1 m2 failure r es"
  using assms
proof (cases rule: seq_specE)
  case (Ok u es1 es2)
  note start = Ok(1,2)
  from Ok(3) show ?thesis
  proof (cases rule: seq_specE)
    case (Ok st es3 es4)
    then have wait: "wait_spec c u 151 (Ok st) es3" and es: "es = es1 @ es3"
      and r: "r = (if js_State st = ''failure'' then Err (failure st) else Ok ())"
      using start by simp_all
    have "js_State st = ''success'' \<or> js_State st = ''failure''"
      using wait_spec_terminal [OF wait] by (simp only: job_terminal_def)
    with r have "if js_State st = ''failure'' then r = Err (failure st)
        else js_State st = ''success'' \<and> r = Ok ()"
      by (simp split: if_splits)
    with wait es start(2) show ?thesis unfolding job_spec_def by blast
  next
    case (Err e es3 es4)
    then have "wait_spec c u 151 (Err e) es3" "es = es1 @ es3" "r = Err (Wrapped m2 e)"
      using start by simp_all
    with start(2) show ?thesis unfolding job_spec_def by blast
  qed simp
next
  case (Err e es1 es2)
  then show ?thesis by (simp add: job_spec_def)
qed simp

lemma talks_run_job:
  assumes "talks start startl (async_spec rq)"
  shows "talks (run_job env c cx start m1 m2 failure) (run_job (recording env) c cx startl m1 m2 failure)
           (job_spec c rq m1 m2 failure)"
  unfolding run_job_def
  by (rule talks_mono [OF talks_handle [OF assms talks_err
        talks_handle [OF talks_no_panic [OF talks_waitForJob waitForJob_no_panic] talks_err talks_verdict]]
        job_spec_intro])

lemma run_job_no_panic:
  assumes "\<And>w. no_panic (fst (start w))"
  shows "no_panic (fst (run_job env c cx start m1 m2 failure w))"
  unfolding run_job_def
  by (intro io_handle_no_panic assms waitForJob_no_panic) (auto simp: io_err_def io_ok_def)

lemma create_job_no_panic: "no_panic (fst (createBucketAsync env c cx body w))"
  unfolding createBucketAsync_def by (rule io_bind_no_panic) (auto simp: io_err_def io_ok_def)

lemma delete_job_no_panic: "no_panic (fst (deleteBucketAsync env c cx body w))"
  unfolding deleteBucketAsync_def by (rule io_bind_no_panic) (auto simp: io_err_def io_ok_def)

section \<open>CreateBucket\<close>

lemma CreateBucket_cases:
  "CreateBucket env c cx bucket ps =
     (let rawSize = trim_space (param_get ps sizeKey) in
      if rawSize = [] then io_err size_required
      else (case parseBucketSize rawSize of
         Panic p \<Rightarrow> io_panic p
       | Err e \<Rightarrow> io_err (StatusErrf InvalidArgument e)
       | Ok sz \<Rightarrow>
           (case object_locking ps of
              None \<Rightarrow> io_err (Quoted ''strconv.ParseBool: parsing '' (param_get ps objectLockingKey) '': invalid syntax'')
            | Some lock \<Rightarrow>
                run_job env c cx
                  (createBucketAsync env c cx
                     (create_body bucket sz (trim_space (param_get ps commentKey)) lock))
                  ''failed to initiate bucket creation: '' ''failed waiting for bucket creation job: ''
                  (job_failure ''create'' bucket))))"
  unfolding CreateBucket_def run_job_def Let_def by (rule refl)

lemma parseBucketSize_Nil: "parseBucketSize [] = Err (invalid_size [])"
  by code_simp

definition create_request :: "client \<Rightarrow> string \<Rightarrow> params \<Rightarrow> 64 word \<Rightarrow> bool \<Rightarrow> request" where
  "create_request c bucket ps sz lock =
     build_request c ''POST'' (servicesPath c [''buckets'']) []
       (Some (create_body bucket sz (trim_space (param_get ps commentKey)) lock))"

lemma talks_CreateBucket:
  assumes "trim_space (param_get ps sizeKey) \<noteq> []"
    "parseBucketSize (trim_space (param_get ps sizeKey)) = Ok sz" "object_locking ps = Some lock"
  shows "talks (CreateBucket env c cx bucket ps) (CreateBucket (recording env) c cx bucket ps)
    (job_spec c (create_request c bucket ps sz lock)
       ''failed to initiate bucket creation: '' ''failed waiting for bucket creation job: ''
       (job_failure ''create'' bucket))"
  using assms by (simp add: CreateBucket_cases create_request_def Let_def talks_run_job talks_createBucketAsync)

lemma CreateBucket_no_panic: "no_panic (fst (CreateBucket env c cx bucket ps w))"
  unfolding CreateBucket_cases Let_def using parseBucketSize_no_panic [of "trim_space (param_get ps sizeKey)"]
  by (auto simp: io_err_def run_job_no_panic create_job_no_panic split: outcome.splits option.splits)


text \<open>
  A missing or unreadable size parameter makes CreateBucket fail with InvalidArgument,
  which is no quota error, before anything is sent.
\<close>

theorem CreateBucket_rejects_size:
  assumes "\<forall>sz. parseBucketSize (trim_space (param_get ps sizeKey)) \<noteq> Ok sz"
  shows "\<exists>e. CreateBucket env c cx bucket ps w = (Err e, w) \<and> status_code e = InvalidArgument \<and> \<not> is_quota e"
proof (cases "parseBucketSize (trim_space (param_get ps sizeKey))")
  case (Err e)
  then show ?thesis by (simp add: CreateBucket_cases size_required_def io_simps Let_def)
next
  case (Panic p)
  with parseBucketSize_no_panic show ?thesis by (metis no_panic_simps(3))
qed (use assms in simp)

lemma job_spec_Ok:
  assumes "job_spec c rq m1 m2 failure (Ok ()) es"
  obtains u st rep polls where "es = (rq, rep) # polls" "u \<noteq> []"
    "read_reply (Some dec_job_uuid) [] rep = Ok u" "wait_spec c u 151 (Ok st) polls"
    "js_State st = ''success''"
  using assms by (auto simp: job_spec_def async_spec_def split: if_splits)

text \<open>
  C3: When CreateBucket succeeds, it has sent exactly one POST, with the name, the size in
  bytes, the comment and the retention of the request, got a job reference for it, and then only
  polled that job until ONTAP reported success.
\<close>

theorem CreateBucket_transcript:
  assumes "CreateBucket env c cx bucket ps w = (Ok (), w')"
  shows "\<exists>sz lock u st rep polls.
    parseBucketSize (trim_space (param_get ps sizeKey)) = Ok sz \<and> object_locking ps = Some lock \<and>
    CreateBucket (recording env) c cx bucket ps (recorded w []) =
      (Ok (), recorded w' ((create_request c bucket ps sz lock, rep) # polls)) \<and>
    u \<noteq> [] \<and> read_reply (Some dec_job_uuid) [] rep = Ok u \<and>
    wait_spec c u 151 (Ok st) polls \<and> js_State st = ''success''"
proof -
  from assms obtain sz lock where ok: "trim_space (param_get ps sizeKey) \<noteq> []"
    "parseBucketSize (trim_space (param_get ps sizeKey)) = Ok sz" "object_locking ps = Some lock"
    by (auto simp: CreateBucket_cases Let_def io_simps split: if_splits outcome.splits option.splits)
  from talksE [OF talks_CreateBucket [OF ok] assms, of "[]"] obtain es where es:
    "job_spec c (create_request c bucket ps sz lock) ''failed to initiate bucket creation: ''
       ''failed waiting for bucket creation job: '' (job_failure ''create'' bucket) (Ok ()) es"
    "CreateBucket (recording env) c cx bucket ps (recorded w []) = (Ok (), recorded w' es)"
    by auto
  from es(1) show ?thesis by (rule job_spec_Ok) (use ok es(2) in auto)
qed

section \<open>Lookups and DeleteBucket\<close>

definition list_request :: "client \<Rightarrow> string \<Rightarrow> request" where
  "list_request c bucket =
     build_request c ''GET'' (servicesPath c [''buckets''])
       [(''name'', bucket), (''return_records'', ''true'')] None"

abbreviation bucket_records :: "reply \<Rightarrow> (ontapBucketRecord list, gerror) outcome" where
  "bucket_records \<equiv> read_reply (Some (dec_records dec_bucket_record zero_bucket_record)) []"

text \<open>The record a lookup by name finds in a reply.\<close>

definition named_record :: "string \<Rightarrow> ontapBucketRecord list \<Rightarrow> ontapBucketRecord option" where
  "named_record bucket records = find (\<lambda>r. br_Name r = bucket) records"

definition lookup_spec ::
  "client \<Rightarrow> string \<Rightarrow> (ontapBucketRecord option, gerror) outcome \<Rightarrow> exchange list \<Rightarrow> bool" where
  "lookup_spec c bucket r es \<longleftrightarrow>
     (case r of
        Ok found \<Rightarrow> \<exists>rep records. es = [(list_request c bucket, rep)] \<and>
          bucket_records rep = Ok records \<and> found = named_record bucket records
      | Err e \<Rightarrow> es = [] \<or> (\<exists>rep. es = [(list_request c bucket, rep)])
      | Panic p \<Rightarrow> False)"

lemma lookup_spec_intro:
  assumes "seq_spec (call_spec (list_request c bucket) (Some (dec_records dec_bucket_record zero_bucket_record)) [])
     (\<lambda>e r es. r = Err e \<and> es = []) (\<lambda>records r es. r = Ok (named_record bucket records) \<and> es = []) r es"
  shows "lookup_spec c bucket r es"
  using assms
proof (cases rule: seq_specE)
  case (Ok records es1 es2)
  with call_spec_Ok [OF Ok(2)] show ?thesis by (auto simp: lookup_spec_def)
next
  case (Err e es1 es2)
  with call_spec_length [OF Err(2)] show ?thesis by (auto simp: lookup_spec_def)
next
  case (Panic p)
  from call_spec_not_Panic [OF Panic(2)] show ?thesis ..
qed

lemma talks_bucketByName:
  "talks (bucketByName env c cx bucket) (bucketByName (recording env) c cx bucket) (lookup_spec c bucket)"
  unfolding bucketByName_def listBucketsByName_def named_record_def [symmetric]
  by (rule talks_mono [OF talks_bind [OF talks_doJSON talks_ok]]) (rule lookup_spec_intro, simp add: list_request_def)

lemma DeleteBucket_run_job:
  "DeleteBucket env c cx bucket =
     io_bind (bucketByName env c cx bucket) (\<lambda>existing.
       case existing of
         None \<Rightarrow> io_ok ()
       | Some rec \<Rightarrow>
           run_job env c cx (deleteBucketAsync env c cx (br_UUID rec))
             ''failed to initiate bucket deletion: '' ''failed waiting for bucket deletion job: ''
             (job_failure ''deletion'' bucket))"
  unfolding DeleteBucket_def run_job_def by (rule refl)

definition delete_request :: "client \<Rightarrow> ontapBucketRecord \<Rightarrow> request" where
  "delete_request c rec = build_request c ''DELETE'' (bucketsPath c [br_UUID rec]) [] None"

definition delete_found_spec ::
  "client \<Rightarrow> string \<Rightarrow> ontapBucketRecord option \<Rightarrow> (unit, gerror) outcome \<Rightarrow> exchange list \<Rightarrow> bool" where
  "delete_found_spec c bucket found r es \<longleftrightarrow>
     (case found of
        None \<Rightarrow> r = Ok () \<and> es = []
      | Some rec \<Rightarrow> job_spec c (delete_request c rec) ''failed to initiate bucket deletion: ''
          ''failed waiting for bucket deletion job: '' (job_failure ''deletion'' bucket) r es)"

lemma talks_DeleteBucket:
  "talks (DeleteBucket env c cx bucket) (DeleteBucket (recording env) c cx bucket)
     (seq_spec (lookup_spec c bucket) (\<lambda>e r es. r = Err e \<and> es = []) (delete_found_spec c bucket))"
  unfolding DeleteBucket_run_job
proof (rule talks_bind [OF talks_bucketByName])
  fix found :: "ontapBucketRecord option"
  show "talks (case found of None \<Rightarrow> io_ok () | Some rec \<Rightarrow>
           run_job env c cx (deleteBucketAsync env c cx (br_UUID rec))
             ''failed to initiate bucket deletion: '' ''failed waiting for bucket deletion job: ''
             (job_failure ''deletion'' bucket))
     (case found of None \<Rightarrow> io_ok () | Some rec \<Rightarrow>
           run_job (recording env) c cx (deleteBucketAsync (recording env) c cx (br_UUID rec))
             ''failed to initiate bucket deletion: '' ''failed waiting for bucket deletion job: ''
             (job_failure ''deletion'' bucket))
     (delete_found_spec c bucket found)"
  proof (cases found)
    case None
    have "talks (io_ok ()) (io_ok ()) (delete_found_spec c bucket None)"
      by (rule talks_mono [OF talks_ok]) (simp add: delete_found_spec_def)
    with None show ?thesis by simp
  next
    case (Some rec)
    then show ?thesis
      by simp (rule talks_mono [OF talks_run_job [OF talks_deleteBucketAsync]],
        simp add: delete_found_spec_def delete_request_def)
  qed
qed

lemma bucketByName_no_panic: "no_panic (fst (bucketByName env c cx bucket w))"
  unfolding bucketByName_def listBucketsByName_def by (rule io_bind_no_panic) (auto simp: io_ok_def)

lemma DeleteBucket_no_panic: "no_panic (fst (DeleteBucket env c cx bucket w))"
  unfolding DeleteBucket_run_job
  by (rule io_bind_no_panic)
    (auto simp: bucketByName_no_panic run_job_no_panic delete_job_no_panic io_ok_def split: option.split)

lemma BucketExists_no_panic: "no_panic (fst (BucketExists env c cx bucket w))"
  unfolding BucketExists_def listBucketsByName_def by (rule io_bind_no_panic) (auto simp: io_ok_def)

lemma IsBucketEqual_no_panic: "no_panic (fst (IsBucketEqual env c cx bucket ps w))"
proof -
  have "no_panic (fst (io_bind (bucketByName env c cx bucket) (\<lambda>rec. case rec of
      None \<Rightarrow> io_ok False | Some r \<Rightarrow> io_ok (br_Size r = want)) w))" for want
    by (rule io_bind_no_panic) (auto simp: bucketByName_no_panic io_ok_def split: option.split)
  then show ?thesis
    unfolding IsBucketEqual_def using parseBucketSize_no_panic [of "the (map_of ps sizeKey)"]
    by (auto simp: io_ok_def io_err_def split: option.split outcome.splits)
qed

text \<open>
  C7: When DeleteBucket succeeds, either the lookup listed no bucket of that exact name and
  nothing else was sent, or one DELETE was sent for the UUID of the first bucket of that name
  and its job was polled until it succeeded.
\<close>

theorem DeleteBucket_transcript:
  assumes "DeleteBucket env c cx bucket w = (Ok (), w')"
  shows "\<exists>lookup records es.
    DeleteBucket (recording env) c cx bucket (recorded w []) =
      (Ok (), recorded w' ((list_request c bucket, lookup) # es)) \<and>
    bucket_records lookup = Ok records \<and>
    (case named_record bucket records of
       None \<Rightarrow> es = []
     | Some rec \<Rightarrow> \<exists>u st rep polls. es = (delete_request c rec, rep) # polls \<and>
         u \<noteq> [] \<and> read_reply (Some dec_job_uuid) [] rep = Ok u \<and>
         wait_spec c u 151 (Ok st) polls \<and> js_State st = ''success'')"
proof -
  from talksE [OF talks_DeleteBucket assms, of "[]"] obtain es0 where es0:
    "seq_spec (lookup_spec c bucket) (\<lambda>e r es. r = Err e \<and> es = []) (delete_found_spec c bucket) (Ok ()) es0"
    "DeleteBucket (recording env) c cx bucket (recorded w []) = (Ok (), recorded w' es0)"
    by auto
  from es0(1) show ?thesis
  proof (cases rule: seq_specE)
    case (Ok found es1 es2)
    then obtain lookup records where rec: "es1 = [(list_request c bucket, lookup)]"
      "bucket_records lookup = Ok records" "found = named_record bucket records"
      by (auto simp: lookup_spec_def)
    have "case found of
       None \<Rightarrow> es2 = []
     | Some rec \<Rightarrow> \<exists>u st rep polls. es2 = (delete_request c rec, rep) # polls \<and>
         u \<noteq> [] \<and> read_reply (Some dec_job_uuid) [] rep = Ok u \<and>
         wait_spec c u 151 (Ok st) polls \<and> js_State st = ''success''"
      using Ok(3) by (auto simp: delete_found_spec_def split: option.splits elim!: job_spec_Ok)
    with rec Ok(1) es0(2) show ?thesis by auto
  qed simp_all
qed



section \<open>Runs against a script\<close>

lemma script_size:
  "trim_space (param_get [(''size'', ''10'')] sizeKey) = ''10''"
  "parseBucketSize ''10'' = Ok (10 * gib)"
  "trim_space (param_get [(''size'', ''10'')] commentKey) = []"
  "object_locking [(''size'', ''10'')] = Some False"
  by code_simp+

lemma CreateBucket_script:
  "CreateBucket scripted sample_client None ''b'' [(''size'', ''10'')]
     (play [(202, job_ref ''j1''), (200, job_state ''success'')]) = (Ok (), \<lparr>now = 20, node = []\<rparr>)"
  by (simp add: CreateBucket_cases run_job_def createBucketAsync_def Let_def io_simps script_size
      script_job_replies waitForJob_script_success)

lemma CreateBucket_transcript_witness:
  "\<exists>sz lock rep polls.
     CreateBucket (recording scripted) sample_client None ''b'' [(''size'', ''10'')]
       (recorded (play [(202, job_ref ''j1''), (200, job_state ''success'')]) []) =
     (Ok (), recorded \<lparr>now = 20, node = []\<rparr>
        ((create_request sample_client ''b'' [(''size'', ''10'')] sz lock, rep) # polls))"
  using CreateBucket_transcript [OF CreateBucket_script] by blast

lemma CreateBucket_rejects_size_witness:
  "\<exists>e. CreateBucket scripted sample_client None ''b'' [(''size'', ''0'')] (play []) = (Err e, play []) \<and>
     status_code e = InvalidArgument"
proof -
  have "parseBucketSize (trim_space (param_get [(''size'', ''0'')] sizeKey)) = Err (invalid_size ''0'')"
    by code_simp
  then show ?thesis
    using CreateBucket_rejects_size [of "[(''size'', ''0'')]" scripted sample_client None "''b''" "play []"]
    by auto
qed

lemma script_records:
  "bucket_records (Reply 200 (records_of [obj [(''uuid'', dq ''u1''), (''name'', dq ''b''), (''size'', ''10737418240'')]])) =
     Ok [\<lparr>br_UUID = ''u1'', br_Name = ''b'', br_Size = 10 * gib\<rparr>]"
  "bucket_records (Reply 200 (records_of [])) = Ok []"
  by code_simp+

abbreviation one_bucket :: string where
  "one_bucket \<equiv> records_of [obj [(''uuid'', dq ''u1''), (''name'', dq ''b''), (''size'', ''10737418240'')]]"

lemma DeleteBucket_script:
  "DeleteBucket scripted sample_client None ''b''
     (play [(200, one_bucket), (202, job_ref ''j1''), (200, job_state ''success'')]) = (Ok (), \<lparr>now = 30, node = []\<rparr>)"
  by (simp add: DeleteBucket_run_job bucketByName_def listBucketsByName_def run_job_def deleteBucketAsync_def
      io_simps script_records script_job_replies waitForJob_script_success)

lemma DeleteBucket_transcript_witness:
  "\<exists>lookup es. DeleteBucket (recording scripted) sample_client None ''b''
      (recorded (play [(200, one_bucket), (202, job_ref ''j1''), (200, job_state ''success'')]) []) =
      (Ok (), recorded \<lparr>now = 30, node = []\<rparr> ((list_request sample_client ''b'', lookup) # es))"
  using DeleteBucket_transcript [OF DeleteBucket_script] by blast



end
