(* ===== verification/Access.thy ===== *)
theory Access
  imports Jobs
begin

text \<open>
  Access to buckets in \<open>pkg/clients/s3/s3.go\<close>: a policy, a user with S3 keys and a group that binds the
  two, created by \<open>CreateBucketAccess\<close> and removed by \<open>DeleteBucketAccess\<close>.
\<close>

section \<open>Records\<close>

record ontapUserRecord =
  ur_Name :: string
  ur_AccessKey :: string
  ur_SecretKey :: string

definition zero_user_record :: ontapUserRecord where
  "zero_user_record = \<lparr>ur_Name = [], ur_AccessKey = [], ur_SecretKey = []\<rparr>"

definition dec_user_record :: "ontapUserRecord decoder" where
  "dec_user_record = dec_struct
     [(''name'', dec_field dec_string ur_Name ur_Name_update),
      (''access_key'', dec_field dec_string ur_AccessKey ur_AccessKey_update),
      (''secret_key'', dec_field dec_string ur_SecretKey ur_SecretKey_update)]"

record ontapGroupRecord =
  gr_ID :: string
  gr_Name :: string

definition zero_group_record :: ontapGroupRecord where
  "zero_group_record = \<lparr>gr_ID = [], gr_Name = []\<rparr>"

text \<open>
  \<open>groupID.UnmarshalJSON\<close>: a string as it is, a number in decimal; \<open>null\<close> decodes into the empty
  string, because \<open>json.Unmarshal\<close> of \<open>null\<close> into a fresh string is no error.
\<close>

definition dec_group_id :: "string decoder" where
  "dec_group_id j old =
     (case dec_string j [] of
        (True, s) \<Rightarrow> (True, s)
      | (False, _) \<Rightarrow>
          (case dec_int64 j 0 of
             (True, n) \<Rightarrow> (True, format_int (sint n))
           | (False, _) \<Rightarrow> (False, old)))"

definition dec_group_record :: "ontapGroupRecord decoder" where
  "dec_group_record = dec_struct
     [(''id'', dec_field dec_group_id gr_ID gr_ID_update),
      (''name'', dec_field dec_string gr_Name gr_Name_update)]"

section \<open>Names\<close>

definition dash_char :: "char \<Rightarrow> char" where
  "dash_char ch = (if ch \<in> set ''/ :'' then CHR ''-'' else ch)"

definition normalizedName :: "(string \<Rightarrow> string) \<Rightarrow> string \<Rightarrow> nat \<Rightarrow> string" where
  "normalizedName uni name maxLen =
     (let n = map dash_char (to_lower uni name) in
      if length n \<le> maxLen then n else take maxLen n)"

definition policy_name :: "(string \<Rightarrow> string) \<Rightarrow> string \<Rightarrow> string \<Rightarrow> string" where
  "policy_name uni bucket userID =
     normalizedName uni (''cosi-'' @ bucket @ ''-'' @ userID @ ''-policy'') 128"

definition group_name :: "(string \<Rightarrow> string) \<Rightarrow> string \<Rightarrow> string \<Rightarrow> string" where
  "group_name uni bucket userID =
     normalizedName uni (''cosi-'' @ bucket @ ''-'' @ userID @ ''-group'') 64"

section \<open>Policies, users and groups\<close>

definition policy_comment :: "string \<Rightarrow> json" where
  "policy_comment bucket = JStr (''COSI access policy for bucket '' @ bucket)"

definition policy_statements :: "string \<Rightarrow> json" where
  "policy_statements bucket =
     JArr [json_map
       [(''sid'', JStr ''COSIAllowBucketAccess''),
        (''effect'', JStr ''allow''),
        (''actions'', JArr [JStr ''*'']),
        (''resources'', JArr [JStr bucket, JStr (bucket @ ''/*'')])]]"

definition createOrUpdatePolicy ::
  "'o env \<Rightarrow> client \<Rightarrow> ctx \<Rightarrow> string \<Rightarrow> string \<Rightarrow> (unit, gerror, 'o world) io" where
  "createOrUpdatePolicy env c cx policyName bucket =
     io_handle
       (doJSON env c cx ''POST'' (servicesPath c [''policies'']) []
         (Some (json_map [(''name'', JStr policyName), (''comment'', policy_comment bucket),
                          (''statements'', policy_statements bucket)])) None ())
       (\<lambda>err.
          if \<not> isHTTPStatus err 409 then io_err err
          else doJSON env c cx ''PATCH'' (servicesPath c [''policies'', policyName]) []
                 (Some (json_map [(''comment'', policy_comment bucket),
                                  (''statements'', policy_statements bucket)])) None ())
       (\<lambda>_. io_ok ())"

definition user_body :: "string \<Rightarrow> json" where
  "user_body userName =
     json_map [(''name'', JStr userName), (''comment'', JStr ''COSI managed bucket access user'')]"

text \<open>
  A user that exists gets new keys. \<open>doJSON\<close> fills \<open>resp\<close> only when it succeeds, so the second
  request decodes into the zero value as well.
\<close>

definition createOrRotateUser ::
  "'o env \<Rightarrow> client \<Rightarrow> ctx \<Rightarrow> string \<Rightarrow> (S3Credentials, gerror, 'o world) io" where
  "createOrRotateUser env c cx userName =
     (let first_record = (\<lambda>records. case records of
            [] \<Rightarrow> io_err (ErrText ''ONTAP response did not include generated user credentials'')
          | r # _ \<Rightarrow> io_ok \<lparr>AccessKeyID = ur_AccessKey r, AccessSecretKey = ur_SecretKey r\<rparr>)
      in io_handle
       (doJSON env c cx ''POST'' (servicesPath c [''users'']) [] (Some (user_body userName))
          (Some (dec_records dec_user_record zero_user_record)) [])
       (\<lambda>err.
          if \<not> isHTTPStatus err 409 then io_err err
          else io_bind
            (doJSON env c cx ''PATCH'' (servicesPath c [''users'', userName])
               [(''regenerate_keys'', ''true'')] (Some (JObj []))
               (Some (dec_records dec_user_record zero_user_record)) [])
            first_record)
       first_record)"

definition group_body :: "string \<Rightarrow> string \<Rightarrow> string \<Rightarrow> json" where
  "group_body groupName userName policyName =
     json_map
       [(''name'', JStr groupName),
        (''comment'', JStr ''COSI managed S3 access group''),
        (''users'', JArr [json_map [(''name'', JStr userName)]]),
        (''policies'', JArr [json_map [(''name'', JStr policyName)]])]"

definition createGroupIfNeeded ::
  "'o env \<Rightarrow> client \<Rightarrow> ctx \<Rightarrow> string \<Rightarrow> string \<Rightarrow> string \<Rightarrow> (unit, gerror, 'o world) io" where
  "createGroupIfNeeded env c cx groupName userName policyName =
     io_handle
       (doJSON env c cx ''POST'' (servicesPath c [''groups'']) []
          (Some (group_body groupName userName policyName)) None ())
       (\<lambda>err. if \<not> isHTTPStatus err 409 then io_err err else io_ok ())
       (\<lambda>_. io_ok ())"

definition listGroupsByName ::
  "'o env \<Rightarrow> client \<Rightarrow> ctx \<Rightarrow> string \<Rightarrow> (ontapGroupRecord list, gerror, 'o world) io" where
  "listGroupsByName env c cx name =
     doJSON env c cx ''GET'' (servicesPath c [''groups''])
       [(''name'', name), (''return_records'', ''true'')] None
       (Some (dec_records dec_group_record zero_group_record)) []"

text \<open>A deletion that tolerates \<open>404\<close>: \<open>err != nil && !isHTTPStatus(err, StatusNotFound)\<close>.\<close>

definition delete_tolerant ::
  "'o env \<Rightarrow> client \<Rightarrow> ctx \<Rightarrow> string \<Rightarrow> (unit, gerror, 'o world) io" where
  "delete_tolerant env c cx path =
     io_handle (doJSON env c cx ''DELETE'' path [] None None ())
       (\<lambda>err. if \<not> isHTTPStatus err 404 then io_err err else io_ok ())
       (\<lambda>_. io_ok ())"

fun delete_groups ::
  "'o env \<Rightarrow> client \<Rightarrow> ctx \<Rightarrow> string \<Rightarrow> ontapGroupRecord list \<Rightarrow> (unit, gerror, 'o world) io" where
  "delete_groups env c cx groupName [] = io_ok ()"
| "delete_groups env c cx groupName (g # gs) =
     (if gr_Name g \<noteq> groupName then delete_groups env c cx groupName gs
      else io_bind (delete_tolerant env c cx (servicesPath c [''groups'', gr_ID g]))
             (\<lambda>_. delete_groups env c cx groupName gs))"

definition deleteGroupIfExists ::
  "'o env \<Rightarrow> client \<Rightarrow> ctx \<Rightarrow> string \<Rightarrow> (unit, gerror, 'o world) io" where
  "deleteGroupIfExists env c cx groupName =
     io_bind (listGroupsByName env c cx groupName) (delete_groups env c cx groupName)"

definition deletePolicyIfExists ::
  "'o env \<Rightarrow> client \<Rightarrow> ctx \<Rightarrow> string \<Rightarrow> (unit, gerror, 'o world) io" where
  "deletePolicyIfExists env c cx policyName =
     delete_tolerant env c cx (servicesPath c [''policies'', policyName])"

definition deleteUserIfExists ::
  "'o env \<Rightarrow> client \<Rightarrow> ctx \<Rightarrow> string \<Rightarrow> (unit, gerror, 'o world) io" where
  "deleteUserIfExists env c cx userName =
     delete_tolerant env c cx (servicesPath c [''users'', userName])"

section \<open>Granting and revoking access\<close>

record user =
  us_S3Credentials :: S3Credentials
  us_name :: string

definition CreateBucketAccess ::
  "'o env \<Rightarrow> client \<Rightarrow> ctx \<Rightarrow> string \<Rightarrow> string \<Rightarrow> (user, gerror, 'o world) io" where
  "CreateBucketAccess env c cx bucket userID =
     (let policyName = policy_name (env_lower env) bucket userID;
          groupName = group_name (env_lower env) bucket userID
      in io_bind (createOrUpdatePolicy env c cx policyName bucket) (\<lambda>_.
         io_bind (createOrRotateUser env c cx userID) (\<lambda>creds.
         io_bind (createGroupIfNeeded env c cx groupName userID policyName) (\<lambda>_.
         io_ok \<lparr>us_S3Credentials = creds, us_name = userID\<rparr>))))"

definition DeleteBucketAccess ::
  "'o env \<Rightarrow> client \<Rightarrow> ctx \<Rightarrow> string \<Rightarrow> string \<Rightarrow> (unit, gerror, 'o world) io" where
  "DeleteBucketAccess env c cx bucket userID =
     (let policyName = policy_name (env_lower env) bucket userID;
          groupName = group_name (env_lower env) bucket userID
      in io_bind (deleteGroupIfExists env c cx groupName) (\<lambda>_.
         io_bind (deletePolicyIfExists env c cx policyName) (\<lambda>_.
         io_bind (deleteUserIfExists env c cx userID) (\<lambda>_. io_ok ()))))"

section \<open>What names look like\<close>

lemma dash_char_safe: "dash_char ch \<notin> set ''/ :''"
  by (simp add: dash_char_def)

text \<open>
  A normalized name is at most as long as allowed and contains no slash, space or colon.
\<close>

theorem normalizedName_safe:
  "length (normalizedName uni name n) \<le> n \<and>
   CHR ''/'' \<notin> set (normalizedName uni name n) \<and>
   CHR '' '' \<notin> set (normalizedName uni name n) \<and>
   CHR '':'' \<notin> set (normalizedName uni name n)"
proof -
  have sub: "set (normalizedName uni name n) \<subseteq> range dash_char"
    using set_take_subset [of n "map dash_char (to_lower uni name)"]
    by (auto simp: normalizedName_def Let_def)
  have "CHR ''/'' \<notin> range dash_char" "CHR '' '' \<notin> range dash_char" "CHR '':'' \<notin> range dash_char"
    by (auto simp: dash_char_def split: if_splits)
  with sub show ?thesis by (auto simp: normalizedName_def Let_def)
qed

lemma normalizedName_ascii:
  "list_all is_ascii name \<Longrightarrow> normalizedName uni name n = take n (map (dash_char \<circ> ascii_lower) name)"
  by (auto simp: normalizedName_def Let_def to_lower_ascii)

text \<open>
  C32: For a bucket name of 58 characters or more, the names of the groups of all accounts
  coincide, because the account is cut off. Since a conflict on the group is taken for success,
  the second account's grant then succeeds without binding its user to the policy.
\<close>

theorem group_name_collision:
  assumes "list_all is_ascii bucket" "list_all is_ascii a" "list_all is_ascii b" "58 \<le> length bucket"
  shows "group_name uni bucket a = group_name uni bucket b"
proof -
  have ascii: "list_all is_ascii (''cosi-'' @ bucket @ ''-'' @ x @ ''-group'')" if "list_all is_ascii x" for x
    using that assms(1) by simp code_simp
  have short: "take (59 - length bucket) (ch # xs) = take (59 - length bucket) (ch # ys)" for ch :: char and xs ys
  proof -
    have "59 - length bucket = 0 \<or> 59 - length bucket = 1" using assms(4) by arith
    then show ?thesis by auto
  qed
  show ?thesis
    using assms ascii short by (simp add: group_name_def normalizedName_ascii)
qed

lemma group_name_collision_witness:
  "group_name (\<lambda>s. s) (replicate 58 CHR ''b'') ''alice'' = group_name (\<lambda>s. s) (replicate 58 CHR ''b'') ''bob''"
proof -
  have "list_all is_ascii (replicate 58 CHR ''b'')" "list_all is_ascii ''alice''" "list_all is_ascii ''bob''"
    by (simp add: list_all_iff, code_simp) code_simp+
  then show ?thesis by (rule group_name_collision) simp
qed

section \<open>The requests\<close>

definition policy_post :: "client \<Rightarrow> string \<Rightarrow> string \<Rightarrow> request" where
  "policy_post c policyName bucket =
     build_request c ''POST'' (servicesPath c [''policies'']) []
       (Some (json_map [(''name'', JStr policyName), (''comment'', policy_comment bucket),
                        (''statements'', policy_statements bucket)]))"

definition policy_patch :: "client \<Rightarrow> string \<Rightarrow> string \<Rightarrow> request" where
  "policy_patch c policyName bucket =
     build_request c ''PATCH'' (servicesPath c [''policies'', policyName]) []
       (Some (json_map [(''comment'', policy_comment bucket), (''statements'', policy_statements bucket)]))"

definition user_post :: "client \<Rightarrow> string \<Rightarrow> request" where
  "user_post c userName = build_request c ''POST'' (servicesPath c [''users'']) [] (Some (user_body userName))"

definition user_patch :: "client \<Rightarrow> string \<Rightarrow> request" where
  "user_patch c userName =
     build_request c ''PATCH'' (servicesPath c [''users'', userName]) [(''regenerate_keys'', ''true'')] (Some (JObj []))"

definition group_post :: "client \<Rightarrow> string \<Rightarrow> string \<Rightarrow> string \<Rightarrow> request" where
  "group_post c groupName userName policyName =
     build_request c ''POST'' (servicesPath c [''groups'']) []
       (Some (group_body groupName userName policyName))"

abbreviation user_records :: "reply \<Rightarrow> (ontapUserRecord list, gerror) outcome" where
  "user_records \<equiv> read_reply (Some (dec_records dec_user_record zero_user_record)) []"

definition keys_in :: "reply \<Rightarrow> S3Credentials \<Rightarrow> bool" where
  "keys_in rep creds = (\<exists>r rs. user_records rep = Ok (r # rs) \<and>
     creds = \<lparr>AccessKeyID = ur_AccessKey r, AccessSecretKey = ur_SecretKey r\<rparr>)"

section \<open>What the successful runs exchanged\<close>

definition policy_ok :: "client \<Rightarrow> string \<Rightarrow> string \<Rightarrow> exchange list \<Rightarrow> bool" where
  "policy_ok c policyName bucket es \<longleftrightarrow>
     (\<exists>rep. es = [(policy_post c policyName bucket, rep)] \<and> accepted rep) \<or>
     (\<exists>rep1 rep2. es = [(policy_post c policyName bucket, rep1), (policy_patch c policyName bucket, rep2)] \<and>
        answered 409 rep1 \<and> accepted rep2)"

definition user_ok :: "client \<Rightarrow> string \<Rightarrow> S3Credentials \<Rightarrow> exchange list \<Rightarrow> bool" where
  "user_ok c userName creds es \<longleftrightarrow>
     (\<exists>rep. es = [(user_post c userName, rep)] \<and> keys_in rep creds) \<or>
     (\<exists>rep1 rep2. es = [(user_post c userName, rep1), (user_patch c userName, rep2)] \<and>
        answered 409 rep1 \<and> keys_in rep2 creds)"

definition group_ok :: "client \<Rightarrow> string \<Rightarrow> string \<Rightarrow> string \<Rightarrow> exchange list \<Rightarrow> bool" where
  "group_ok c groupName userName policyName es \<longleftrightarrow>
     (\<exists>rep. es = [(group_post c groupName userName policyName, rep)] \<and> (accepted rep \<or> answered 409 rep))"

lemma talks_policy:
  "talks (createOrUpdatePolicy env c cx p bucket) (createOrUpdatePolicy (recording env) c cx p bucket)
     (on_ok (\<lambda>_. policy_ok c p bucket))"
  unfolding createOrUpdatePolicy_def
  by (rule talks_mono [OF talks_call_or [OF talks_return talks_call]])
    (auto simp: on_ok_def policy_ok_def policy_post_def policy_patch_def read_reply_unit split: outcome.splits)

lemma talks_first_record:
  "talks (case records of [] \<Rightarrow> io_err e | r # _ \<Rightarrow> io_ok (f r))
     (case records of [] \<Rightarrow> io_err e | r # _ \<Rightarrow> io_ok (f r))
     (on_ok (\<lambda>x es. es = [] \<and> (\<exists>r rs. records = r # rs \<and> x = f r)))"
  by (cases records) (auto intro: talks_fail talks_mono [OF talks_ok])

lemma talks_user:
  "talks (createOrRotateUser env c cx u) (createOrRotateUser (recording env) c cx u) (on_ok (user_ok c u))"
  unfolding createOrRotateUser_def Let_def
  by (rule talks_mono [OF talks_call_or [OF talks_first_record talks_bind_ok [OF talks_call talks_first_record]]])
    (auto simp: on_ok_def user_ok_def user_post_def user_patch_def keys_in_def followed_by_def split: outcome.splits)

lemma talks_group:
  "talks (createGroupIfNeeded env c cx g u p) (createGroupIfNeeded (recording env) c cx g u p)
     (on_ok (\<lambda>_. group_ok c g u p))"
  unfolding createGroupIfNeeded_def
  by (rule talks_mono [OF talks_call_or [OF talks_return talks_return]])
    (auto simp: on_ok_def group_ok_def group_post_def read_reply_unit split: outcome.splits)

definition grant_spec :: "client \<Rightarrow> (string \<Rightarrow> string) \<Rightarrow> string \<Rightarrow> string \<Rightarrow> user \<Rightarrow> exchange list \<Rightarrow> bool" where
  "grant_spec c uni bucket userID u es \<longleftrightarrow>
     us_name u = userID \<and>
     (\<exists>es1 es2 es3. es = es1 @ es2 @ es3 \<and>
        policy_ok c (policy_name uni bucket userID) bucket es1 \<and>
        user_ok c userID (us_S3Credentials u) es2 \<and>
        group_ok c (group_name uni bucket userID) userID (policy_name uni bucket userID) es3)"

lemma talks_CreateBucketAccess:
  "talks (CreateBucketAccess env c cx bucket userID) (CreateBucketAccess (recording env) c cx bucket userID)
     (on_ok (grant_spec c (env_lower env) bucket userID))"
  unfolding CreateBucketAccess_def Let_def recording_simps
  by (rule talks_mono [OF talks_bind_ok [OF talks_policy talks_bind_ok [OF talks_user
          talks_bind_ok [OF talks_group talks_return]]]])
    (auto simp: on_ok_def grant_spec_def followed_by_def split: outcome.splits; blast)

text \<open>
  C8: When access is granted, the policy was created, or patched after a conflict; the user was
  created, or had its keys regenerated after a conflict, and the returned keys are those of that
  reply; and the group that binds user and policy was created or existed already, in this order
  and with no other request. A group that exists is not changed: the user is not added to it.
\<close>

theorem CreateBucketAccess_transcript:
  assumes "CreateBucketAccess env c cx bucket userID w = (Ok u, w')"
  shows "\<exists>es. CreateBucketAccess (recording env) c cx bucket userID (recorded w []) = (Ok u, recorded w' es) \<and>
    grant_spec c (env_lower env) bucket userID u es"
  using talksE [OF talks_CreateBucketAccess assms, of "[]"] by auto

text \<open>Runs of the script: a new policy, an existing user whose keys are rotated, an existing group.\<close>

lemma script_keys:
  "user_records (Reply 200 (records_of [obj [(''access_key'', dq ''AK''), (''secret_key'', dq ''SK'')]])) =
     Ok [\<lparr>ur_Name = [], ur_AccessKey = ''AK'', ur_SecretKey = ''SK''\<rparr>]"
  by code_simp

abbreviation new_keys :: string where
  "new_keys \<equiv> records_of [obj [(''access_key'', dq ''AK''), (''secret_key'', dq ''SK'')]]"

lemma CreateBucketAccess_script:
  "CreateBucketAccess scripted sample_client None ''b'' ''alice''
     (play [(201, []), (409, []), (200, new_keys), (409, [])]) =
   (Ok \<lparr>us_S3Credentials = \<lparr>AccessKeyID = ''AK'', AccessSecretKey = ''SK''\<rparr>, us_name = ''alice''\<rparr>,
    \<lparr>now = 40, node = []\<rparr>)"
  by (simp add: CreateBucketAccess_def createOrUpdatePolicy_def createOrRotateUser_def createGroupIfNeeded_def
      Let_def io_simps read_refusal read_accepted script_keys)

lemma CreateBucketAccess_transcript_witness:
  "\<exists>u w' es. CreateBucketAccess (recording scripted) sample_client None ''b'' ''alice''
     (recorded (play [(201, []), (409, []), (200, new_keys), (409, [])]) []) = (Ok u, recorded w' es) \<and>
     grant_spec sample_client (\<lambda>s. s) ''b'' ''alice'' u es"
  using CreateBucketAccess_transcript [OF CreateBucketAccess_script] by auto

section \<open>Revoking access: the exchanges\<close>

definition delete_path_request :: "client \<Rightarrow> string \<Rightarrow> request" where
  "delete_path_request c path = build_request c ''DELETE'' path [] None"

definition gone :: "reply \<Rightarrow> bool" where
  "gone rep = (accepted rep \<or> answered 404 rep)"

definition delete_ok :: "client \<Rightarrow> string \<Rightarrow> exchange list \<Rightarrow> bool" where
  "delete_ok c path es = (\<exists>rep. es = [(delete_path_request c path, rep)] \<and> gone rep)"

lemma talks_delete:
  "talks (delete_tolerant env c cx path) (delete_tolerant (recording env) c cx path)
     (on_ok (\<lambda>_. delete_ok c path))"
  unfolding delete_tolerant_def
  by (rule talks_mono [OF talks_call_or [OF talks_return talks_return]])
    (auto simp: on_ok_def delete_ok_def delete_path_request_def gone_def read_reply_unit split: outcome.splits)

definition group_records :: "reply \<Rightarrow> (ontapGroupRecord list, gerror) outcome" where
  "group_records = read_reply (Some (dec_records dec_group_record zero_group_record)) []"

definition list_groups_request :: "client \<Rightarrow> string \<Rightarrow> request" where
  "list_groups_request c name =
     build_request c ''GET'' (servicesPath c [''groups'']) [(''name'', name), (''return_records'', ''true'')] None"

text \<open>One deletion for each listed group of exactly that name, in the order of the list.\<close>

definition groups_deleted :: "client \<Rightarrow> string \<Rightarrow> ontapGroupRecord list \<Rightarrow> exchange list \<Rightarrow> bool" where
  "groups_deleted c name records es =
     list_all2 (\<lambda>g (rq, rep). rq = delete_path_request c (servicesPath c [''groups'', gr_ID g]) \<and> gone rep)
       (filter (\<lambda>g. gr_Name g = name) records) es"

lemma talks_delete_groups:
  "talks (delete_groups env c cx name records) (delete_groups (recording env) c cx name records)
     (on_ok (\<lambda>_. groups_deleted c name records))"
proof (induction records)
  case Nil
  show ?case
    by (simp only: delete_groups.simps)
      (rule talks_mono [OF talks_return], auto simp: on_ok_def groups_deleted_def split: outcome.splits)
next
  case (Cons g gs)
  show ?case
  proof (cases "gr_Name g = name")
    case True
    then have eq: "delete_groups e c cx name (g # gs) =
        io_bind (delete_tolerant e c cx (servicesPath c [''groups'', gr_ID g]))
          (\<lambda>_. delete_groups e c cx name gs)" for e :: "'x env"
      by simp
    have "talks (delete_groups env c cx name (g # gs)) (delete_groups (recording env) c cx name (g # gs))
        (on_ok (followed_by (\<lambda>_ :: unit. delete_ok c (servicesPath c [''groups'', gr_ID g])) (\<lambda>_ _. groups_deleted c name gs)))"
      unfolding eq by (rule talks_bind_ok [OF talks_delete Cons])
    then show ?thesis
      by (rule talks_mono)
        (use True in \<open>auto simp: on_ok_def followed_by_def groups_deleted_def delete_ok_def split: outcome.splits\<close>)
  next
    case False
    with Cons show ?thesis by (simp add: groups_deleted_def)
  qed
qed

lemma talks_deleteGroup:
  "talks (deleteGroupIfExists env c cx name) (deleteGroupIfExists (recording env) c cx name)
     (on_ok (\<lambda>_ es. \<exists>rep records es2. es = (list_groups_request c name, rep) # es2 \<and>
        group_records rep = Ok records \<and> groups_deleted c name records es2))"
  unfolding deleteGroupIfExists_def listGroupsByName_def
  by (rule talks_mono [OF talks_bind_ok [OF talks_call talks_delete_groups]])
    (auto simp: on_ok_def followed_by_def list_groups_request_def group_records_def split: outcome.splits)

definition revoke_spec :: "client \<Rightarrow> (string \<Rightarrow> string) \<Rightarrow> string \<Rightarrow> string \<Rightarrow> exchange list \<Rightarrow> bool" where
  "revoke_spec c uni bucket userID es \<longleftrightarrow>
     (\<exists>rep records es1 rep2 rep3.
        es = (list_groups_request c (group_name uni bucket userID), rep) # es1 @
             [(delete_path_request c (servicesPath c [''policies'', policy_name uni bucket userID]), rep2),
              (delete_path_request c (servicesPath c [''users'', userID]), rep3)] \<and>
        group_records rep = Ok records \<and>
        groups_deleted c (group_name uni bucket userID) records es1 \<and> gone rep2 \<and> gone rep3)"

lemma talks_DeleteBucketAccess:
  "talks (DeleteBucketAccess env c cx bucket userID) (DeleteBucketAccess (recording env) c cx bucket userID)
     (on_ok (\<lambda>_. revoke_spec c (env_lower env) bucket userID))"
  unfolding DeleteBucketAccess_def Let_def recording_simps deletePolicyIfExists_def deleteUserIfExists_def
  by (rule talks_mono [OF talks_bind_ok [OF talks_deleteGroup talks_bind_ok [OF talks_delete
          talks_bind_ok [OF talks_delete talks_return]]]])
    (auto simp: on_ok_def revoke_spec_def followed_by_def delete_ok_def split: outcome.splits; blast)

text \<open>
  C9: When access is revoked, every listed group of exactly the binding's name, then the policy,
  then the user was deleted or reported missing, and nothing else was sent.
\<close>

theorem DeleteBucketAccess_transcript:
  assumes "DeleteBucketAccess env c cx bucket userID w = (Ok (), w')"
  shows "\<exists>es. DeleteBucketAccess (recording env) c cx bucket userID (recorded w []) = (Ok (), recorded w' es) \<and>
    revoke_spec c (env_lower env) bucket userID es"
  using talksE [OF talks_DeleteBucketAccess assms, of "[]"] by auto

lemma script_no_groups: "group_records (Reply 200 (records_of [])) = Ok []"
  by code_simp

lemma DeleteBucketAccess_script:
  "DeleteBucketAccess scripted sample_client None ''b'' ''alice''
     (play [(200, records_of []), (404, []), (404, [])]) = (Ok (), \<lparr>now = 30, node = []\<rparr>)"
  using script_no_groups
  by (simp add: DeleteBucketAccess_def deleteGroupIfExists_def listGroupsByName_def deletePolicyIfExists_def
      deleteUserIfExists_def delete_tolerant_def group_records_def Let_def io_simps read_refusal)

lemma DeleteBucketAccess_transcript_witness:
  "\<exists>es. DeleteBucketAccess (recording scripted) sample_client None ''b'' ''alice''
     (recorded (play [(200, records_of []), (404, []), (404, [])]) []) =
       (Ok (), recorded \<lparr>now = 30, node = []\<rparr> es) \<and>
     revoke_spec sample_client (\<lambda>s. s) ''b'' ''alice'' es"
  using DeleteBucketAccess_transcript [OF DeleteBucketAccess_script] by auto

section \<open>Group identifiers and panics\<close>

text \<open>
  A group identifier is read from a JSON string as it is and from a JSON number as its
  decimal text if it is a 64-bit integer, and any other number is an error.
\<close>

theorem dec_group_id_forms:
  "dec_group_id (JStr s) old = (True, s) \<and>
   dec_group_id JNull old = (True, []) \<and>
   (case parse_int s of
      None \<Rightarrow> dec_group_id (JNum s) old = (False, old)
    | Some n \<Rightarrow> dec_group_id (JNum s) old = (True, format_int n))"
  by (auto simp: dec_group_id_def dec_string_def dec_int64_def split: option.split
      dest!: parse_int_range sint_of_int64)

lemma delete_tolerant_no_panic: "no_panic (fst (delete_tolerant env c cx path w))"
  unfolding delete_tolerant_def by (rule io_handle_no_panic) (auto simp: io_ok_def io_err_def)

lemma delete_groups_no_panic: "no_panic (fst (delete_groups env c cx name gs w))"
  by (induction gs arbitrary: w) (auto simp: io_ok_def delete_tolerant_no_panic intro!: io_bind_no_panic)

lemma DeleteBucketAccess_no_panic: "no_panic (fst (DeleteBucketAccess env c cx bucket userID w))"
  unfolding DeleteBucketAccess_def Let_def deleteGroupIfExists_def listGroupsByName_def
    deletePolicyIfExists_def deleteUserIfExists_def
  by (auto simp: io_ok_def delete_tolerant_no_panic delete_groups_no_panic intro!: io_bind_no_panic)

lemma CreateBucketAccess_no_panic: "no_panic (fst (CreateBucketAccess env c cx bucket userID w))"
  unfolding CreateBucketAccess_def Let_def createOrUpdatePolicy_def createOrRotateUser_def createGroupIfNeeded_def
  by (auto simp: io_ok_def io_err_def split: list.split intro!: io_bind_no_panic io_handle_no_panic)

text \<open>
  For an empty user name the DELETE addresses the collection of users, and for two dots the
  S3 service itself.
\<close>

theorem deleteUserIfExists_degenerate:
  "deleteUserIfExists env c cx [] = delete_tolerant env c cx (servicesPath c [''users'']) \<and>
   deleteUserIfExists env c cx ''..'' = delete_tolerant env c cx (servicesPath c [])"
proof -
  have dots: "trim_space ''..'' = ''..''" by code_simp
  have "servicesPath c [''users'', []] = servicesPath c [''users'']"
    using servicesPath_drop_empty [of "[]" c "[''users'']"] by simp
  moreover have "servicesPath c [''users'', ''..''] = servicesPath c []"
    using servicesPath_dotdot [of "''users''" "''..''" c "[]"] dots by simp
  ultimately show ?thesis by (simp add: deleteUserIfExists_def)
qed

section \<open>When derived names are distinct\<close>

definition plain_lower :: "string \<Rightarrow> bool" where
  "plain_lower s = list_all (\<lambda>ch. is_ascii ch \<and> dash_char (ascii_lower ch) = ch) s"

lemma normalizedName_plain:
  assumes "plain_lower name"
  shows "normalizedName uni name n = take n name"
proof -
  have "list_all is_ascii name" "map (dash_char \<circ> ascii_lower) name = name"
    using assms by (induction name) (simp_all add: plain_lower_def)
  then show ?thesis by (simp add: normalizedName_ascii)
qed

lemma derived_plain:
  assumes "plain_lower b" "plain_lower u"
  shows "policy_name uni b u = take 128 (''cosi-'' @ b @ ''-'' @ u @ ''-policy'')"
    "group_name uni b u = take 64 (''cosi-'' @ b @ ''-'' @ u @ ''-group'')"
proof -
  have "plain_lower ''cosi-''" "plain_lower ''-''" "plain_lower ''-policy''" "plain_lower ''-group''" by code_simp+
  with assms have "plain_lower (''cosi-'' @ b @ ''-'' @ u @ ''-policy'')" "plain_lower (''cosi-'' @ b @ ''-'' @ u @ ''-group'')"
    by (simp_all only: plain_lower_def list_all_append simp_thms)
  then show "policy_name uni b u = take 128 (''cosi-'' @ b @ ''-'' @ u @ ''-policy'')"
    "group_name uni b u = take 64 (''cosi-'' @ b @ ''-'' @ u @ ''-group'')"
    unfolding policy_name_def group_name_def by (simp_all only: normalizedName_plain)
qed

text \<open>With bucket names of one length, a cut name determines the bucket and the head of the account.\<close>

lemma cut_name_inj:
  assumes "take n (''cosi-'' @ b @ ''-'' @ u @ t) = take n (''cosi-'' @ b' @ ''-'' @ u' @ t)"
    and "length b' = length b" "length u' = length u" "length b + 6 \<le> n"
  shows "b' = b" "take (n - 6 - length b) u' = take (n - 6 - length b) u"
proof -
  define k where "k = n - 6 - length b"
  with assms(4) have n: "n = Suc (Suc (Suc (Suc (Suc (length b + Suc k)))))" by simp
  have "take n (''cosi-'' @ c @ ''-'' @ v @ t) = ''cosi-'' @ c @ ''-'' @ take k (v @ t)" if "length c = length b" for c v
    using that by (simp add: n)
  with assms(1,2) have eq: "b @ ''-'' @ take k (u @ t) = b' @ ''-'' @ take k (u' @ t)" by simp
  then show "b' = b" using assms(2) by simp
  with eq have "take k (u @ t) = take k (u' @ t)" by simp
  then have "take k u = take k u'" using assms(3) by simp
  then show "take (n - 6 - length b) u' = take (n - 6 - length b) u" by (simp add: n)
qed

text \<open>
  C15: The names of policies and groups are distinct for distinct pairs of bucket and account if
  all names are of ASCII characters other than upper-case letters, slash, space and colon, the
  bucket names have one length of at most 57, the accounts have one length, and the accounts
  differ in the part that the cut to 64 bytes leaves of them.
\<close>

theorem derived_names_distinct:
  assumes "\<forall>(b, u) \<in> W. plain_lower b \<and> plain_lower u \<and> length b = l \<and> length u = m"
    and "l \<le> 57" "inj_on (take (58 - l)) (snd ` W)"
  shows "inj_on (\<lambda>(b, u). policy_name uni b u) W \<and> inj_on (\<lambda>(b, u). group_name uni b u) W"
proof -
  have "b' = b \<and> u' = u" if "(b, u) \<in> W" "(b', u') \<in> W" "take n (''cosi-'' @ b @ ''-'' @ u @ t) = take n (''cosi-'' @ b' @ ''-'' @ u' @ t)"
    "64 \<le> n" for b u b' u' t n
  proof -
    from bspec [OF assms(1) that(1)] bspec [OF assms(1) that(2)]
    have len: "length b' = length b" "length u' = length u" "length b = l" by simp_all
    with assms(2) that(4) have "length b + 6 \<le> n" by simp
    note cut = cut_name_inj [OF that(3) len(1,2) this]
    have "58 - l \<le> n - 6 - length b" using len(3) that(4) by simp
    with cut(2) have "take (58 - l) u' = take (58 - l) u" by (metis min.absorb1 take_take)
    with assms(3) that(1,2) have "u' = u" by (force dest: inj_onD)
    with cut(1) show ?thesis by simp
  qed
  note distinct = this
  have names: "policy_name uni b u = take 128 (''cosi-'' @ b @ ''-'' @ u @ ''-policy'')"
    "group_name uni b u = take 64 (''cosi-'' @ b @ ''-'' @ u @ ''-group'')" if "(b, u) \<in> W" for b u
    using bspec [OF assms(1) that] derived_plain [of b u uni] by simp_all
  show ?thesis
  proof (intro conjI inj_onI; clarify)
    fix b u b' u'
    assume W: "(b, u) \<in> W" "(b', u') \<in> W" and "policy_name uni b u = policy_name uni b' u'"
    then have "take 128 (''cosi-'' @ b @ ''-'' @ u @ ''-policy'') = take 128 (''cosi-'' @ b' @ ''-'' @ u' @ ''-policy'')"
      by (simp only: names)
    from distinct [OF W this] show "b = b' \<and> u = u'" by simp
  next
    fix b u b' u'
    assume W: "(b, u) \<in> W" "(b', u') \<in> W" and "group_name uni b u = group_name uni b' u'"
    then have "take 64 (''cosi-'' @ b @ ''-'' @ u @ ''-group'') = take 64 (''cosi-'' @ b' @ ''-'' @ u' @ ''-group'')"
      by (simp only: names)
    from distinct [OF W this] show "b = b' \<and> u = u'" by simp
  qed
qed

lemma derived_names_distinct_witness:
  "group_name (\<lambda>s. s) ''bc-1'' ''ba-1'' \<noteq> group_name (\<lambda>s. s) ''bc-1'' ''ba-2''"
proof -
  let ?W = "{(''bc-1'', ''ba-1''), (''bc-1'', ''ba-2'')}"
  have "plain_lower ''bc-1''" "plain_lower ''ba-1''" "plain_lower ''ba-2''" by code_simp+
  then have "inj_on (\<lambda>(b, u). policy_name (\<lambda>s. s) b u) ?W \<and> inj_on (\<lambda>(b, u). group_name (\<lambda>s. s) b u) ?W"
    by (intro derived_names_distinct [where l = 4 and m = 4]) (simp_all add: inj_on_def)
  then show ?thesis by (auto simp: inj_on_def)
qed

text \<open>Without such a convention they are not: both parts may contain the dash that separates them.\<close>

lemma derived_names_ambiguous:
  "policy_name uni (b @ ''-'' @ x) u = policy_name uni b (x @ ''-'' @ u)"
  "group_name uni (b @ ''-'' @ x) u = group_name uni b (x @ ''-'' @ u)"
  by (simp_all add: policy_name_def group_name_def)

end
