(* ===== verification/Interface.thy ===== *)
theory Interface
  imports Http
begin

text \<open>
  The interface \<open>clients.Client\<close> of \<open>pkg/clients/common.go\<close> between the COSI server and a storage
  backend. A Go interface value is a record of its methods over the backend's world \<open>'w\<close>; the server
  holds an optional one, \<open>None\<close> being the nil interface.

  The constants of the COSI \<open>consts\<close> package that name the members of a credentials map are kept
  symbolic, and the protocol enumeration is that of the COSI \<open>proto\<close> package.
\<close>

datatype cred_key = S3SecretAccessKeyID | S3SecretAccessSecretKey | AzureSecretAccessToken

type_synonym credentials = "(cred_key \<times> string) list"

definition cred_get :: "credentials \<Rightarrow> cred_key \<Rightarrow> string" where
  "cred_get m k = (case map_of m k of None \<Rightarrow> [] | Some v \<Rightarrow> v)"

definition S3Key :: string where "S3Key = ''s3''"
definition AzureKey :: string where "AzureKey = ''azure''"

datatype protocol_type = ObjectProtocol_UNKNOWN | ObjectProtocol_S3 | ObjectProtocol_AZURE
  | ObjectProtocol_GCS

text \<open>\<open>clients.User\<close>. \<open>Credentials\<close> is a method: the fake backend draws new random keys in it.\<close>

record 'w user_iface =
  ui_Name :: string
  ui_Credentials :: "'w \<Rightarrow> credentials \<times> 'w"
  ui_Platform :: string

record 'w backend =
  bk_BucketExists :: "ctx \<Rightarrow> string \<Rightarrow> (bool, gerror, 'w) io"
  bk_IsBucketEqual :: "ctx \<Rightarrow> string \<Rightarrow> params \<Rightarrow> (bool, gerror, 'w) io"
  bk_CreateBucket :: "ctx \<Rightarrow> string \<Rightarrow> params \<Rightarrow> (unit, gerror, 'w) io"
  bk_DeleteBucket :: "ctx \<Rightarrow> string \<Rightarrow> (unit, gerror, 'w) io"
  bk_CreateBucketAccess :: "ctx \<Rightarrow> string \<Rightarrow> string \<Rightarrow> ('w user_iface, gerror, 'w) io"
  bk_DeleteBucketAccess :: "ctx \<Rightarrow> string \<Rightarrow> string \<Rightarrow> (unit, gerror, 'w) io"
  bk_ProtocolInfo :: protocol_type
  bk_S3Endpoint :: string
  bk_S3Region :: string

end
