(* ===== verification/Contracts.thy ===== *)
theory Contracts
  imports Interface
begin

text \<open>
  What the COSI server relies on in a storage backend, as locales. \<open>safe_backend\<close>: no method panics
  when it is called the way the server calls it (a bucket is compared only after it was found).
  \<open>bucket_store\<close>: the methods act on a finite map of buckets and a map of accesses, the contract that
  the idempotence promises of the COSI interface rest on. The fake backend satisfies both; the ONTAP
  client satisfies the first, for any behaviour of the ONTAP system.
\<close>

locale safe_backend =
  fixes b :: "'w backend"
  assumes exists_safe: "no_panic (fst (bk_BucketExists b cx n w))"
    and equal_safe: "bk_BucketExists b cx n w = (Ok True, w1) \<Longrightarrow>
      no_panic (fst (bk_IsBucketEqual b cx n ps w1))"
    and create_safe: "no_panic (fst (bk_CreateBucket b cx n ps w))"
    and delete_safe: "no_panic (fst (bk_DeleteBucket b cx n w))"
    and grant_safe: "no_panic (fst (bk_CreateBucketAccess b cx n u w))"
    and revoke_safe: "no_panic (fst (bk_DeleteBucketAccess b cx n u w))"

locale bucket_store = safe_backend b for b :: "'w backend" +
  fixes buckets :: "'w \<Rightarrow> string \<Rightarrow> params option"
    and accesses :: "'w \<Rightarrow> string \<Rightarrow> string option"
  assumes exists_law: "bk_BucketExists b cx n w = (Ok (buckets w n \<noteq> None), w)"
    and equal_law: "buckets w n = Some ps \<Longrightarrow> bk_IsBucketEqual b cx n qs w = (Ok (maps_equal ps qs), w)"
    and create_law: "\<exists>w1. bk_CreateBucket b cx n ps w = (Ok (), w1) \<and>
      buckets w1 = (buckets w)(n \<mapsto> ps) \<and> accesses w1 = accesses w"
    and delete_law: "\<exists>w1. bk_DeleteBucket b cx n w = (Ok (), w1) \<and>
      buckets w1 = (buckets w)(n := None) \<and> accesses w1 = accesses w"
    and grant_law: "\<exists>i w1. bk_CreateBucketAccess b cx n u w = (Ok i, w1) \<and> ui_Name i = u \<and>
      buckets w1 = buckets w \<and> accesses w1 = (accesses w)(u \<mapsto> n)"
    and keys_law: "bk_CreateBucketAccess b cx n u w = (Ok i, w1) \<Longrightarrow> ui_Credentials i w2 = (cr, w3) \<Longrightarrow>
      buckets w3 = buckets w2 \<and> accesses w3 = accesses w2"
    and revoke_law: "\<exists>w1. bk_DeleteBucketAccess b cx n u w = (Ok (), w1) \<and>
      buckets w1 = buckets w \<and> accesses w1 = (accesses w)(u := None)"

end
