(* ===== verification/S3Client.thy ===== *)
theory S3Client
  imports Buckets Access Contracts
begin

text \<open>
  The ONTAP client's configuration and constructor \<open>NewFromConfig\<close>, and the endpoint and region it
  advertises (\<open>pkg/clients/s3/s3.go\<close>).
\<close>

record config =
  cfg_Endpoint :: string
  cfg_S3Endpoint :: string
  cfg_Region :: string
  cfg_SVMUUID :: string
  cfg_Admin :: S3Credentials
  cfg_TLS :: TLSConfig
  cfg_S3UseSSL :: bool
  cfg_CACertPEM :: string

text \<open>The scheme put in front of an endpoint that has none.\<close>

definition ssl_scheme :: "bool \<Rightarrow> string" where
  "ssl_scheme ssl = (if ssl then ''https'' else ''http'')"

definition with_scheme :: "bool \<Rightarrow> string \<Rightarrow> string" where
  "with_scheme ssl endpoint =
     (if contains endpoint ''://'' then endpoint else ssl_scheme ssl @ ''://'' @ endpoint)"

text \<open>The PEM bytes for the root pool: the inline certificate first, then the CA file.\<close>

definition ca_cert :: "'o env \<Rightarrow> config \<Rightarrow> (string, gerror) outcome" where
  "ca_cert env cfg =
     (if cfg_CACertPEM cfg \<noteq> [] then Ok (cfg_CACertPEM cfg)
      else if tls_CACertPath (cfg_TLS cfg) \<noteq> [] then
        (case env_read_file env (tls_CACertPath (cfg_TLS cfg)) of
           Inl e \<Rightarrow> Err (WrappedQuoted ''unable to read CA certificate from '' (tls_CACertPath (cfg_TLS cfg)) '': '' e)
         | Inr pem \<Rightarrow> Ok pem)
      else Ok [])"

definition tls_setup :: "'o env \<Rightarrow> config \<Rightarrow> (tls_transport, gerror) outcome" where
  "tls_setup env cfg =
     (case ca_cert env cfg of
        Err e \<Rightarrow> Err e
      | Panic p \<Rightarrow> Panic p
      | Ok pem \<Rightarrow>
          let skip = tls_SkipVerify (cfg_TLS cfg) in
          if pem = [] then Ok \<lparr>tt_MinVersion = VersionTLS12, tt_InsecureSkipVerify = skip, tt_RootCA = None\<rparr>
          else (case env_system_pool env of
             Some e \<Rightarrow> Err (Wrapped ''unable to load system CA pool: '' e)
           | None \<Rightarrow>
               if \<not> env_pem_ok env pem then
                 Err (Quoted ''no valid CA certificates found in ''
                   (if cfg_CACertPEM cfg \<noteq> [] then ''inline CA certificate'' else tls_CACertPath (cfg_TLS cfg)) [])
               else Ok \<lparr>tt_MinVersion = VersionTLS12, tt_InsecureSkipVerify = skip, tt_RootCA = Some pem\<rparr>))"

definition NewFromConfig :: "'o env \<Rightarrow> config \<Rightarrow> (client, gerror) outcome" where
  "NewFromConfig env cfg =
     (if trim_space (cfg_Endpoint cfg) = [] then Err (ErrText ''endpoint is required'')
      else if trim_space (cfg_SVMUUID cfg) = [] then Err (ErrText ''svm UUID is required'')
      else
        let endpoint = with_scheme (tls_SSL (cfg_TLS cfg)) (cfg_Endpoint cfg);
            s3Endpoint = (if cfg_S3Endpoint cfg = [] then []
                          else with_scheme (cfg_S3UseSSL cfg) (cfg_S3Endpoint cfg))
        in case url_parse endpoint of
             None \<Rightarrow> Err (Wrapped ''unable to parse endpoint: '' (ErrText ''parse''))
           | Some parsed \<Rightarrow>
               let u = parsed\<lparr>u_Path := [], u_RawQuery := [], u_Fragment := []\<rparr>;
                   finish = (\<lambda>hc. Ok \<lparr>c_httpClient = hc, c_baseURL = u, c_s3Endpoint = s3Endpoint,
                     c_s3UseSSL = cfg_S3UseSSL cfg, c_admin = cfg_Admin cfg,
                     c_svmUUID = cfg_SVMUUID cfg, c_region = cfg_Region cfg\<rparr>)
               in if tls_SSL (cfg_TLS cfg) then
                    (case tls_setup env cfg of
                       Err e \<Rightarrow> Err e
                     | Panic p \<Rightarrow> Panic p
                     | Ok tt \<Rightarrow> finish (Some tt))
                  else finish None)"

definition S3Endpoint :: "client \<Rightarrow> string" where
  "S3Endpoint c =
     (if c_s3Endpoint c \<noteq> [] then c_s3Endpoint c
      else
        let scheme = ssl_scheme (c_s3UseSSL c) in
        if u_Scheme (c_baseURL c) = scheme then url_string (c_baseURL c)
        else url_string ((c_baseURL c)\<lparr>u_Scheme := scheme\<rparr>))"

definition S3Region :: "client \<Rightarrow> string" where
  "S3Region c = c_region c"

section \<open>The client as a storage backend\<close>

text \<open>The methods of \<open>*user\<close>.\<close>

definition user_Credentials :: "user \<Rightarrow> credentials" where
  "user_Credentials u =
     [(S3SecretAccessKeyID, AccessKeyID (us_S3Credentials u)),
      (S3SecretAccessSecretKey, AccessSecretKey (us_S3Credentials u))]"

definition user_methods :: "user \<Rightarrow> 'w user_iface" where
  "user_methods u =
     \<lparr>ui_Name = us_name u, ui_Credentials = (\<lambda>w. (user_Credentials u, w)), ui_Platform = S3Key\<rparr>"

definition s3_backend :: "'o env \<Rightarrow> client \<Rightarrow> 'o world backend" where
  "s3_backend env c =
     \<lparr>bk_BucketExists = BucketExists env c,
      bk_IsBucketEqual = IsBucketEqual env c,
      bk_CreateBucket = CreateBucket env c,
      bk_DeleteBucket = DeleteBucket env c,
      bk_CreateBucketAccess = (\<lambda>cx bucket userID.
        io_bind (CreateBucketAccess env c cx bucket userID) (\<lambda>u. io_ok (user_methods u))),
      bk_DeleteBucketAccess = DeleteBucketAccess env c,
      bk_ProtocolInfo = ObjectProtocol_S3,
      bk_S3Endpoint = S3Endpoint c,
      bk_S3Region = S3Region c\<rparr>"

text \<open>Whatever the ONTAP system answers, no method of the client panics.\<close>

interpretation s3_safe: safe_backend "s3_backend env c" for env :: "'o env" and c
  by unfold_locales
    (auto simp: s3_backend_def BucketExists_no_panic IsBucketEqual_no_panic CreateBucket_no_panic
      DeleteBucket_no_panic DeleteBucketAccess_no_panic CreateBucketAccess_no_panic io_ok_def
      intro!: io_bind_no_panic)

section \<open>What the constructor guarantees\<close>

lemma tls_setup_Ok:
  assumes "tls_setup env cfg = Ok tt"
  shows "tt_MinVersion tt = VersionTLS12 \<and> tt_InsecureSkipVerify tt = tls_SkipVerify (cfg_TLS cfg) \<and>
    (\<exists>pem. ca_cert env cfg = Ok pem \<and> tt_RootCA tt = (if pem = [] then None else Some pem))"
proof (cases "ca_cert env cfg")
  case (Ok pem)
  show ?thesis
  proof (cases "pem = []")
    case True
    with Ok assms show ?thesis by (auto simp: tls_setup_def)
  next
    case False
    with Ok assms have "env_system_pool env = None \<and> env_pem_ok env pem"
      by (cases "env_system_pool env"; cases "env_pem_ok env pem") (simp_all add: tls_setup_def)
    with False Ok assms show ?thesis by (auto simp: tls_setup_def)
  qed
qed (use assms in \<open>simp_all add: tls_setup_def\<close>)

lemma tls_setup_root:
  assumes "tls_setup env cfg = Ok tt"
  shows "tt_MinVersion tt = VersionTLS12 \<and>
    tt_InsecureSkipVerify tt = tls_SkipVerify (cfg_TLS cfg) \<and>
    tt_RootCA tt =
      (if cfg_CACertPEM cfg \<noteq> [] then Some (cfg_CACertPEM cfg)
       else if tls_CACertPath (cfg_TLS cfg) = [] then None
       else case env_read_file env (tls_CACertPath (cfg_TLS cfg)) of
           Inr pem \<Rightarrow> if pem = [] then None else Some pem
         | Inl _ \<Rightarrow> None)"
  using tls_setup_Ok [OF assms] by (auto simp: ca_cert_def split: if_splits sum.splits)

lemma ca_cert_no_panic: "ca_cert env cfg \<noteq> Panic p"
  by (simp add: ca_cert_def split: sum.split)

lemma tls_setup_no_panic: "no_panic (tls_setup env cfg)"
  by (simp add: tls_setup_def ca_cert_no_panic Let_def split: outcome.split option.split)

lemma NewFromConfig_no_panic: "no_panic (NewFromConfig env cfg)"
  using tls_setup_no_panic [of env cfg]
  by (auto simp: NewFromConfig_def Let_def split: outcome.splits option.splits)

lemma NewFromConfig_Ok:
  assumes "NewFromConfig env cfg = Ok c"
  obtains parsed where "trim_space (cfg_Endpoint cfg) \<noteq> []" "trim_space (cfg_SVMUUID cfg) \<noteq> []"
    "url_parse (with_scheme (tls_SSL (cfg_TLS cfg)) (cfg_Endpoint cfg)) = Some parsed"
    "c_baseURL c = parsed\<lparr>u_Path := [], u_RawQuery := [], u_Fragment := []\<rparr>"
    "c_s3Endpoint c = (if cfg_S3Endpoint cfg = [] then [] else with_scheme (cfg_S3UseSSL cfg) (cfg_S3Endpoint cfg))"
    "c_s3UseSSL c = cfg_S3UseSSL cfg" "c_admin c = cfg_Admin cfg" "c_svmUUID c = cfg_SVMUUID cfg"
    "c_region c = cfg_Region cfg"
    "if tls_SSL (cfg_TLS cfg) then \<exists>tt. c_httpClient c = Some tt \<and> tls_setup env cfg = Ok tt
     else c_httpClient c = None"
  using assms
  by (auto simp: NewFromConfig_def Let_def split: if_splits option.splits outcome.splits)

lemma parse_rest_Scheme: "parse_rest u r = Some v \<Longrightarrow> u_Scheme v = u_Scheme u"
  by (auto simp: parse_rest_def Let_def split: if_splits option.splits prod.splits)

lemma url_parse_Scheme:
  assumes "url_parse (ssl_scheme b @ ''://'' @ x) = Some u"
  shows "u_Scheme u = ssl_scheme b"
proof -
  obtain f g h where x: "cut CHR ''#'' x = (f, g, h)" by (cases "cut CHR ''#'' x")
  obtain h' where front: "cut CHR ''#'' (ssl_scheme b @ ''://'' @ x) = (ssl_scheme b @ ''://'' @ f, g, h')"
    using x by (simp add: ssl_scheme_def)
  have ascii: "is_alpha CHR ''h''" "is_alpha CHR ''t''" "is_alpha CHR ''p''" "is_alpha CHR ''s''"
    "\<not> is_alpha CHR '':''" "\<not> is_digit CHR '':''" "map ascii_lower ''http'' = ''http''"
    "map ascii_lower ''https'' = ''https''"
    by code_simp+
  have scheme: "get_scheme (ssl_scheme b @ ''://'' @ f) = Some (ssl_scheme b, ''//'' @ f)"
    by (simp add: get_scheme_def ssl_scheme_def ascii)
  have "u_Scheme v = ssl_scheme b" if "parse_no_fragment (ssl_scheme b @ ''://'' @ f) = Some v" for v
    using that ascii unfolding parse_no_fragment_def scheme
    by (auto simp: Let_def ssl_scheme_def dest!: parse_rest_Scheme split: if_splits prod.splits)
  then show ?thesis using assms unfolding url_parse_def front
    by (auto split: option.splits if_splits)
qed

text \<open>
  A management endpoint without a scheme is contacted with https exactly if TLS is
  configured, and with http otherwise.
\<close>

theorem NewFromConfig_scheme:
  assumes "NewFromConfig env cfg = Ok c" "\<not> contains (cfg_Endpoint cfg) ''://''"
  shows "u_Scheme (c_baseURL c) = ssl_scheme (tls_SSL (cfg_TLS cfg))"
proof (rule NewFromConfig_Ok [OF assms(1)])
  fix parsed
  assume "url_parse (with_scheme (tls_SSL (cfg_TLS cfg)) (cfg_Endpoint cfg)) = Some parsed"
    "c_baseURL c = parsed\<lparr>u_Path := [], u_RawQuery := [], u_Fragment := []\<rparr>"
  then show ?thesis using assms(2) url_parse_Scheme by (simp add: with_scheme_def)
qed

text \<open>
  C28: A client that NewFromConfig returns has the configured credentials, SVM and region, and a
  base URL without path, query and fragment, whose scheme is the endpoint's own if it names one
  and otherwise https exactly if SSL is configured. A TLS transport is attached exactly if SSL
  is configured: it asks for version 1.2 or later, skips verification exactly if configured, and
  trusts the inline certificate, or else the CA file, or else only the system pool. So with SSL
  configured and an endpoint that says http the client talks in the clear.
\<close>

theorem NewFromConfig_client:
  assumes "NewFromConfig env cfg = Ok c"
  shows "c_admin c = cfg_Admin cfg \<and> c_svmUUID c = cfg_SVMUUID cfg \<and> trim_space (c_svmUUID c) \<noteq> [] \<and>
    c_region c = cfg_Region cfg \<and>
    u_Path (c_baseURL c) = [] \<and> u_RawQuery (c_baseURL c) = [] \<and> u_Fragment (c_baseURL c) = [] \<and>
    (if contains (cfg_Endpoint cfg) ''://''
     then map_option u_Scheme (url_parse (cfg_Endpoint cfg)) = Some (u_Scheme (c_baseURL c))
     else u_Scheme (c_baseURL c) = (if tls_SSL (cfg_TLS cfg) then ''https'' else ''http'')) \<and>
    (c_httpClient c = None \<longleftrightarrow> \<not> tls_SSL (cfg_TLS cfg)) \<and>
    (case c_httpClient c of
       None \<Rightarrow> True
     | Some tt \<Rightarrow> tt_MinVersion tt = VersionTLS12 \<and>
         tt_InsecureSkipVerify tt = tls_SkipVerify (cfg_TLS cfg) \<and>
         tt_RootCA tt =
           (if cfg_CACertPEM cfg \<noteq> [] then Some (cfg_CACertPEM cfg)
            else if tls_CACertPath (cfg_TLS cfg) = [] then None
            else case env_read_file env (tls_CACertPath (cfg_TLS cfg)) of
                Inr pem \<Rightarrow> if pem = [] then None else Some pem
              | Inl _ \<Rightarrow> None))"
proof (rule NewFromConfig_Ok [OF assms])
  assume client: "if tls_SSL (cfg_TLS cfg) then \<exists>tt. c_httpClient c = Some tt \<and> tls_setup env cfg = Ok tt
     else c_httpClient c = None"
    and admin: "c_admin c = cfg_Admin cfg" "c_svmUUID c = cfg_SVMUUID cfg" "c_region c = cfg_Region cfg"
      "trim_space (cfg_SVMUUID cfg) \<noteq> []"
  fix parsed
  assume base: "c_baseURL c = parsed\<lparr>u_Path := [], u_RawQuery := [], u_Fragment := []\<rparr>"
    and parsed: "url_parse (with_scheme (tls_SSL (cfg_TLS cfg)) (cfg_Endpoint cfg)) = Some parsed"
  have scheme: "if contains (cfg_Endpoint cfg) ''://''
     then map_option u_Scheme (url_parse (cfg_Endpoint cfg)) = Some (u_Scheme (c_baseURL c))
     else u_Scheme (c_baseURL c) = (if tls_SSL (cfg_TLS cfg) then ''https'' else ''http'')"
  proof (cases "contains (cfg_Endpoint cfg) ''://''")
    case False
    with NewFromConfig_scheme [OF assms False] show ?thesis by (simp add: ssl_scheme_def)
  qed (use base parsed in \<open>simp add: with_scheme_def\<close>)
  show ?thesis
  proof (cases "tls_SSL (cfg_TLS cfg)")
    case True
    with client obtain tt where tt: "c_httpClient c = Some tt" "tls_setup env cfg = Ok tt" by auto
    show ?thesis
      using tls_setup_root [OF tt(2)] tt(1) True admin base scheme by simp
  next
    case False
    with client admin base scheme show ?thesis by simp
  qed
qed

text \<open>
  The endpoint advertised to consumers is the configured S3 endpoint, with the scheme of
  the S3 SSL setting unless it has one of its own, or else the management endpoint with the
  scheme of the S3 SSL setting.
\<close>

theorem S3Endpoint_advertised:
  assumes "NewFromConfig env cfg = Ok c"
  shows "S3Endpoint c =
    (if cfg_S3Endpoint cfg = [] then url_string ((c_baseURL c)\<lparr>u_Scheme := ssl_scheme (cfg_S3UseSSL cfg)\<rparr>)
     else if contains (cfg_S3Endpoint cfg) ''://'' then cfg_S3Endpoint cfg
     else ssl_scheme (cfg_S3UseSSL cfg) @ ''://'' @ cfg_S3Endpoint cfg)"
proof (rule NewFromConfig_Ok [OF assms])
  assume eqs: "c_s3Endpoint c = (if cfg_S3Endpoint cfg = [] then [] else with_scheme (cfg_S3UseSSL cfg) (cfg_S3Endpoint cfg))"
    "c_s3UseSSL c = cfg_S3UseSSL cfg"
  have "with_scheme x y \<noteq> []" if "y \<noteq> []" for x y
    using that by (auto simp: with_scheme_def ssl_scheme_def)
  moreover have same: "(c_baseURL c)\<lparr>u_Scheme := v\<rparr> = c_baseURL c" if "u_Scheme (c_baseURL c) = v" for v
    using that by auto
  ultimately show ?thesis
    using eqs by (simp add: S3Endpoint_def with_scheme_def Let_def same)
qed

definition sample_config :: config where
  "sample_config =
     \<lparr>cfg_Endpoint = ''ontap:84'', cfg_S3Endpoint = ''http://s3.example'', cfg_Region = ''us'',
      cfg_SVMUUID = ''svm-1'', cfg_Admin = \<lparr>AccessKeyID = ''admin'', AccessSecretKey = ''pw''\<rparr>,
      cfg_TLS = \<lparr>tls_SSL = True, tls_CACertPath = ''/ca.pem'', tls_SkipVerify = True\<rparr>,
      cfg_S3UseSSL = True, cfg_CACertPEM = ''PEM''\<rparr>"

lemma sample_url:
  "url_parse ''https://ontap:84'' = Some (empty_url\<lparr>u_Scheme := ''https'', u_Host := ''ontap:84''\<rparr>)"
  by code_simp

lemma sample_texts:
  "trim_space ''ontap:84'' = ''ontap:84''" "trim_space ''svm-1'' = ''svm-1''"
  "\<not> contains ''ontap:84'' ''://''" "contains ''http://s3.example'' ''://''"
  by code_simp+

lemma sample_config_client:
  "NewFromConfig scripted sample_config =
     Ok \<lparr>c_httpClient = Some \<lparr>tt_MinVersion = VersionTLS12, tt_InsecureSkipVerify = True, tt_RootCA = Some ''PEM''\<rparr>,
         c_baseURL = empty_url\<lparr>u_Scheme := ''https'', u_Host := ''ontap:84''\<rparr>,
         c_s3Endpoint = ''http://s3.example'', c_s3UseSSL = True,
         c_admin = \<lparr>AccessKeyID = ''admin'', AccessSecretKey = ''pw''\<rparr>, c_svmUUID = ''svm-1'', c_region = ''us''\<rparr>"
  using sample_url
  by (simp add: NewFromConfig_def sample_config_def sample_texts with_scheme_def ssl_scheme_def Let_def
      tls_setup_def ca_cert_def scripted_def empty_url_def)

lemma NewFromConfig_client_witness:
  "\<exists>c. NewFromConfig scripted sample_config = Ok c \<and> c_httpClient c \<noteq> None \<and> u_Path (c_baseURL c) = []"
  using NewFromConfig_client [OF sample_config_client] sample_config_client by auto

lemma NewFromConfig_scheme_witness:
  "\<exists>c. NewFromConfig scripted sample_config = Ok c \<and> u_Scheme (c_baseURL c) = ''https''"
proof -
  have "\<not> contains (cfg_Endpoint sample_config) ''://''" "ssl_scheme (tls_SSL (cfg_TLS sample_config)) = ''https''"
    by code_simp+
  with NewFromConfig_scheme [OF sample_config_client] show ?thesis using sample_config_client by auto
qed

lemma S3Endpoint_advertised_witness:
  "\<exists>c. NewFromConfig scripted sample_config = Ok c \<and> c_s3UseSSL c \<and> S3Endpoint c = ''http://s3.example''"
proof -
  have "cfg_S3Endpoint sample_config = ''http://s3.example''" "contains ''http://s3.example'' ''://''"
    by code_simp+
  with S3Endpoint_advertised [OF sample_config_client] show ?thesis
    using sample_config_client by (intro exI conjI) (assumption, simp_all)
qed

end
