(* ===== verification/DriverConfig.thy ===== *)
theory DriverConfig
  imports Errors
begin

text \<open>
  The driver's configuration file (\<open>pkg/config/config.go\<close>): mode, overrides and injected errors. The
  YAML decoder is a library; the mode's own unmarshaller takes the decoder's result.
\<close>

record StatusError =
  se_Message :: string
  se_Code :: grpc_code

record Errors =
  er_GetInfo :: "StatusError option"
  er_CreateBucket :: "StatusError option"
  er_DeleteBucket :: "StatusError option"
  er_GrantBucketAccess :: "StatusError option"
  er_RevokeBucketAccess :: "StatusError option"

record Overrides =
  ov_BucketID :: string

record Config =
  dc_Mode :: string
  dc_Overrides :: Overrides
  dc_Errors :: Errors

definition ModeAzure :: string where "ModeAzure = ''azure:impl''"
definition ModeAzureFake :: string where "ModeAzureFake = ''azure:fake''"
definition ModeS3 :: string where "ModeS3 = ''s3:impl''"
definition ModeS3Fake :: string where "ModeS3Fake = ''s3:fake''"

text \<open>\<open>config.Config{}\<close>, which decoding a document without members leaves as it is.\<close>

definition zero_Config :: Config where
  "zero_Config = \<lparr>dc_Mode = [], dc_Overrides = \<lparr>ov_BucketID = []\<rparr>,
     dc_Errors = \<lparr>er_GetInfo = None, er_CreateBucket = None, er_DeleteBucket = None,
       er_GrantBucketAccess = None, er_RevokeBucketAccess = None\<rparr>\<rparr>"

definition Mode_UnmarshalYAML :: "gerror + string \<Rightarrow> (string, gerror) outcome" where
  "Mode_UnmarshalYAML decoded =
     (case decoded of
        Inl e \<Rightarrow> Err (Wrapped ''invalid mode value: '' e)
      | Inr modeStr \<Rightarrow>
          if modeStr \<in> {ModeAzure, ModeAzureFake, ModeS3, ModeS3Fake} then Ok modeStr
          else Err (Quoted ''unsupported mode: '' modeStr []))"

text \<open>\<open>StatusError.Error\<close>, which is only logged.\<close>

definition code_number :: "grpc_code \<Rightarrow> int" where
  "code_number c =
     (case c of OK \<Rightarrow> 0 | Canceled \<Rightarrow> 1 | Unknown \<Rightarrow> 2 | InvalidArgument \<Rightarrow> 3 | DeadlineExceeded \<Rightarrow> 4
      | NotFound \<Rightarrow> 5 | AlreadyExists \<Rightarrow> 6 | PermissionDenied \<Rightarrow> 7 | ResourceExhausted \<Rightarrow> 8
      | FailedPrecondition \<Rightarrow> 9 | Aborted \<Rightarrow> 10 | OutOfRange \<Rightarrow> 11 | Unimplemented \<Rightarrow> 12 | Internal \<Rightarrow> 13
      | Unavailable \<Rightarrow> 14 | DataLoss \<Rightarrow> 15 | Unauthenticated \<Rightarrow> 16 | OtherCode n \<Rightarrow> uint n)"

definition StatusError_Error :: "StatusError \<Rightarrow> string" where
  "StatusError_Error err = se_Message err @ '' (code '' @ format_int (code_number (se_Code err)) @ '')''"

text \<open>\<open>status.Error(err.Code, err.Message)\<close> of an injected error: nil when its code is \<open>OK\<close>.\<close>

definition injected_error :: "StatusError \<Rightarrow> ('a option, gerror, 'w) io" where
  "injected_error se =
     (case status_error (se_Code se) (se_Message se) of
        None \<Rightarrow> io_ok None
      | Some e \<Rightarrow> io_err e)"

end
