(* ===== verification/Provisioner.thy ===== *)
theory Provisioner
  imports Contracts DriverConfig
begin

text \<open>
  The COSI provisioner service (\<open>pkg/driver/provisioner.go\<close>): the four RPC handlers over any backend.
  A handler's response is optional because \<open>status.Error\<close> with the code \<open>OK\<close> is a nil error, so that a
  handler can return a nil response without an error.
\<close>

section \<open>Server, requests and responses\<close>

type_synonym 'w loader = "ctx \<Rightarrow> string \<Rightarrow> ('w backend option, gerror, 'w) io"

record 'w ProvisionerServer =
  ps_Client :: "'w backend option"
  ps_Config :: Config
  ps_Tenant :: "'w loader option"

record DriverCreateBucketRequest =
  cb_Name :: string
  cb_Parameters :: params

record DriverDeleteBucketRequest =
  db_BucketId :: string
  db_Parameters :: params

record DriverGrantBucketAccessRequest =
  gb_AccountName :: string
  gb_Buckets :: "string list"
  gb_Parameters :: params

record DriverRevokeBucketAccessRequest =
  rb_AccountId :: string
  rb_Buckets :: "string list"
  rb_Parameters :: params

datatype addressing_style = S3AddressingStyle_PATH

record S3BucketInfo =
  si_BucketId :: string
  si_Endpoint :: string
  si_Region :: string
  si_AddressingStyle :: addressing_style

text \<open>\<open>ObjectProtocolAndBucketInfo\<close>: the Azure part carries no data.\<close>

record ProtocolAndBucketInfo =
  pi_S3 :: "S3BucketInfo option"
  pi_Azure :: "unit option"

record DriverCreateBucketResponse =
  cr_BucketId :: string
  cr_Protocols :: ProtocolAndBucketInfo

record CredentialInfo =
  ci_S3 :: "(string \<times> string) option"
  ci_Azure :: "string option"

record GrantBucketInfo =
  bi_BucketId :: string
  bi_BucketInfo :: ProtocolAndBucketInfo

record DriverGrantBucketAccessResponse =
  gr_AccountId :: string
  gr_Buckets :: "GrantBucketInfo list"
  gr_Credentials :: "CredentialInfo option"

section \<open>Helpers\<close>

definition TenantNamespaceParam :: string where
  "TenantNamespaceParam = ''cosi.tenantNamespace''"

text \<open>A method call through the interface value: a nil interface panics.\<close>

definition call :: "'w backend option \<Rightarrow> ('w backend \<Rightarrow> ('a, gerror, 'w) io) \<Rightarrow> ('a, gerror, 'w) io" where
  "call client f =
     (case client of None \<Rightarrow> io_panic ''nil pointer dereference'' | Some b \<Rightarrow> f b)"

definition resolveClient ::
  "'w ProvisionerServer \<Rightarrow> ctx \<Rightarrow> params \<Rightarrow> ('w backend option, gerror, 'w) io" where
  "resolveClient s cx parameters =
     (case ps_Tenant s of
        None \<Rightarrow> io_ok (ps_Client s)
      | Some load \<Rightarrow>
          let ns = param_get parameters TenantNamespaceParam in
          if ns = [] then io_ok (ps_Client s)
          else io_handle (load cx ns)
                 (\<lambda>e. io_err (StatusErrf Unavailable e)) io_ok)"

definition getName :: "'w ProvisionerServer \<Rightarrow> string \<Rightarrow> string \<times> bool" where
  "getName s name =
     (let ident = ov_BucketID (dc_Overrides (ps_Config s)) in
      if ident \<noteq> [] then (ident, False) else (name, True))"

definition getBucketID :: "'w ProvisionerServer \<Rightarrow> string \<Rightarrow> string" where
  "getBucketID s bucketId =
     (let ident = ov_BucketID (dc_Overrides (ps_Config s)) in
      if ident \<noteq> [] then ident else bucketId)"

definition s3_bucket_info :: "'w backend \<Rightarrow> string \<Rightarrow> S3BucketInfo" where
  "s3_bucket_info b bucket =
     \<lparr>si_BucketId = bucket, si_Endpoint = bk_S3Endpoint b, si_Region = bk_S3Region b,
      si_AddressingStyle = S3AddressingStyle_PATH\<rparr>"

definition bucketProtocols :: "'w backend \<Rightarrow> string \<Rightarrow> ProtocolAndBucketInfo" where
  "bucketProtocols b bucketName =
     (case bk_ProtocolInfo b of
        ObjectProtocol_S3 \<Rightarrow> \<lparr>pi_S3 = Some (s3_bucket_info b bucketName), pi_Azure = None\<rparr>
      | ObjectProtocol_AZURE \<Rightarrow> \<lparr>pi_S3 = None, pi_Azure = Some ()\<rparr>
      | _ \<Rightarrow> \<lparr>pi_S3 = None, pi_Azure = None\<rparr>)"

definition create_response :: "'w backend \<Rightarrow> string \<Rightarrow> DriverCreateBucketResponse" where
  "create_response b bucketName =
     \<lparr>cr_BucketId = bucketName, cr_Protocols = bucketProtocols b bucketName\<rparr>"

section \<open>DriverCreateBucket\<close>

text \<open>The part of the handler from the existence check on, for the client it resolved.\<close>

definition create_or_reuse ::
  "'w backend \<Rightarrow> ctx \<Rightarrow> string \<Rightarrow> bool \<Rightarrow> params \<Rightarrow>
   (DriverCreateBucketResponse option, gerror, 'w) io" where
  "create_or_reuse b cx bucketName overridden parameters =
     io_handle (bk_BucketExists b cx bucketName)
       (\<lambda>e. io_err (StatusErrf Internal e))
       (\<lambda>exists.
          if exists then
            (if overridden then io_ok (Some (create_response b bucketName))
             else io_handle (bk_IsBucketEqual b cx bucketName parameters)
               (\<lambda>e. io_err (StatusErrf Internal e))
               (\<lambda>equal.
                  if equal then io_ok (Some (create_response b bucketName))
                  else io_err (Status AlreadyExists (''bucket already exists: '' @ bucketName))))
          else io_handle (bk_CreateBucket b cx bucketName parameters)
            (\<lambda>e. if is_quota e then io_err (StatusErrf ResourceExhausted e) else io_err e)
            (\<lambda>_. io_ok (Some (create_response b bucketName))))"

definition DriverCreateBucket ::
  "'w ProvisionerServer \<Rightarrow> ctx \<Rightarrow> DriverCreateBucketRequest \<Rightarrow>
   (DriverCreateBucketResponse option, gerror, 'w) io" where
  "DriverCreateBucket s cx req =
     io_bind (resolveClient s cx (cb_Parameters req)) (\<lambda>client.
       case getName s (cb_Name req) of (bucketName, overridden) \<Rightarrow>
       case er_CreateBucket (dc_Errors (ps_Config s)) of
         Some se \<Rightarrow> injected_error se
       | None \<Rightarrow> call client (\<lambda>b. create_or_reuse b cx bucketName overridden (cb_Parameters req)))"

section \<open>DriverDeleteBucket\<close>

definition DriverDeleteBucket ::
  "'w ProvisionerServer \<Rightarrow> ctx \<Rightarrow> DriverDeleteBucketRequest \<Rightarrow> (unit option, gerror, 'w) io" where
  "DriverDeleteBucket s cx req =
     io_bind (resolveClient s cx (db_Parameters req)) (\<lambda>client.
       let bucketId = getBucketID s (db_BucketId req) in
       case er_DeleteBucket (dc_Errors (ps_Config s)) of
         Some se \<Rightarrow> injected_error se
       | None \<Rightarrow> call client (\<lambda>b.
           io_handle (bk_DeleteBucket b cx bucketId)
             (\<lambda>e. io_err (StatusErrf Internal e))
             (\<lambda>_. io_ok (Some ()))))"

section \<open>DriverGrantBucketAccess\<close>

definition credential_info :: "'w user_iface \<Rightarrow> (CredentialInfo, gerror, 'w) io" where
  "credential_info access w =
     (case ui_Credentials access w of (creds, w') \<Rightarrow>
        (Ok (if ui_Platform access = S3Key then
               \<lparr>ci_S3 = Some (cred_get creds S3SecretAccessKeyID, cred_get creds S3SecretAccessSecretKey),
                ci_Azure = None\<rparr>
             else if ui_Platform access = AzureKey then
               \<lparr>ci_S3 = None, ci_Azure = Some (cred_get creds AzureSecretAccessToken)\<rparr>
             else \<lparr>ci_S3 = None, ci_Azure = None\<rparr>), w'))"

text \<open>One iteration of the loop: existence, access, credentials.\<close>

definition grant_bucket ::
  "'w backend \<Rightarrow> ctx \<Rightarrow> string \<Rightarrow> string \<Rightarrow> (GrantBucketInfo \<times> CredentialInfo, gerror, 'w) io" where
  "grant_bucket b cx name bucketId =
     io_handle (bk_BucketExists b cx bucketId)
       (\<lambda>e. io_err (StatusErrf Internal e))
       (\<lambda>exists.
          if \<not> exists then io_err (StatusErrf NotFound ErrBucketNotFound)
          else io_handle (bk_CreateBucketAccess b cx bucketId name)
            (\<lambda>e. if is_quota e then io_err (StatusErrf ResourceExhausted e)
                  else io_err (StatusErrf Internal e))
            (\<lambda>access. io_bind (credential_info access) (\<lambda>ci.
               io_ok (\<lparr>bi_BucketId = bucketId,
                       bi_BucketInfo = \<lparr>pi_S3 = Some (s3_bucket_info b bucketId), pi_Azure = None\<rparr>\<rparr>,
                      ci))))"

fun grant_loop ::
  "'w backend \<Rightarrow> ctx \<Rightarrow> string \<Rightarrow> string list \<Rightarrow> GrantBucketInfo list \<Rightarrow> CredentialInfo option \<Rightarrow>
   (GrantBucketInfo list \<times> CredentialInfo option, gerror, 'w) io" where
  "grant_loop b cx name [] infos creds = io_ok (infos, creds)"
| "grant_loop b cx name (bucketId # rest) infos creds =
     io_bind (grant_bucket b cx name bucketId)
       (\<lambda>(info, ci). grant_loop b cx name rest (infos @ [info]) (Some ci))"

definition DriverGrantBucketAccess ::
  "'w ProvisionerServer \<Rightarrow> ctx \<Rightarrow> DriverGrantBucketAccessRequest \<Rightarrow>
   (DriverGrantBucketAccessResponse option, gerror, 'w) io" where
  "DriverGrantBucketAccess s cx req =
     io_bind (resolveClient s cx (gb_Parameters req)) (\<lambda>client.
       if gb_Buckets req = [] then
         io_err (Status InvalidArgument ''grant request contains no buckets'')
       else case er_GrantBucketAccess (dc_Errors (ps_Config s)) of
         Some se \<Rightarrow> injected_error se
       | None \<Rightarrow> call client (\<lambda>b.
           io_bind (grant_loop b cx (gb_AccountName req) (gb_Buckets req) [] None)
             (\<lambda>(infos, creds).
                io_ok (Some \<lparr>gr_AccountId = gb_AccountName req, gr_Buckets = infos,
                             gr_Credentials = creds\<rparr>))))"

section \<open>DriverRevokeBucketAccess\<close>

fun revoke_loop ::
  "'w ProvisionerServer \<Rightarrow> 'w backend \<Rightarrow> ctx \<Rightarrow> string \<Rightarrow> string list \<Rightarrow> (unit, gerror, 'w) io" where
  "revoke_loop s b cx accountId [] = io_ok ()"
| "revoke_loop s b cx accountId (bucketId # rest) =
     io_handle (bk_DeleteBucketAccess b cx (getBucketID s bucketId) accountId)
       (\<lambda>e. io_err (StatusErrf Internal e))
       (\<lambda>_. revoke_loop s b cx accountId rest)"

definition DriverRevokeBucketAccess ::
  "'w ProvisionerServer \<Rightarrow> ctx \<Rightarrow> DriverRevokeBucketAccessRequest \<Rightarrow>
   (unit option, gerror, 'w) io" where
  "DriverRevokeBucketAccess s cx req =
     io_bind (resolveClient s cx (rb_Parameters req)) (\<lambda>client.
       if rb_Buckets req = [] then
         io_err (Status InvalidArgument ''revoke request contains no buckets'')
       else case er_RevokeBucketAccess (dc_Errors (ps_Config s)) of
         Some se \<Rightarrow> injected_error se
       | None \<Rightarrow> call client (\<lambda>b.
           io_bind (revoke_loop s b cx (rb_AccountId req) (rb_Buckets req)) (\<lambda>_. io_ok (Some ()))))"

section \<open>Servers that cannot panic\<close>

locale safe_server =
  fixes s :: "'w ProvisionerServer"
  assumes client_safe: "\<exists>b. ps_Client s = Some b \<and> safe_backend b"
    and loader_safe: "ps_Tenant s = Some load \<Longrightarrow> no_panic (fst (load cx ns w))"
    and tenant_safe: "ps_Tenant s = Some load \<Longrightarrow> load cx ns w = (Ok r, w1) \<Longrightarrow>
      \<exists>b. r = Some b \<and> safe_backend b"

lemma injected_error_no_panic: "no_panic (fst (injected_error se w))"
  by (simp add: injected_error_def io_ok_def io_err_def split: option.split)

lemma credential_info_no_panic: "no_panic (fst (credential_info access w))"
  by (simp add: credential_info_def split: prod.split)

lemma io_err_no_panic [simp]: "no_panic (fst (io_err e w))" and io_ok_no_panic [simp]: "no_panic (fst (io_ok x w))"
  by (simp_all add: io_err_def io_ok_def)

context safe_backend begin

lemma create_or_reuse_safe: "no_panic (fst (create_or_reuse b cx n ov ps w))"
  unfolding create_or_reuse_def
  by (auto simp: exists_safe create_safe intro!: io_handle_no_panic equal_safe)

lemma grant_bucket_safe: "no_panic (fst (grant_bucket b cx u n w))"
  unfolding grant_bucket_def
  by (auto simp: exists_safe grant_safe credential_info_no_panic intro!: io_handle_no_panic io_bind_no_panic)

lemma grant_loop_safe: "no_panic (fst (grant_loop b cx u ns infos cr w))"
  by (induction ns arbitrary: infos cr w)
    (auto simp: grant_bucket_safe split: prod.split intro!: io_bind_no_panic)

lemma revoke_loop_safe: "no_panic (fst (revoke_loop s b cx u ns w))"
  by (induction ns arbitrary: w) (auto simp: revoke_safe intro!: io_handle_no_panic)

end

context safe_server begin

lemma resolve_safe: "no_panic (fst (resolveClient s cx ps w))"
  unfolding resolveClient_def Let_def
  by (auto simp: loader_safe split: option.split intro!: io_handle_no_panic)

lemma resolved_safe:
  assumes "resolveClient s cx ps w = (Ok r, w1)"
  shows "\<exists>b. r = Some b \<and> safe_backend b"
proof (cases "ps_Tenant s")
  case None
  with assms client_safe show ?thesis by (simp add: resolveClient_def io_ok_def)
next
  case (Some load)
  show ?thesis
  proof (cases "param_get ps TenantNamespaceParam = []")
    case True
    with assms Some client_safe show ?thesis by (simp add: resolveClient_def io_ok_def)
  next
    case False
    with assms Some have "load cx (param_get ps TenantNamespaceParam) w = (Ok r, w1)"
      by (auto simp: resolveClient_def io_simps split: prod.splits outcome.splits)
    with tenant_safe [OF Some] show ?thesis by blast
  qed
qed

text \<open>Each handler resolves the client and goes on with it.\<close>

lemma handler_safe:
  assumes "\<And>b w1. safe_backend b \<Longrightarrow> no_panic (fst (f (Some b) w1))"
  shows "no_panic (fst (io_bind (resolveClient s cx ps) f w))"
  by (rule io_bind_no_panic [OF resolve_safe]) (use resolved_safe assms in blast)

lemma DriverCreateBucket_safe: "no_panic (fst (DriverCreateBucket s cx req w))"
  unfolding DriverCreateBucket_def
  by (rule handler_safe)
    (auto simp: injected_error_no_panic call_def safe_backend.create_or_reuse_safe split: prod.split option.split)

lemma DriverDeleteBucket_safe: "no_panic (fst (DriverDeleteBucket s cx req w))"
  unfolding DriverDeleteBucket_def Let_def
  by (rule handler_safe)
    (auto simp: injected_error_no_panic call_def safe_backend.delete_safe split: option.split
      intro!: io_handle_no_panic)

lemma DriverGrantBucketAccess_safe: "no_panic (fst (DriverGrantBucketAccess s cx req w))"
  unfolding DriverGrantBucketAccess_def
  by (rule handler_safe)
    (auto simp: injected_error_no_panic call_def safe_backend.grant_loop_safe split: option.split prod.split
      intro!: io_bind_no_panic)

lemma DriverRevokeBucketAccess_safe: "no_panic (fst (DriverRevokeBucketAccess s cx req w))"
  unfolding DriverRevokeBucketAccess_def
  by (rule handler_safe)
    (auto simp: injected_error_no_panic call_def safe_backend.revoke_loop_safe split: option.split
      intro!: io_bind_no_panic)

lemmas handlers_safe =
  DriverCreateBucket_safe DriverDeleteBucket_safe DriverGrantBucketAccess_safe DriverRevokeBucketAccess_safe

end

section \<open>Properties of DriverCreateBucket\<close>

lemma DriverCreateBucket_resolved:
  assumes "resolveClient s cx (cb_Parameters req) w = (Ok (Some b), w1)"
    "er_CreateBucket (dc_Errors (ps_Config s)) = None"
  shows "DriverCreateBucket s cx req w =
    create_or_reuse b cx (fst (getName s (cb_Name req))) (snd (getName s (cb_Name req))) (cb_Parameters req) w1"
  using assms by (simp add: DriverCreateBucket_def io_bind_def call_def split: prod.split)

text \<open>
  C30: Without an override, DriverCreateBucket answers for an existing bucket of the requested
  name with success, whatever its parameters are: the comparison is never made. The flag that
  getName returns is the negation of what its caller takes it for, so the AlreadyExists of the
  handler's comment is out of reach for ordinary requests.
\<close>

theorem DriverCreateBucket_reuses_without_comparison:
  assumes "resolveClient s cx (cb_Parameters req) w = (Ok (Some b), w1)"
    and "er_CreateBucket (dc_Errors (ps_Config s)) = None"
    and "ov_BucketID (dc_Overrides (ps_Config s)) = []"
    and "bk_BucketExists b cx (cb_Name req) w1 = (Ok True, w2)"
  shows "DriverCreateBucket s cx req w = (Ok (Some (create_response b (cb_Name req))), w2)"
  using assms(3,4)
  by (simp add: DriverCreateBucket_resolved [OF assms(1,2)] getName_def create_or_reuse_def io_simps)

text \<open>
  With a bucket override that exists, DriverCreateBucket returns that bucket if it is
  equal, AlreadyExists if it differs, and Internal if the comparison fails.
\<close>

theorem DriverCreateBucket_compares_override:
  assumes "resolveClient s cx (cb_Parameters req) w = (Ok (Some b), w1)"
    and "er_CreateBucket (dc_Errors (ps_Config s)) = None"
    and "ov_BucketID (dc_Overrides (ps_Config s)) = n" "n \<noteq> []"
    and "bk_BucketExists b cx n w1 = (Ok True, w2)"
  shows "DriverCreateBucket s cx req w =
    (case bk_IsBucketEqual b cx n (cb_Parameters req) w2 of
       (Ok True, w3) \<Rightarrow> (Ok (Some (create_response b n)), w3)
     | (Ok False, w3) \<Rightarrow> (Err (Status AlreadyExists (''bucket already exists: '' @ n)), w3)
     | (Err e, w3) \<Rightarrow> (Err (StatusErrf Internal e), w3)
     | (Panic p, w3) \<Rightarrow> (Panic p, w3))"
  using assms(3-5)
  by (auto simp: DriverCreateBucket_resolved [OF assms(1,2)] getName_def create_or_reuse_def io_simps
      split: prod.split outcome.split bool.split)

text \<open>
  If the bucket does not exist, DriverCreateBucket creates it and answers with its name and
  protocols; a quota error becomes ResourceExhausted and any other error is passed on unchanged.
\<close>

theorem DriverCreateBucket_creates:
  assumes "resolveClient s cx (cb_Parameters req) w = (Ok (Some b), w1)"
    and "er_CreateBucket (dc_Errors (ps_Config s)) = None"
    and "n = fst (getName s (cb_Name req))"
    and "bk_BucketExists b cx n w1 = (Ok False, w2)"
  shows "DriverCreateBucket s cx req w =
    (case bk_CreateBucket b cx n (cb_Parameters req) w2 of
       (Ok _, w3) \<Rightarrow> (Ok (Some (create_response b n)), w3)
     | (Err e, w3) \<Rightarrow> (Err (if is_quota e then StatusErrf ResourceExhausted e else e), w3)
     | (Panic p, w3) \<Rightarrow> (Panic p, w3))"
  using assms(4)
  by (auto simp: DriverCreateBucket_resolved [OF assms(1,2)] assms(3) create_or_reuse_def io_simps
      split: prod.split outcome.split)

section \<open>Injected errors\<close>

text \<open>The server with other injected errors, and how an injected error ends an RPC.\<close>

definition with_errors :: "'w ProvisionerServer \<Rightarrow> Errors \<Rightarrow> 'w ProvisionerServer" where
  "with_errors s errs = s\<lparr>ps_Config := (ps_Config s)\<lparr>dc_Errors := errs\<rparr>\<rparr>"

definition injected_outcome :: "StatusError \<Rightarrow> ('a option, gerror) outcome" where
  "injected_outcome se = (if se_Code se = OK then Ok None else Err (Status (se_Code se) (se_Message se)))"

lemma injected_error_outcome: "injected_error se w = (injected_outcome se, w)"
  by (simp add: injected_error_def injected_outcome_def status_error_def io_simps)

lemma with_errors_simps [simp]:
  "resolveClient (with_errors s errs) = resolveClient s" "getName (with_errors s errs) = getName s"
  "getBucketID (with_errors s errs) = getBucketID s" "ps_Tenant (with_errors s errs) = ps_Tenant s" "dc_Errors (ps_Config (with_errors s errs)) = errs"
  by (simp_all add: with_errors_def resolveClient_def getName_def getBucketID_def fun_eq_iff Let_def split: option.split)

lemma revoke_loop_with_errors [simp]: "revoke_loop (with_errors s errs) b cx u ns = revoke_loop s b cx u ns"
  by (induction ns) simp_all

lemma own_error_only:
  "er_CreateBucket errs = er_CreateBucket errs1 \<Longrightarrow>
    DriverCreateBucket (with_errors s errs) cx cb = DriverCreateBucket (with_errors s errs1) cx cb"
  "er_DeleteBucket errs = er_DeleteBucket errs1 \<Longrightarrow>
    DriverDeleteBucket (with_errors s errs) cx db = DriverDeleteBucket (with_errors s errs1) cx db"
  "er_GrantBucketAccess errs = er_GrantBucketAccess errs1 \<Longrightarrow>
    DriverGrantBucketAccess (with_errors s errs) cx gb = DriverGrantBucketAccess (with_errors s errs1) cx gb"
  "er_RevokeBucketAccess errs = er_RevokeBucketAccess errs1 \<Longrightarrow>
    DriverRevokeBucketAccess (with_errors s errs) cx rb = DriverRevokeBucketAccess (with_errors s errs1) cx rb"
  unfolding DriverCreateBucket_def DriverDeleteBucket_def DriverGrantBucketAccess_def DriverRevokeBucketAccess_def
    with_errors_simps revoke_loop_with_errors
  by (simp_all only:)

text \<open>
  C29: When the client is resolved, a create or delete with an error injected for it, and a
  grant or revoke of at least one bucket with an error injected for it, ends with that error,
  with nothing else done; if the injected code is OK, it ends without an error and without a
  response. Every handler consults only the error of its own RPC: whatever is injected for the
  others, it behaves the same.
\<close>

theorem injected_errors:
  assumes "resolveClient s cx ps w = (Ok client, w1)"
  shows "(er_CreateBucket errs = Some se \<longrightarrow>
      DriverCreateBucket (with_errors s errs) cx \<lparr>cb_Name = n, cb_Parameters = ps\<rparr> w = (injected_outcome se, w1)) \<and>
    (er_DeleteBucket errs = Some se \<longrightarrow>
      DriverDeleteBucket (with_errors s errs) cx \<lparr>db_BucketId = n, db_Parameters = ps\<rparr> w = (injected_outcome se, w1)) \<and>
    (er_GrantBucketAccess errs = Some se \<and> bs \<noteq> [] \<longrightarrow>
      DriverGrantBucketAccess (with_errors s errs) cx \<lparr>gb_AccountName = u, gb_Buckets = bs, gb_Parameters = ps\<rparr> w =
        (injected_outcome se, w1)) \<and>
    (er_RevokeBucketAccess errs = Some se \<and> bs \<noteq> [] \<longrightarrow>
      DriverRevokeBucketAccess (with_errors s errs) cx \<lparr>rb_AccountId = u, rb_Buckets = bs, rb_Parameters = ps\<rparr> w =
        (injected_outcome se, w1)) \<and>
    (er_CreateBucket errs = er_CreateBucket errs1 \<longrightarrow>
      DriverCreateBucket (with_errors s errs) cx cb w = DriverCreateBucket (with_errors s errs1) cx cb w) \<and>
    (er_DeleteBucket errs = er_DeleteBucket errs1 \<longrightarrow>
      DriverDeleteBucket (with_errors s errs) cx db w = DriverDeleteBucket (with_errors s errs1) cx db w) \<and>
    (er_GrantBucketAccess errs = er_GrantBucketAccess errs1 \<longrightarrow>
      DriverGrantBucketAccess (with_errors s errs) cx gb w = DriverGrantBucketAccess (with_errors s errs1) cx gb w) \<and>
    (er_RevokeBucketAccess errs = er_RevokeBucketAccess errs1 \<longrightarrow>
      DriverRevokeBucketAccess (with_errors s errs) cx rb w = DriverRevokeBucketAccess (with_errors s errs1) cx rb w)"
proof -
  have "er_CreateBucket errs = Some se \<Longrightarrow>
      DriverCreateBucket (with_errors s errs) cx \<lparr>cb_Name = n, cb_Parameters = ps\<rparr> w = (injected_outcome se, w1)"
    using assms by (simp add: DriverCreateBucket_def injected_error_outcome io_bind_def split: prod.split)
  moreover have "er_DeleteBucket errs = Some se \<Longrightarrow>
      DriverDeleteBucket (with_errors s errs) cx \<lparr>db_BucketId = n, db_Parameters = ps\<rparr> w = (injected_outcome se, w1)"
    using assms by (simp add: DriverDeleteBucket_def injected_error_outcome io_bind_def Let_def)
  moreover have "er_GrantBucketAccess errs = Some se \<Longrightarrow> bs \<noteq> [] \<Longrightarrow>
      DriverGrantBucketAccess (with_errors s errs) cx \<lparr>gb_AccountName = u, gb_Buckets = bs, gb_Parameters = ps\<rparr> w =
        (injected_outcome se, w1)"
    using assms by (simp add: DriverGrantBucketAccess_def injected_error_outcome io_bind_def)
  moreover have "er_RevokeBucketAccess errs = Some se \<Longrightarrow> bs \<noteq> [] \<Longrightarrow>
      DriverRevokeBucketAccess (with_errors s errs) cx \<lparr>rb_AccountId = u, rb_Buckets = bs, rb_Parameters = ps\<rparr> w =
        (injected_outcome se, w1)"
    using assms by (simp add: DriverRevokeBucketAccess_def injected_error_outcome io_bind_def)
  ultimately show ?thesis using own_error_only [of errs errs1 s cx] by simp
qed

section \<open>Properties of DriverGrantBucketAccess\<close>

definition grant_info :: "'w backend \<Rightarrow> string \<Rightarrow> GrantBucketInfo" where
  "grant_info b bucketId =
     \<lparr>bi_BucketId = bucketId,
      bi_BucketInfo = \<lparr>pi_S3 = Some (s3_bucket_info b bucketId), pi_Azure = None\<rparr>\<rparr>"

lemma grant_bucket_info:
  "grant_bucket b cx u n w = (Ok (info, ci), w1) \<Longrightarrow> info = grant_info b n"
  by (auto simp: grant_bucket_def grant_info_def io_simps split: prod.splits outcome.splits if_splits)

lemma grant_loop_result:
  "grant_loop b cx u ns infos cr w = (Ok (infos', cr'), w1) \<Longrightarrow>
   infos' = infos @ map (grant_info b) ns \<and> (ns \<noteq> [] \<longrightarrow> cr' \<noteq> None) \<and> (ns = [] \<longrightarrow> cr' = cr)"
proof (induction ns arbitrary: infos cr w)
  case Nil
  then show ?case by (simp add: io_ok_def)
next
  case (Cons n ns)
  then obtain info ci w2 where step: "grant_bucket b cx u n w = (Ok (info, ci), w2)"
    "grant_loop b cx u ns (infos @ [info]) (Some ci) w2 = (Ok (infos', cr'), w1)"
    by (auto simp: io_bind_Ok_iff)
  from Cons.IH [OF step(2)] grant_bucket_info [OF step(1)] show ?case by auto
qed

text \<open>
  A grant that succeeds answers with the requested account, one entry per requested bucket
  in the order of the request, each with the endpoint and region of the client, and with
  credentials.
\<close>

theorem DriverGrantBucketAccess_response:
  assumes "resolveClient s cx (gb_Parameters req) w = (Ok (Some b), w1)"
    and "er_GrantBucketAccess (dc_Errors (ps_Config s)) = None"
    and "DriverGrantBucketAccess s cx req w = (Ok resp, w')"
  shows "\<exists>ci. gb_Buckets req \<noteq> [] \<and>
    resp = Some \<lparr>gr_AccountId = gb_AccountName req, gr_Buckets = map (grant_info b) (gb_Buckets req),
                 gr_Credentials = Some ci\<rparr>"
proof -
  from assms obtain infos cr where loop: "gb_Buckets req \<noteq> []"
    "grant_loop b cx (gb_AccountName req) (gb_Buckets req) [] None w1 = (Ok (infos, cr), w')"
    "resp = Some \<lparr>gr_AccountId = gb_AccountName req, gr_Buckets = infos, gr_Credentials = cr\<rparr>"
    by (auto simp: DriverGrantBucketAccess_def io_bind_def call_def io_simps split: if_splits prod.splits outcome.splits)
  from grant_loop_result [OF loop(2)] loop show ?thesis by auto
qed

lemma grant_bucket_codes:
  "grant_bucket b cx u n w = (Err e, w1) \<Longrightarrow> status_code e \<in> {Internal, NotFound, ResourceExhausted}"
  by (auto simp: grant_bucket_def credential_info_def io_simps split: prod.splits outcome.splits if_splits)

lemma grant_loop_codes:
  "grant_loop b cx u ns infos cr w = (Err e, w1) \<Longrightarrow> status_code e \<in> {Internal, NotFound, ResourceExhausted}"
proof (induction ns arbitrary: infos cr w)
  case Nil
  then show ?case by (simp add: io_ok_def)
next
  case (Cons n ns)
  show ?case
  proof (cases "grant_bucket b cx u n w")
    case (Pair r w2)
    with Cons grant_bucket_codes [of b cx u n w] show ?thesis
      by (cases r) (auto simp: io_bind_def)
  qed
qed

text \<open>
  A grant that fails ends with InvalidArgument, which is only for a request without
  buckets, or with Internal, NotFound, ResourceExhausted or Unavailable.
\<close>

theorem DriverGrantBucketAccess_codes:
  assumes "er_GrantBucketAccess (dc_Errors (ps_Config s)) = None"
    and "DriverGrantBucketAccess s cx req w = (Err e, w')"
  shows "status_code e \<in> {InvalidArgument, Internal, NotFound, ResourceExhausted, Unavailable} \<and>
    (status_code e = InvalidArgument \<longleftrightarrow> e = Status InvalidArgument ''grant request contains no buckets'')"
proof (cases "resolveClient s cx (gb_Parameters req) w")
  case (Pair r w1)
  show ?thesis
  proof (cases r)
    case (Ok client)
    note r = Pair [unfolded Ok]
    show ?thesis
    proof (cases "gb_Buckets req = []")
      case True
      with r assms show ?thesis by (auto simp: DriverGrantBucketAccess_def io_simps)
    next
      case False
      with r assms obtain b where "client = Some b"
        "fst (grant_loop b cx (gb_AccountName req) (gb_Buckets req) [] None w1) = Err e"
        by (auto simp: DriverGrantBucketAccess_def call_def io_simps split: option.splits prod.splits outcome.splits)
      with grant_loop_codes [of b cx "gb_AccountName req" "gb_Buckets req" "[]" None w1 e]
      have "status_code e \<in> {Internal, NotFound, ResourceExhausted}" by (metis prod.collapse)
      then show ?thesis by auto
    qed
  next
    case (Err e')
    with Pair assms show ?thesis
      by (auto simp: DriverGrantBucketAccess_def resolveClient_def io_simps Let_def
          split: option.splits if_splits prod.splits outcome.splits)
  next
    case (Panic p)
    with Pair assms show ?thesis by (auto simp: DriverGrantBucketAccess_def io_simps)
  qed
qed

text \<open>
  Granting access does not depend on the bucket override of the configuration.
\<close>

theorem DriverGrantBucketAccess_ignores_override:
  "DriverGrantBucketAccess (s\<lparr>ps_Config := (ps_Config s)\<lparr>dc_Overrides := ov\<rparr>\<rparr>) cx req w =
   DriverGrantBucketAccess s cx req w"
proof -
  have "resolveClient (s\<lparr>ps_Config := cfg\<rparr>) = resolveClient s" for cfg
    by (auto simp: resolveClient_def fun_eq_iff Let_def split: option.split)
  moreover have "dc_Errors (ps_Config (s\<lparr>ps_Config := (ps_Config s)\<lparr>dc_Overrides := ov\<rparr>\<rparr>)) = dc_Errors (ps_Config s)"
    by simp
  ultimately show ?thesis by (simp only: DriverGrantBucketAccess_def)
qed

section \<open>Tenants\<close>

text \<open>
  C25: In multi-tenant mode a request that carries a tenant namespace behaves the same whatever
  the driver's own client is.
\<close>

theorem tenant_requests_ignore_own_client:
  assumes "ps_Tenant s = Some load" "param_get ps TenantNamespaceParam \<noteq> []"
  shows
    "DriverCreateBucket (s\<lparr>ps_Client := c\<rparr>) cx \<lparr>cb_Name = n, cb_Parameters = ps\<rparr> w =
       DriverCreateBucket s cx \<lparr>cb_Name = n, cb_Parameters = ps\<rparr> w \<and>
     DriverDeleteBucket (s\<lparr>ps_Client := c\<rparr>) cx \<lparr>db_BucketId = n, db_Parameters = ps\<rparr> w =
       DriverDeleteBucket s cx \<lparr>db_BucketId = n, db_Parameters = ps\<rparr> w \<and>
     DriverGrantBucketAccess (s\<lparr>ps_Client := c\<rparr>) cx \<lparr>gb_AccountName = u, gb_Buckets = bs, gb_Parameters = ps\<rparr> w =
       DriverGrantBucketAccess s cx \<lparr>gb_AccountName = u, gb_Buckets = bs, gb_Parameters = ps\<rparr> w \<and>
     DriverRevokeBucketAccess (s\<lparr>ps_Client := c\<rparr>) cx \<lparr>rb_AccountId = u, rb_Buckets = bs, rb_Parameters = ps\<rparr> w =
       DriverRevokeBucketAccess s cx \<lparr>rb_AccountId = u, rb_Buckets = bs, rb_Parameters = ps\<rparr> w"
proof -
  let ?t = "s\<lparr>ps_Client := c\<rparr>"
  have resolve: "resolveClient ?t cx ps = resolveClient s cx ps"
    using assms by (simp add: resolveClient_def)
  have same: "ps_Config ?t = ps_Config s" "getName ?t = getName s" "getBucketID ?t = getBucketID s"
    by (simp_all add: getName_def getBucketID_def fun_eq_iff)
  have "revoke_loop ?t b cx u bs = revoke_loop s b cx u bs" for b bs
    by (induction bs) (simp_all only: revoke_loop.simps same)
  then show ?thesis
    by (simp only: DriverCreateBucket_def DriverDeleteBucket_def DriverGrantBucketAccess_def
        DriverRevokeBucketAccess_def resolve same DriverCreateBucketRequest.simps
        DriverDeleteBucketRequest.simps DriverGrantBucketAccessRequest.simps
        DriverRevokeBucketAccessRequest.simps)
qed

text \<open>
  If a tenant's credentials cannot be loaded, every RPC ends with Unavailable and nothing
  happens after the load.
\<close>

theorem tenant_load_failure:
  assumes "ps_Tenant s = Some load" "param_get ps TenantNamespaceParam = ns" "ns \<noteq> []"
    "load cx ns w = (Err e, w1)"
  shows
    "DriverCreateBucket s cx \<lparr>cb_Name = n, cb_Parameters = ps\<rparr> w = (Err (StatusErrf Unavailable e), w1) \<and>
     DriverDeleteBucket s cx \<lparr>db_BucketId = n, db_Parameters = ps\<rparr> w = (Err (StatusErrf Unavailable e), w1) \<and>
     DriverGrantBucketAccess s cx \<lparr>gb_AccountName = u, gb_Buckets = bs, gb_Parameters = ps\<rparr> w =
       (Err (StatusErrf Unavailable e), w1) \<and>
     DriverRevokeBucketAccess s cx \<lparr>rb_AccountId = u, rb_Buckets = bs, rb_Parameters = ps\<rparr> w =
       (Err (StatusErrf Unavailable e), w1)"
  using assms
  by (simp add: DriverCreateBucket_def DriverDeleteBucket_def DriverGrantBucketAccess_def
      DriverRevokeBucketAccess_def resolveClient_def Let_def io_simps)

section \<open>A server over a bucket store\<close>

text \<open>A single-tenant server without injected errors, over any backend that keeps the store's contract.\<close>

locale store_server = bucket_store b buckets accesses
  for b :: "'w backend" and buckets accesses +
  fixes s :: "'w ProvisionerServer"
  assumes own_client: "ps_Client s = Some b"
    and single_tenant: "ps_Tenant s = None"
    and no_errors: "dc_Errors (ps_Config s) = dc_Errors zero_Config"
begin

lemma resolved: "resolveClient s cx ps w = (Ok (Some b), w)"
  by (simp add: resolveClient_def single_tenant own_client io_ok_def)

lemma not_injected [simp]:
  "er_CreateBucket (dc_Errors (ps_Config s)) = None" "er_DeleteBucket (dc_Errors (ps_Config s)) = None"
  "er_GrantBucketAccess (dc_Errors (ps_Config s)) = None" "er_RevokeBucketAccess (dc_Errors (ps_Config s)) = None"
  by (simp_all add: no_errors zero_Config_def)

lemma create_new:
  assumes "n = fst (getName s (cb_Name req))" "buckets w n = None"
  shows "\<exists>w1. DriverCreateBucket s cx req w = (Ok (Some (create_response b n)), w1) \<and>
    buckets w1 = (buckets w)(n \<mapsto> cb_Parameters req) \<and> accesses w1 = accesses w"
proof -
  have "DriverCreateBucket s cx req w = create_or_reuse b cx n (snd (getName s (cb_Name req))) (cb_Parameters req) w"
    using DriverCreateBucket_resolved [of s cx req w b w] resolved assms(1) by simp
  with create_law [of cx n "cb_Parameters req" w] exists_law [of cx n w] assms(2) show ?thesis
    by (auto simp: create_or_reuse_def io_simps)
qed

lemma create_again:
  assumes "n = fst (getName s (cb_Name req))" "snd (getName s (cb_Name req))" "buckets w n \<noteq> None"
  shows "DriverCreateBucket s cx req w = (Ok (Some (create_response b n)), w)"
proof -
  have "DriverCreateBucket s cx req w = create_or_reuse b cx n True (cb_Parameters req) w"
    using DriverCreateBucket_resolved [of s cx req w b w] resolved assms(1,2) by simp
  with exists_law [of cx n w] assms(3) show ?thesis
    by (auto simp: create_or_reuse_def io_simps)
qed

lemma delete_any:
  "\<exists>w1. DriverDeleteBucket s cx req w = (Ok (Some ()), w1) \<and>
    buckets w1 = (buckets w)(getBucketID s (db_BucketId req) := None) \<and> accesses w1 = accesses w"
proof -
  let ?n = "getBucketID s (db_BucketId req)"
  obtain w1 where "bk_DeleteBucket b cx ?n w = (Ok (), w1)" "buckets w1 = (buckets w)(?n := None)" "accesses w1 = accesses w"
    using delete_law [of cx ?n w] by blast
  then show ?thesis
    by (simp add: DriverDeleteBucket_def resolved call_def io_simps Let_def)
qed

lemma grant_one:
  assumes "buckets w n \<noteq> None"
  shows "\<exists>ci w1. grant_bucket b cx u n w = (Ok (grant_info b n, ci), w1) \<and>
    buckets w1 = buckets w \<and> accesses w1 = (accesses w)(u \<mapsto> n)"
proof -
  obtain i w1 where made: "bk_CreateBucketAccess b cx n u w = (Ok i, w1)"
    "buckets w1 = buckets w" "accesses w1 = (accesses w)(u \<mapsto> n)"
    using grant_law [of cx n u w] by blast
  obtain cr w2 where keys: "ui_Credentials i w1 = (cr, w2)" by fastforce
  from keys_law [OF made(1) keys] made keys exists_law [of cx n w] assms show ?thesis
    by (auto simp: grant_bucket_def grant_info_def credential_info_def io_simps)
qed

lemma grant_missing:
  "buckets w n = None \<Longrightarrow> grant_bucket b cx u n w = (Err (StatusErrf NotFound ErrBucketNotFound), w)"
  using exists_law [of cx n w] by (simp add: grant_bucket_def io_simps)

text \<open>The grant loop binds the account to every bucket up to the first missing one, and stays there.\<close>

lemma grant_all:
  assumes "\<forall>n \<in> set ns. buckets w n \<noteq> None"
  shows "\<exists>cr' w1. grant_loop b cx u ns infos cr w = (Ok (infos @ map (grant_info b) ns, cr'), w1) \<and>
    (ns \<noteq> [] \<longrightarrow> cr' \<noteq> None) \<and> buckets w1 = buckets w \<and>
    accesses w1 = (if ns = [] then accesses w else (accesses w)(u \<mapsto> last ns))"
  using assms
proof (induction ns arbitrary: infos cr w)
  case Nil
  then show ?case by (simp add: io_ok_def)
next
  case (Cons n ns)
  then obtain ci w1 where one: "grant_bucket b cx u n w = (Ok (grant_info b n, ci), w1)"
    "buckets w1 = buckets w" "accesses w1 = (accesses w)(u \<mapsto> n)"
    using grant_one [of w n cx u] by auto
  moreover have "\<forall>n \<in> set ns. buckets w1 n \<noteq> None" using Cons.prems one(2) by simp
  ultimately show ?case
    using Cons.IH [of w1 "infos @ [grant_info b n]" "Some ci"]
    by (cases "ns = []") (auto simp: io_bind_def io_ok_def)
qed

lemma grant_stops:
  assumes "\<forall>n \<in> set ns. buckets w n \<noteq> None" "buckets w m = None"
  shows "\<exists>w1. grant_loop b cx u (ns @ m # rest) infos cr w = (Err (StatusErrf NotFound ErrBucketNotFound), w1) \<and>
    buckets w1 = buckets w \<and> accesses w1 = (if ns = [] then accesses w else (accesses w)(u \<mapsto> last ns))"
  using assms
proof (induction ns arbitrary: infos cr w)
  case Nil
  then show ?case by (simp add: io_bind_def grant_missing)
next
  case (Cons n ns)
  then obtain ci w1 where one: "grant_bucket b cx u n w = (Ok (grant_info b n, ci), w1)"
    "buckets w1 = buckets w" "accesses w1 = (accesses w)(u \<mapsto> n)"
    using grant_one [of w n cx u] by auto
  moreover have "\<forall>n \<in> set ns. buckets w1 n \<noteq> None" "buckets w1 m = None"
    using Cons.prems one(2) by simp_all
  ultimately show ?case
    using Cons.IH [of w1 "infos @ [grant_info b n]" "Some ci"]
    by (cases "ns = []") (auto simp: io_bind_def)
qed

lemma revoke_all:
  "\<exists>w1. revoke_loop s b cx u ns w = (Ok (), w1) \<and> buckets w1 = buckets w \<and>
    accesses w1 = (if ns = [] then accesses w else (accesses w)(u := None))"
proof (induction ns arbitrary: w)
  case Nil
  then show ?case by (simp add: io_ok_def)
next
  case (Cons n ns)
  obtain w1 where "bk_DeleteBucketAccess b cx (getBucketID s n) u w = (Ok (), w1)"
    "buckets w1 = buckets w" "accesses w1 = (accesses w)(u := None)"
    using revoke_law [of cx "getBucketID s n" u w] by blast
  with Cons [of w1] show ?case by (auto simp: io_handle_def fun_eq_iff)
qed

lemma grant_ok:
  assumes "gb_Buckets req \<noteq> []" "\<forall>n \<in> set (gb_Buckets req). buckets w n \<noteq> None"
  shows "\<exists>ci w1. DriverGrantBucketAccess s cx req w =
      (Ok (Some \<lparr>gr_AccountId = gb_AccountName req, gr_Buckets = map (grant_info b) (gb_Buckets req),
                 gr_Credentials = Some ci\<rparr>), w1) \<and>
    buckets w1 = buckets w \<and> accesses w1 = (accesses w)(gb_AccountName req \<mapsto> last (gb_Buckets req))"
  using grant_all [OF assms(2), of cx "gb_AccountName req" "[]" None] assms(1)
  by (auto simp: DriverGrantBucketAccess_def resolved call_def io_simps)

lemma grant_fails:
  assumes "gb_Buckets req = ns @ m # rest" "\<forall>n \<in> set ns. buckets w n \<noteq> None" "buckets w m = None"
  shows "\<exists>w1. DriverGrantBucketAccess s cx req w = (Err (StatusErrf NotFound ErrBucketNotFound), w1) \<and>
    buckets w1 = buckets w \<and>
    accesses w1 = (if ns = [] then accesses w else (accesses w)(gb_AccountName req \<mapsto> last ns))"
  using grant_stops [OF assms(2,3), of cx "gb_AccountName req" rest "[]" None] assms(1)
  by (auto simp: DriverGrantBucketAccess_def resolved call_def io_simps)

lemma revoke_ok:
  assumes "rb_Buckets req \<noteq> []"
  shows "\<exists>w1. DriverRevokeBucketAccess s cx req w = (Ok (Some ()), w1) \<and>
    buckets w1 = buckets w \<and> accesses w1 = (accesses w)(rb_AccountId req := None)"
  using revoke_all [of cx "rb_AccountId req" "rb_Buckets req" w] assms
  by (auto simp: DriverRevokeBucketAccess_def resolved call_def io_simps)

end

end
