(* ===== verification/Tenant.thy ===== *)
theory Tenant
  imports S3Client Provisioner
begin

text \<open>
  Per-tenant credentials (\<open>pkg/driver/multitenant.go\<close>): the overlay of a tenant's Secret on the
  driver's own configuration, and the loader that builds a client from it for one RPC.
\<close>

definition tenantSecretName :: string where
  "tenantSecretName = ''ontap-cosi-driver-credentials''"

definition mgmtEndpointKey :: string where "mgmtEndpointKey = ''ONTAP_MGMT_ENDPOINT''"
definition mgmtSVMUUIDKey :: string where "mgmtSVMUUIDKey = ''ONTAP_MGMT_SVM_UUID''"
definition mgmtUsernameKey :: string where "mgmtUsernameKey = ''ONTAP_MGMT_USERNAME''"
definition mgmtPasswordKey :: string where "mgmtPasswordKey = ''ONTAP_MGMT_PASSWORD''"
definition mgmtUseSSLKey :: string where "mgmtUseSSLKey = ''ONTAP_MGMT_USE_SSL''"
definition mgmtSkipVerifyKey :: string where "mgmtSkipVerifyKey = ''ONTAP_MGMT_SKIP_TLS_VERIFY''"
definition mgmtCACertPathKey :: string where "mgmtCACertPathKey = ''ONTAP_MGMT_CA_CERT_PATH''"
definition mgmtCACertKey :: string where "mgmtCACertKey = ''ONTAP_MGMT_CA_CERT''"
definition s3RegionKey :: string where "s3RegionKey = ''ONTAP_S3_REGION''"
definition s3EndpointKey :: string where "s3EndpointKey = ''ONTAP_S3_ENDPOINT''"
definition s3UseSSLKey :: string where "s3UseSSLKey = ''ONTAP_S3_USE_SSL''"

lemmas tenant_keys =
  mgmtEndpointKey_def mgmtSVMUUIDKey_def mgmtUsernameKey_def mgmtPasswordKey_def mgmtUseSSLKey_def
  mgmtSkipVerifyKey_def mgmtCACertPathKey_def mgmtCACertKey_def s3RegionKey_def s3EndpointKey_def
  s3UseSSLKey_def

definition identity_keys :: "string list" where
  "identity_keys = [mgmtEndpointKey, mgmtSVMUUIDKey, mgmtUsernameKey, mgmtPasswordKey]"

text \<open>The local functions \<open>get\<close> and \<open>getBool\<close>: an empty value counts as absent.\<close>

definition secret_get :: "params \<Rightarrow> string \<Rightarrow> string option" where
  "secret_get secret key =
     (case map_of secret key of None \<Rightarrow> None | Some v \<Rightarrow> if v = [] then None else Some v)"

definition secret_bool :: "params \<Rightarrow> string \<Rightarrow> (bool option, gerror) outcome" where
  "secret_bool secret key =
     (case secret_get secret key of
        None \<Rightarrow> Ok None
      | Some raw \<Rightarrow>
          (case parse_bool raw of
             None \<Rightarrow> Err (Quoted (''invalid boolean for '' @ key @ '': '') raw [])
           | Some b \<Rightarrow> Ok (Some b)))"

text \<open>
  The loop over the identity keys. Go visits a map literal in an unspecified order, the parameter
  \<open>order\<close>; the loop sets the fields it finds and collects the keys it misses.
\<close>

definition set_identity :: "string \<Rightarrow> string \<Rightarrow> config \<Rightarrow> config" where
  "set_identity key v cfg =
     (if key = mgmtEndpointKey then cfg\<lparr>cfg_Endpoint := v\<rparr>
      else if key = mgmtSVMUUIDKey then cfg\<lparr>cfg_SVMUUID := v\<rparr>
      else if key = mgmtUsernameKey then cfg\<lparr>cfg_Admin := (cfg_Admin cfg)\<lparr>AccessKeyID := v\<rparr>\<rparr>
      else cfg\<lparr>cfg_Admin := (cfg_Admin cfg)\<lparr>AccessSecretKey := v\<rparr>\<rparr>)"

fun identity_loop :: "params \<Rightarrow> string list \<Rightarrow> config \<Rightarrow> string list \<Rightarrow> config \<times> string list" where
  "identity_loop secret [] cfg missing = (cfg, missing)"
| "identity_loop secret (key # order) cfg missing =
     (case secret_get secret key of
        Some v \<Rightarrow> identity_loop secret order (set_identity key v cfg) missing
      | None \<Rightarrow> identity_loop secret order cfg (missing @ [key]))"

definition overlay_string :: "params \<Rightarrow> string \<Rightarrow> (string \<Rightarrow> config \<Rightarrow> config) \<Rightarrow> config \<Rightarrow> config" where
  "overlay_string secret key upd cfg =
     (case secret_get secret key of None \<Rightarrow> cfg | Some v \<Rightarrow> upd v cfg)"

definition overlay_bool ::
  "params \<Rightarrow> string \<Rightarrow> (bool \<Rightarrow> config \<Rightarrow> config) \<Rightarrow> config \<Rightarrow> (config, gerror) outcome" where
  "overlay_bool secret key upd cfg =
     (case secret_bool secret key of
        Err e \<Rightarrow> Err e
      | Panic p \<Rightarrow> Panic p
      | Ok None \<Rightarrow> Ok cfg
      | Ok (Some b) \<Rightarrow> Ok (upd b cfg))"

definition set_SSL :: "bool \<Rightarrow> config \<Rightarrow> config" where
  "set_SSL b cfg = cfg\<lparr>cfg_TLS := (cfg_TLS cfg)\<lparr>tls_SSL := b\<rparr>\<rparr>"

definition set_SkipVerify :: "bool \<Rightarrow> config \<Rightarrow> config" where
  "set_SkipVerify b cfg = cfg\<lparr>cfg_TLS := (cfg_TLS cfg)\<lparr>tls_SkipVerify := b\<rparr>\<rparr>"

definition set_CACertPath :: "string \<Rightarrow> config \<Rightarrow> config" where
  "set_CACertPath v cfg = cfg\<lparr>cfg_TLS := (cfg_TLS cfg)\<lparr>tls_CACertPath := v\<rparr>\<rparr>"

definition overlay_optional :: "params \<Rightarrow> config \<Rightarrow> config" where
  "overlay_optional secret cfg =
     overlay_string secret s3EndpointKey (\<lambda>v. cfg_S3Endpoint_update (\<lambda>_. v))
       (overlay_string secret s3RegionKey (\<lambda>v. cfg_Region_update (\<lambda>_. v))
          (overlay_string secret mgmtCACertKey (\<lambda>v. cfg_CACertPEM_update (\<lambda>_. v))
             (overlay_string secret mgmtCACertPathKey set_CACertPath cfg)))"

definition tenantConfig :: "string list \<Rightarrow> config \<Rightarrow> params \<Rightarrow> (config, gerror) outcome" where
  "tenantConfig order defaults secret =
     (case identity_loop secret order defaults [] of (cfg, missing) \<Rightarrow>
        if missing \<noteq> [] then Err (ErrText (''missing required key(s): '' @ join '', '' missing))
        else (case overlay_bool secret mgmtUseSSLKey set_SSL cfg of
           Err e \<Rightarrow> Err e
         | Panic p \<Rightarrow> Panic p
         | Ok cfg1 \<Rightarrow>
             (case overlay_bool secret mgmtSkipVerifyKey set_SkipVerify cfg1 of
                Err e \<Rightarrow> Err e
              | Panic p \<Rightarrow> Panic p
              | Ok cfg2 \<Rightarrow>
                  overlay_bool secret s3UseSSLKey (\<lambda>b. cfg_S3UseSSL_update (\<lambda>_. b))
                    (overlay_optional secret cfg2))))"

section \<open>The loader\<close>

definition secret_context :: "string \<Rightarrow> gerror \<Rightarrow> gerror" where
  "secret_context ns =
     Wrapped (''tenant credentials: secret '' @ ns @ ''/'' @ tenantSecretName @ '': '')"

text \<open>The call of the Kubernetes API: like an HTTP exchange it takes time and fails at the end of the context.\<close>

definition secret_Get :: "'o env \<Rightarrow> ctx \<Rightarrow> string \<Rightarrow> 'o world \<Rightarrow> (gerror + params) \<times> 'o world" where
  "secret_Get env cx ns w =
     (case cx of
        None \<Rightarrow>
          (case env_secret env ns tenantSecretName (node w) of
             (got, d, s) \<Rightarrow> (got, w\<lparr>now := now w + d, node := s\<rparr>))
      | Some (t, why) \<Rightarrow>
          if t \<le> now w then (Inl (CtxErr why), w)
          else
            (case env_secret env ns tenantSecretName (node w) of
               (got, d, s) \<Rightarrow>
                 if t \<le> now w + d then (Inl (CtxErr why), w\<lparr>now := t, node := s\<rparr>)
                 else (got, w\<lparr>now := now w + d, node := s\<rparr>)))"

definition Load :: "'o env \<Rightarrow> string list \<Rightarrow> config \<Rightarrow> 'o world loader" where
  "Load env order defaults cx ns w =
     (case secret_Get env cx ns w of (got, w') \<Rightarrow>
        case got of
          Inl e \<Rightarrow> (Err (secret_context ns e), w')
        | Inr secret \<Rightarrow>
            (case tenantConfig order defaults secret of
               Err e \<Rightarrow> (Err (secret_context ns e), w')
             | Panic p \<Rightarrow> (Panic p, w')
             | Ok cfg \<Rightarrow>
                 (case NewFromConfig env cfg of
                    Err e \<Rightarrow> (Err (secret_context ns e), w')
                  | Panic p \<Rightarrow> (Panic p, w')
                  | Ok client \<Rightarrow> (Ok (Some (s3_backend env client)), w'))))"

section \<open>What the overlay does\<close>

lemma key_neq [simp]:
  "mgmtEndpointKey \<noteq> mgmtSVMUUIDKey" "mgmtSVMUUIDKey \<noteq> mgmtEndpointKey"
  "mgmtEndpointKey \<noteq> mgmtUsernameKey" "mgmtUsernameKey \<noteq> mgmtEndpointKey"
  "mgmtEndpointKey \<noteq> mgmtPasswordKey" "mgmtPasswordKey \<noteq> mgmtEndpointKey"
  "mgmtSVMUUIDKey \<noteq> mgmtUsernameKey" "mgmtUsernameKey \<noteq> mgmtSVMUUIDKey"
  "mgmtSVMUUIDKey \<noteq> mgmtPasswordKey" "mgmtPasswordKey \<noteq> mgmtSVMUUIDKey"
  "mgmtUsernameKey \<noteq> mgmtPasswordKey" "mgmtPasswordKey \<noteq> mgmtUsernameKey"
  by (simp_all add: tenant_keys)

text \<open>The four identity fields as a function of the key.\<close>

definition identity_field :: "string \<Rightarrow> config \<Rightarrow> string" where
  "identity_field key cfg =
     (if key = mgmtEndpointKey then cfg_Endpoint cfg
      else if key = mgmtSVMUUIDKey then cfg_SVMUUID cfg
      else if key = mgmtUsernameKey then AccessKeyID (cfg_Admin cfg)
      else AccessSecretKey (cfg_Admin cfg))"

text \<open>Everything of a configuration but those four fields.\<close>

definition blank_identity :: "config \<Rightarrow> config" where
  "blank_identity cfg =
     cfg\<lparr>cfg_Endpoint := [], cfg_SVMUUID := [], cfg_Admin := \<lparr>AccessKeyID = [], AccessSecretKey = []\<rparr>\<rparr>"

lemma config_eqI:
  assumes "blank_identity c1 = blank_identity c2"
    "\<And>key. key \<in> set identity_keys \<Longrightarrow> identity_field key c1 = identity_field key c2"
  shows "c1 = c2"
proof -
  have "cfg_Endpoint c1 = cfg_Endpoint c2" "cfg_SVMUUID c1 = cfg_SVMUUID c2"
    "AccessKeyID (cfg_Admin c1) = AccessKeyID (cfg_Admin c2)"
    "AccessSecretKey (cfg_Admin c1) = AccessSecretKey (cfg_Admin c2)"
    using assms(2) [of mgmtEndpointKey] assms(2) [of mgmtSVMUUIDKey] assms(2) [of mgmtUsernameKey]
      assms(2) [of mgmtPasswordKey]
    by (simp_all add: identity_keys_def identity_field_def)
  then show ?thesis
    using assms(1) by (cases c1; cases c2) (auto simp: blank_identity_def intro: S3Credentials.equality)
qed

lemma set_identity_simps:
  "blank_identity (set_identity key v cfg) = blank_identity cfg"
  "k \<in> set identity_keys \<Longrightarrow> key \<in> set identity_keys \<Longrightarrow>
   identity_field k (set_identity key v cfg) = (if k = key then v else identity_field k cfg)"
  by (auto simp: blank_identity_def set_identity_def identity_field_def identity_keys_def)

lemma identity_loop_missing:
  "snd (identity_loop secret order cfg missing) = missing @ filter (\<lambda>k. secret_get secret k = None) order"
  by (induction order arbitrary: cfg missing) (auto split: option.split)

lemma identity_loop_blank:
  "blank_identity (fst (identity_loop secret order cfg missing)) = blank_identity cfg"
  by (induction order arbitrary: cfg missing) (auto simp: set_identity_simps split: option.split)

lemma identity_loop_field:
  assumes "set order \<subseteq> set identity_keys" "k \<in> set identity_keys"
  shows "identity_field k (fst (identity_loop secret order cfg missing)) =
    (case secret_get secret k of
       Some v \<Rightarrow> if k \<in> set order then v else identity_field k cfg
     | None \<Rightarrow> identity_field k cfg)"
  using assms
proof (induction order arbitrary: cfg missing)
  case (Cons key order)
  then show ?case by (auto simp: set_identity_simps split: option.split)
qed (simp split: option.split)

text \<open>The overlay as one expression: the identity from the secret, the rest over the defaults.\<close>

definition own_or :: "'a \<Rightarrow> 'a option \<Rightarrow> 'a" where
  "own_or d x = (case x of None \<Rightarrow> d | Some v \<Rightarrow> v)"

definition bool_or :: "bool \<Rightarrow> params \<Rightarrow> string \<Rightarrow> bool" where
  "bool_or d secret key = (case secret_bool secret key of Ok (Some b) \<Rightarrow> b | _ \<Rightarrow> d)"

definition bool_readable :: "params \<Rightarrow> string \<Rightarrow> bool" where
  "bool_readable secret key = (case secret_get secret key of None \<Rightarrow> True | Some raw \<Rightarrow> parse_bool raw \<noteq> None)"

definition tenant_overlay :: "config \<Rightarrow> params \<Rightarrow> config" where
  "tenant_overlay defaults secret =
     \<lparr>cfg_Endpoint = own_or [] (secret_get secret mgmtEndpointKey),
      cfg_S3Endpoint = own_or (cfg_S3Endpoint defaults) (secret_get secret s3EndpointKey),
      cfg_Region = own_or (cfg_Region defaults) (secret_get secret s3RegionKey),
      cfg_SVMUUID = own_or [] (secret_get secret mgmtSVMUUIDKey),
      cfg_Admin = \<lparr>AccessKeyID = own_or [] (secret_get secret mgmtUsernameKey),
                   AccessSecretKey = own_or [] (secret_get secret mgmtPasswordKey)\<rparr>,
      cfg_TLS = \<lparr>tls_SSL = bool_or (tls_SSL (cfg_TLS defaults)) secret mgmtUseSSLKey,
                 tls_CACertPath = own_or (tls_CACertPath (cfg_TLS defaults)) (secret_get secret mgmtCACertPathKey),
                 tls_SkipVerify = bool_or (tls_SkipVerify (cfg_TLS defaults)) secret mgmtSkipVerifyKey\<rparr>,
      cfg_S3UseSSL = bool_or (cfg_S3UseSSL defaults) secret s3UseSSLKey,
      cfg_CACertPEM = own_or (cfg_CACertPEM defaults) (secret_get secret mgmtCACertKey)\<rparr>"

lemma bool_readable_cases:
  "bool_readable secret key \<longleftrightarrow> (\<exists>x. secret_bool secret key = Ok x)"
  "\<not> bool_readable secret key \<longleftrightarrow> (\<exists>e. secret_bool secret key = Err e)"
  by (auto simp: bool_readable_def secret_bool_def split: option.split)

lemma overlay_bool_readable:
  "bool_readable secret key \<Longrightarrow>
   overlay_bool secret key upd cfg =
     Ok (case secret_bool secret key of Ok (Some b) \<Rightarrow> upd b cfg | _ \<Rightarrow> cfg)"
  by (auto simp: overlay_bool_def bool_readable_cases(1) split: option.split)

lemma overlay_bool_unreadable:
  assumes "\<not> bool_readable secret key"
  shows "\<exists>e. overlay_bool secret key upd cfg = Err e"
  using assms unfolding bool_readable_cases(2) by (auto simp: overlay_bool_def)

lemma bool_or_apply:
  "set_SSL (bool_or (tls_SSL (cfg_TLS cfg)) secret key) cfg = (case secret_bool secret key of Ok (Some b) \<Rightarrow> set_SSL b cfg | _ \<Rightarrow> cfg)"
  "set_SkipVerify (bool_or (tls_SkipVerify (cfg_TLS cfg)) secret key) cfg =
     (case secret_bool secret key of Ok (Some b) \<Rightarrow> set_SkipVerify b cfg | _ \<Rightarrow> cfg)"
  "cfg_S3UseSSL_update (\<lambda>_. bool_or (cfg_S3UseSSL cfg) secret key) cfg =
     (case secret_bool secret key of Ok (Some b) \<Rightarrow> cfg_S3UseSSL_update (\<lambda>_. b) cfg | _ \<Rightarrow> cfg)"
  by (auto simp: bool_or_def set_SSL_def set_SkipVerify_def split: outcome.split option.split)

lemma overlay_string_own:
  "overlay_string secret key upd cfg = (case secret_get secret key of None \<Rightarrow> cfg | Some v \<Rightarrow> upd v cfg)"
  by (simp add: overlay_string_def)

lemma overlay_optional_own:
  "overlay_optional secret cfg = cfg
     \<lparr>cfg_TLS := (cfg_TLS cfg)\<lparr>tls_CACertPath := own_or (tls_CACertPath (cfg_TLS cfg)) (secret_get secret mgmtCACertPathKey)\<rparr>,
      cfg_CACertPEM := own_or (cfg_CACertPEM cfg) (secret_get secret mgmtCACertKey),
      cfg_Region := own_or (cfg_Region cfg) (secret_get secret s3RegionKey),
      cfg_S3Endpoint := own_or (cfg_S3Endpoint cfg) (secret_get secret s3EndpointKey)\<rparr>"
  by (auto simp: overlay_optional_def overlay_string_def own_or_def set_CACertPath_def split: option.split)

lemma tenantConfig_readable:
  assumes "set order = set identity_keys"
    "\<forall>k \<in> set identity_keys. secret_get secret k \<noteq> None"
    "\<forall>k \<in> {mgmtUseSSLKey, mgmtSkipVerifyKey, s3UseSSLKey}. bool_readable secret k"
  shows "tenantConfig order defaults secret = Ok (tenant_overlay defaults secret)"
proof -
  obtain cfg missing where loop: "identity_loop secret order defaults [] = (cfg, missing)" by fastforce
  have "missing = []"
    using identity_loop_missing [of secret order defaults "[]"] loop assms(1,2) by (auto simp: filter_empty_conv)
  moreover have "blank_identity cfg = blank_identity defaults"
    using identity_loop_blank [of secret order defaults "[]"] loop by simp
  moreover have field: "identity_field k cfg = own_or [] (secret_get secret k)" if "k \<in> set identity_keys" for k
    using identity_loop_field [of order k secret defaults "[]"] loop assms(1,2) that by (auto simp: own_or_def split: option.splits)
  have "cfg = defaults\<lparr>cfg_Endpoint := own_or [] (secret_get secret mgmtEndpointKey),
      cfg_SVMUUID := own_or [] (secret_get secret mgmtSVMUUIDKey),
      cfg_Admin := \<lparr>AccessKeyID = own_or [] (secret_get secret mgmtUsernameKey),
                   AccessSecretKey = own_or [] (secret_get secret mgmtPasswordKey)\<rparr>\<rparr>"
    by (rule config_eqI)
      (use \<open>blank_identity cfg = _\<close> field in \<open>auto simp: blank_identity_def identity_field_def identity_keys_def\<close>)
  ultimately show ?thesis
    using assms(3) loop
    by (simp add: tenantConfig_def overlay_bool_readable bool_or_apply [symmetric] overlay_optional_own
        tenant_overlay_def set_SSL_def set_SkipVerify_def)
qed

lemma tenantConfig_unreadable:
  assumes "identity_loop secret order defaults [] = (cfg, [])"
    and "\<exists>k \<in> {mgmtUseSSLKey, mgmtSkipVerifyKey, s3UseSSLKey}. \<not> bool_readable secret k"
  shows "\<exists>e. tenantConfig order defaults secret = Err e"
proof (cases "bool_readable secret mgmtUseSSLKey")
  case False
  from overlay_bool_unreadable [OF this] obtain e where "overlay_bool secret mgmtUseSSLKey set_SSL cfg = Err e"
    by blast
  with assms(1) show ?thesis by (simp add: tenantConfig_def)
next
  case True
  from overlay_bool_readable [OF this] obtain c1 where
    c1: "overlay_bool secret mgmtUseSSLKey set_SSL cfg = Ok c1" by blast
  show ?thesis
  proof (cases "bool_readable secret mgmtSkipVerifyKey")
    case False
    from overlay_bool_unreadable [OF this] obtain e where
      "overlay_bool secret mgmtSkipVerifyKey set_SkipVerify c1 = Err e" by blast
    with assms(1) c1 show ?thesis by (simp add: tenantConfig_def)
  next
    case skip: True
    from overlay_bool_readable [OF this] obtain c2 where
      c2: "overlay_bool secret mgmtSkipVerifyKey set_SkipVerify c1 = Ok c2" by blast
    from assms(2) True skip have "\<not> bool_readable secret s3UseSSLKey" by blast
    from overlay_bool_unreadable [OF this] assms(1) c1 c2 show ?thesis by (simp add: tenantConfig_def)
  qed
qed

text \<open>
  C17: In whatever order the identity keys are visited: if the Secret has all four of them and
  its boolean values can be read, the tenant's configuration is the Secret's identity with every
  optional setting taken from the Secret or else from the defaults; otherwise it is an error.
\<close>

theorem tenantConfig_exact:
  assumes "set order = set identity_keys"
  shows "if (\<forall>k \<in> set identity_keys. secret_get secret k \<noteq> None) \<and>
      (\<forall>k \<in> {mgmtUseSSLKey, mgmtSkipVerifyKey, s3UseSSLKey}. bool_readable secret k)
    then tenantConfig order defaults secret = Ok (tenant_overlay defaults secret)
    else \<exists>e. tenantConfig order defaults secret = Err e"
proof -
  obtain cfg missing where loop: "identity_loop secret order defaults [] = (cfg, missing)" by fastforce
  have missing: "missing = filter (\<lambda>k. secret_get secret k = None) order"
    using identity_loop_missing [of secret order defaults "[]"] loop by simp
  show ?thesis
  proof (cases "\<forall>k \<in> set identity_keys. secret_get secret k \<noteq> None")
    case False
    with assms missing have "missing \<noteq> []" by (auto simp: filter_empty_conv)
    with False loop show ?thesis by (auto simp: tenantConfig_def)
  next
    case True
    have "missing = []" using True assms missing by (auto simp: filter_empty_conv)
    then have "\<exists>e. tenantConfig order defaults secret = Err e"
      if "\<not> (\<forall>k \<in> {mgmtUseSSLKey, mgmtSkipVerifyKey, s3UseSSLKey}. bool_readable secret k)"
      using that loop by (intro tenantConfig_unreadable [of secret order defaults cfg]) auto
    then show ?thesis
      using tenantConfig_readable [OF assms True] True by auto
  qed
qed

definition sample_defaults :: config where
  "sample_defaults =
     \<lparr>cfg_Endpoint = ''https://operator.example'', cfg_S3Endpoint = ''s3.example'', cfg_Region = ''eu'',
      cfg_SVMUUID = ''svm-op'', cfg_Admin = \<lparr>AccessKeyID = ''op'', AccessSecretKey = ''op-pw''\<rparr>,
      cfg_TLS = \<lparr>tls_SSL = True, tls_CACertPath = [], tls_SkipVerify = False\<rparr>,
      cfg_S3UseSSL = True, cfg_CACertPEM = []\<rparr>"

definition sample_secret :: params where
  "sample_secret =
     [(mgmtEndpointKey, ''https://a.example''), (mgmtSVMUUIDKey, ''svm-a''),
      (mgmtUsernameKey, ''admin-a''), (mgmtPasswordKey, ''pw-a''), (mgmtSkipVerifyKey, ''true'')]"

lemma tenantConfig_exact_witness:
  "tenantConfig (rev identity_keys) sample_defaults sample_secret =
     Ok (tenant_overlay sample_defaults sample_secret)"
proof -
  have "set (rev identity_keys) = set identity_keys" by simp
  moreover have "(\<forall>k \<in> set identity_keys. secret_get sample_secret k \<noteq> None) \<and>
      (\<forall>k \<in> {mgmtUseSSLKey, mgmtSkipVerifyKey, s3UseSSLKey}. bool_readable sample_secret k)"
    by code_simp
  ultimately show ?thesis
    using tenantConfig_exact [of "rev identity_keys" sample_secret sample_defaults] by (simp only: if_True simp_thms)
qed

text \<open>
  C18: The tenant's configuration, or the error, does not depend on the operator's endpoint,
  SVM, user name or password.
\<close>

theorem tenantConfig_isolates_identity:
  assumes "set order = set identity_keys" "blank_identity d1 = blank_identity d2"
  shows "tenantConfig order d1 secret = tenantConfig order d2 secret"
proof -
  obtain c1 m1 where loop1: "identity_loop secret order d1 [] = (c1, m1)" by fastforce
  obtain c2 m2 where loop2: "identity_loop secret order d2 [] = (c2, m2)" by fastforce
  have m: "m1 = m2" "m1 = filter (\<lambda>k. secret_get secret k = None) order"
    using identity_loop_missing [of secret order d1 "[]"] identity_loop_missing [of secret order d2 "[]"]
      loop1 loop2 by simp_all
  show ?thesis
  proof (cases "m1 = []")
    case True
    have "c1 = c2"
    proof (rule config_eqI)
      show "blank_identity c1 = blank_identity c2"
        using identity_loop_blank [of secret order d1 "[]"] identity_loop_blank [of secret order d2 "[]"]
          loop1 loop2 assms(2) by simp
      fix key
      assume "key \<in> set identity_keys"
      then show "identity_field key c1 = identity_field key c2"
        using identity_loop_field [of order key secret d1 "[]"] identity_loop_field [of order key secret d2 "[]"]
          loop1 loop2 assms(1) m True by (auto simp: filter_empty_conv split: option.splits)
    qed
    with loop1 loop2 m show ?thesis by (simp add: tenantConfig_def)
  next
    case False
    with loop1 loop2 m show ?thesis by (simp add: tenantConfig_def)
  qed
qed

lemma tenantConfig_isolates_identity_witness:
  "tenantConfig identity_keys sample_defaults sample_secret =
   tenantConfig identity_keys (blank_identity sample_defaults) sample_secret"
  by (rule tenantConfig_isolates_identity) (simp_all add: blank_identity_def)

section \<open>The loader\<close>

lemma tenantConfig_no_panic: "no_panic (tenantConfig order defaults secret)"
proof -
  have safe: "no_panic (overlay_bool secret k upd cfg)" for k upd cfg
    by (auto simp: overlay_bool_def secret_bool_def split: option.split)
  then have "overlay_bool secret k upd cfg \<noteq> Panic p" for k upd cfg p
    by (metis no_panic_simps(3))
  with safe show ?thesis
    by (auto simp: tenantConfig_def split: prod.split outcome.split)
qed

lemma Load_no_panic: "no_panic (fst (Load env order defaults cx ns w))"
proof -
  have "NewFromConfig env cfg \<noteq> Panic p" "tenantConfig order defaults secret \<noteq> Panic p" for cfg secret p
    using NewFromConfig_no_panic [of env cfg] tenantConfig_no_panic [of order defaults secret] by auto
  then show ?thesis
    by (auto simp: Load_def Let_def split: outcome.splits sum.split prod.split)
qed

lemma Load_Ok:
  "Load env order defaults cx ns w = (Ok r, w1) \<Longrightarrow> \<exists>c. r = Some (s3_backend env c)"
  by (auto simp: Load_def Let_def split: outcome.splits sum.splits prod.splits)

end
