(* ===== verification/Fake.thy ===== *)
theory Fake
  imports Contracts
begin

text \<open>
  The in-memory backend of \<open>pkg/clients/fake/fake.go\<close>: its maps of buckets and accesses and the state
  of the random generator. \<open>rnd\<close> is the generator behind \<open>math/rand\<close>: any function from a state to a
  number and the next state.
\<close>

record fake_world =
  fw_Buckets :: "string \<Rightarrow> params option"
  fw_Accesses :: "string \<Rightarrow> string option"
  fw_rng :: nat

type_synonym rnd = "nat \<Rightarrow> nat \<times> nat"

record fake_client =
  fc_platform :: string
  fc_credentialFunc :: "string \<Rightarrow> string \<Rightarrow> credentials"
  fc_protocolFunc :: protocol_type

definition fake_New :: "string \<Rightarrow> (fake_client, gerror) outcome" where
  "fake_New platform =
     (if platform = AzureKey then
        Ok \<lparr>fc_platform = platform,
            fc_credentialFunc = (\<lambda>ident key. [(AzureSecretAccessToken, key)]),
            fc_protocolFunc = ObjectProtocol_AZURE\<rparr>
      else if platform = S3Key then
        Ok \<lparr>fc_platform = platform,
            fc_credentialFunc =
              (\<lambda>ident key. [(S3SecretAccessKeyID, ident), (S3SecretAccessSecretKey, key)]),
            fc_protocolFunc = ObjectProtocol_S3\<rparr>
      else Panic (''unexpected platform: '' @ platform))"

definition fake_init :: "nat \<Rightarrow> fake_world" where
  "fake_init seed = \<lparr>fw_Buckets = Map.empty, fw_Accesses = Map.empty, fw_rng = seed\<rparr>"

definition charset :: string where
  "charset = ''abcdefghijklmnopqrstuvwxyzABCDEFGHIJKLMNOPQRSTUVWXYZ0123456789''"

primrec genKey :: "rnd \<Rightarrow> nat \<Rightarrow> nat \<Rightarrow> string \<times> nat" where
  "genKey rnd 0 st = ([], st)"
| "genKey rnd (Suc n) st =
     (case rnd st of (v, st1) \<Rightarrow>
        (case genKey rnd n st1 of (s, st2) \<Rightarrow> (charset ! (v mod length charset) # s, st2)))"

definition fake_CreateBucket :: "string \<Rightarrow> params \<Rightarrow> (unit, gerror, fake_world) io" where
  "fake_CreateBucket name parameters w =
     (Ok (), w\<lparr>fw_Buckets := (fw_Buckets w)(name \<mapsto> parameters)\<rparr>)"

definition fake_BucketExists :: "string \<Rightarrow> (bool, gerror, fake_world) io" where
  "fake_BucketExists name w = (Ok (fw_Buckets w name \<noteq> None), w)"

text \<open>The entry of a missing bucket is a nil pointer, whose field cannot be read.\<close>

definition fake_IsBucketEqual :: "string \<Rightarrow> params \<Rightarrow> (bool, gerror, fake_world) io" where
  "fake_IsBucketEqual name parameters w =
     (case fw_Buckets w name of
        None \<Rightarrow> (Panic ''nil pointer dereference'', w)
      | Some ps \<Rightarrow> (Ok (maps_equal ps parameters), w))"

definition fake_DeleteBucket :: "string \<Rightarrow> (unit, gerror, fake_world) io" where
  "fake_DeleteBucket name w = (Ok (), w\<lparr>fw_Buckets := (fw_Buckets w)(name := None)\<rparr>)"

definition fake_user :: "rnd \<Rightarrow> fake_client \<Rightarrow> string \<Rightarrow> fake_world user_iface" where
  "fake_user rnd c name =
     \<lparr>ui_Name = name,
      ui_Credentials = (\<lambda>w.
        case genKey rnd 20 (fw_rng w) of (ident, st1) \<Rightarrow>
          (case genKey rnd 40 st1 of (key, st2) \<Rightarrow>
             (fc_credentialFunc c ident key, w\<lparr>fw_rng := st2\<rparr>))),
      ui_Platform = fc_platform c\<rparr>"

definition fake_CreateBucketAccess ::
  "rnd \<Rightarrow> fake_client \<Rightarrow> string \<Rightarrow> string \<Rightarrow> (fake_world user_iface, gerror, fake_world) io" where
  "fake_CreateBucketAccess rnd c bucketName name w =
     (Ok (fake_user rnd c name), w\<lparr>fw_Accesses := (fw_Accesses w)(name \<mapsto> bucketName)\<rparr>)"

definition fake_DeleteBucketAccess :: "string \<Rightarrow> string \<Rightarrow> (unit, gerror, fake_world) io" where
  "fake_DeleteBucketAccess bucketName name w =
     (Ok (), w\<lparr>fw_Accesses := (fw_Accesses w)(name := None)\<rparr>)"

definition fake_S3Endpoint :: string where
  "fake_S3Endpoint = ''http://fake-s3:8080''"

definition fake_S3Region :: string where
  "fake_S3Region = ''fake-region''"

definition fake_backend :: "rnd \<Rightarrow> fake_client \<Rightarrow> fake_world backend" where
  "fake_backend rnd c =
     \<lparr>bk_BucketExists = (\<lambda>_ name. fake_BucketExists name),
      bk_IsBucketEqual = (\<lambda>_ name ps. fake_IsBucketEqual name ps),
      bk_CreateBucket = (\<lambda>_ name ps. fake_CreateBucket name ps),
      bk_DeleteBucket = (\<lambda>_ name. fake_DeleteBucket name),
      bk_CreateBucketAccess = (\<lambda>_ bucket name. fake_CreateBucketAccess rnd c bucket name),
      bk_DeleteBucketAccess = (\<lambda>_ bucket name. fake_DeleteBucketAccess bucket name),
      bk_ProtocolInfo = fc_protocolFunc c,
      bk_S3Endpoint = fake_S3Endpoint,
      bk_S3Region = fake_S3Region\<rparr>"

section \<open>The contracts it satisfies\<close>

lemmas fake_ops =
  fake_backend_def fake_BucketExists_def fake_IsBucketEqual_def fake_CreateBucket_def
  fake_DeleteBucket_def fake_CreateBucketAccess_def fake_DeleteBucketAccess_def

interpretation fake_safe: safe_backend "fake_backend rnd c" for rnd c
  by unfold_locales (auto simp: fake_ops)

interpretation fake_store: bucket_store "fake_backend rnd c" fw_Buckets fw_Accesses for rnd c
  by unfold_locales (auto simp: fake_ops fake_user_def split: prod.splits)

end
