(* ===== verification/Identity.thy ===== *)
theory Identity
  imports Interface
begin

text \<open>The COSI identity service (\<open>pkg/driver/identity.go\<close>).\<close>

record IdentityServer =
  id_Name :: string

record DriverGetInfoResponse =
  gi_Name :: string
  gi_SupportedProtocols :: "protocol_type list"

definition DriverGetInfo :: "IdentityServer \<Rightarrow> (DriverGetInfoResponse, gerror, 'w) io" where
  "DriverGetInfo srv =
     (if id_Name srv = [] then io_err (StatusErrf Internal ErrEmptyDriverName)
      else io_ok \<lparr>gi_Name = id_Name srv, gi_SupportedProtocols = [ObjectProtocol_S3]\<rparr>)"

end
