(* ===== verification/CosiSpec.thy ===== *)
theory CosiSpec
  imports Provisioner
begin

text \<open>
  What the comments of the handlers and the README promise of the provisioner service, as an abstract machine:
  a store of buckets and of accesses, one step per RPC. Every server over a \<open>bucket_store\<close> refines it, call by
  call and run by run, as long as the calls stay clear of two cases in which the code breaks its promise.
\<close>

section \<open>The abstract machine\<close>

record cosi_store =
  st_buckets :: "string \<Rightarrow> params option"
  st_accesses :: "string \<Rightarrow> string option"

datatype cosi_call =
    CallCreate string params
  | CallDelete string
  | CallGrant string "string list"
  | CallRevoke string "string list"

datatype cosi_answer =
    Created string
  | Deleted
  | Granted string "string list"
  | Revoked
  | Refused grpc_code
  | Broken   \<comment> \<open>a panic, or success without a response: the specification never answers this\<close>

text \<open>
  \<open>ov\<close> is the configured bucket override, empty if there is none. It names the bucket of every operation. A
  creation of an existing bucket with other parameters is a conflict; under an override the parameters are not
  compared.
\<close>

definition overridden_name :: "string \<Rightarrow> string \<Rightarrow> string" where
  "overridden_name ov n = (if ov = [] then n else ov)"

fun cosi_step :: "string \<Rightarrow> cosi_call \<Rightarrow> cosi_store \<Rightarrow> cosi_answer \<times> cosi_store" where
  "cosi_step ov (CallCreate n ps) st =
     (let m = overridden_name ov n in
      case st_buckets st m of
        None \<Rightarrow> (Created m, st\<lparr>st_buckets := (st_buckets st)(m \<mapsto> ps)\<rparr>)
      | Some old \<Rightarrow> (if ov \<noteq> [] \<or> map_of old = map_of ps then Created m else Refused AlreadyExists, st))"
| "cosi_step ov (CallDelete n) st =
     (Deleted, st\<lparr>st_buckets := (st_buckets st)(overridden_name ov n := None)\<rparr>)"
| "cosi_step ov (CallGrant u ns) st =
     (if ns = [] then (Refused InvalidArgument, st)
      else
        let ms = map (overridden_name ov) ns;
            present = takeWhile (\<lambda>m. st_buckets st m \<noteq> None) ms in
        (if present = ms then Granted u ms else Refused NotFound,
         if present = [] then st else st\<lparr>st_accesses := (st_accesses st)(u \<mapsto> last present)\<rparr>))"
| "cosi_step ov (CallRevoke u ns) st =
     (if ns = [] then (Refused InvalidArgument, st)
      else (Revoked, st\<lparr>st_accesses := (st_accesses st)(u := None)\<rparr>))"

fun cosi_run :: "string \<Rightarrow> cosi_call list \<Rightarrow> cosi_store \<Rightarrow> cosi_answer list \<times> cosi_store" where
  "cosi_run ov [] st = ([], st)"
| "cosi_run ov (c # cs) st =
     (case cosi_step ov c st of (a, st1) \<Rightarrow>
        (case cosi_run ov cs st1 of (as, st2) \<Rightarrow> (a # as, st2)))"

text \<open>
  Where the code keeps the promise: an existing bucket is only created again with the parameters that it has,
  and the buckets of a grant are already named as the override wants. Outside, the code answers for an existing
  bucket with other parameters as if they matched, and ignores the override in grants.
\<close>

fun contract_call :: "string \<Rightarrow> cosi_call \<Rightarrow> cosi_store \<Rightarrow> bool" where
  "contract_call ov (CallCreate n ps) st \<longleftrightarrow>
     (case st_buckets st (overridden_name ov n) of None \<Rightarrow> True | Some old \<Rightarrow> map_of old = map_of ps)"
| "contract_call ov (CallGrant u ns) st \<longleftrightarrow> map (overridden_name ov) ns = ns"
| "contract_call ov _ st \<longleftrightarrow> True"

fun within_contract :: "string \<Rightarrow> cosi_call list \<Rightarrow> cosi_store \<Rightarrow> bool" where
  "within_contract ov [] st \<longleftrightarrow> True"
| "within_contract ov (c # cs) st \<longleftrightarrow>
     contract_call ov c st \<and> within_contract ov cs (snd (cosi_step ov c st))"

section \<open>The handlers as a machine\<close>

definition answer :: "('a \<Rightarrow> cosi_answer) \<Rightarrow> ('a option, gerror) outcome \<Rightarrow> cosi_answer" where
  "answer f r =
     (case r of
        Ok (Some x) \<Rightarrow> f x
      | Err e \<Rightarrow> Refused (status_code e)
      | _ \<Rightarrow> Broken)"

lemma answer_simps [simp]:
  "answer f (Ok (Some x)) = f x" "answer f (Err e) = Refused (status_code e)"
  by (simp_all add: answer_def)

fun handle :: "'w ProvisionerServer \<Rightarrow> ctx \<Rightarrow> params \<Rightarrow> cosi_call \<Rightarrow> 'w \<Rightarrow> cosi_answer \<times> 'w" where
  "handle s cx extra (CallCreate n ps) w =
     (case DriverCreateBucket s cx \<lparr>cb_Name = n, cb_Parameters = ps\<rparr> w of
        (r, w1) \<Rightarrow> (answer (\<lambda>resp. Created (cr_BucketId resp)) r, w1))"
| "handle s cx extra (CallDelete n) w =
     (case DriverDeleteBucket s cx \<lparr>db_BucketId = n, db_Parameters = extra\<rparr> w of
        (r, w1) \<Rightarrow> (answer (\<lambda>_. Deleted) r, w1))"
| "handle s cx extra (CallGrant u ns) w =
     (case DriverGrantBucketAccess s cx \<lparr>gb_AccountName = u, gb_Buckets = ns, gb_Parameters = extra\<rparr> w of
        (r, w1) \<Rightarrow> (answer (\<lambda>resp. Granted (gr_AccountId resp) (map bi_BucketId (gr_Buckets resp))) r, w1))"
| "handle s cx extra (CallRevoke u ns) w =
     (case DriverRevokeBucketAccess s cx \<lparr>rb_AccountId = u, rb_Buckets = ns, rb_Parameters = extra\<rparr> w of
        (r, w1) \<Rightarrow> (answer (\<lambda>_. Revoked) r, w1))"

fun handle_run :: "'w ProvisionerServer \<Rightarrow> ctx \<Rightarrow> params \<Rightarrow> cosi_call list \<Rightarrow> 'w \<Rightarrow> cosi_answer list \<times> 'w" where
  "handle_run s cx extra [] w = ([], w)"
| "handle_run s cx extra (c # cs) w =
     (case handle s cx extra c w of (a, w1) \<Rightarrow>
        (case handle_run s cx extra cs w1 of (as, w2) \<Rightarrow> (a # as, w2)))"

section \<open>Refinement\<close>

context store_server begin

definition view :: "'w \<Rightarrow> cosi_store" where
  "view w = \<lparr>st_buckets = buckets w, st_accesses = accesses w\<rparr>"

lemma create_existing:
  assumes "n = fst (getName s (cb_Name req))" "\<not> snd (getName s (cb_Name req))" "buckets w n = Some old"
  shows "DriverCreateBucket s cx req w =
    (if map_of old = map_of (cb_Parameters req) then Ok (Some (create_response b n))
     else Err (Status AlreadyExists (''bucket already exists: '' @ n)), w)"
proof -
  have "DriverCreateBucket s cx req w = create_or_reuse b cx n False (cb_Parameters req) w"
    using DriverCreateBucket_resolved [of s cx req w b w] resolved assms(1,2) by simp
  with exists_law [of cx n w] equal_law [OF assms(3)] assms(3) show ?thesis
    by (simp add: create_or_reuse_def io_simps maps_equal_iff)
qed

lemma names:
  "fst (getName s n) = overridden_name (ov_BucketID (dc_Overrides (ps_Config s))) n"
  "snd (getName s n) \<longleftrightarrow> ov_BucketID (dc_Overrides (ps_Config s)) = []"
  "getBucketID s n = overridden_name (ov_BucketID (dc_Overrides (ps_Config s))) n"
  by (simp_all add: getName_def getBucketID_def overridden_name_def Let_def)

lemma refines_step:
  assumes "contract_call (ov_BucketID (dc_Overrides (ps_Config s))) c (view w)"
  shows "(case handle s cx extra c w of (a, w1) \<Rightarrow> (a, view w1)) =
     cosi_step (ov_BucketID (dc_Overrides (ps_Config s))) c (view w)"
proof (cases c)
  case (CallCreate n ps)
  let ?m = "overridden_name (ov_BucketID (dc_Overrides (ps_Config s))) n"
  let ?req = "\<lparr>cb_Name = n, cb_Parameters = ps\<rparr>"
  show ?thesis
  proof (cases "buckets w ?m")
    case None
    with create_new [of ?m ?req w cx] CallCreate show ?thesis
      by (auto simp: names view_def create_response_def Let_def)
  next
    case (Some old)
    with create_again [of ?m ?req w cx] create_existing [of ?m ?req w old cx] CallCreate assms show ?thesis
      by (cases "ov_BucketID (dc_Overrides (ps_Config s)) = []") (auto simp: names view_def create_response_def Let_def)
  qed
next
  case (CallDelete n)
  obtain w1 where "DriverDeleteBucket s cx \<lparr>db_BucketId = n, db_Parameters = extra\<rparr> w = (Ok (Some ()), w1)"
    "buckets w1 = (buckets w)(getBucketID s n := None)" "accesses w1 = accesses w"
    using delete_any [of cx "\<lparr>db_BucketId = n, db_Parameters = extra\<rparr>" w] by auto
  with CallDelete show ?thesis by (simp add: names view_def)
next
  case (CallGrant u ns)
  let ?req = "\<lparr>gb_AccountName = u, gb_Buckets = ns, gb_Parameters = extra\<rparr>"
  let ?present = "takeWhile (\<lambda>n. buckets w n \<noteq> None) ns"
  have named: "map (overridden_name (ov_BucketID (dc_Overrides (ps_Config s)))) ns = ns" using assms CallGrant by simp
  show ?thesis
  proof (cases "ns = []")
    case True
    with CallGrant show ?thesis
      by (simp add: DriverGrantBucketAccess_def resolved io_simps view_def)
  next
    case ne: False
    show ?thesis
    proof (cases "?present = ns")
      case True
      then have "\<forall>n \<in> set ns. buckets w n \<noteq> None" by (simp only: takeWhile_eq_all_conv)
      with grant_ok [of ?req w cx] ne obtain ci w1 where
        "DriverGrantBucketAccess s cx ?req w =
          (Ok (Some \<lparr>gr_AccountId = u, gr_Buckets = map (grant_info b) ns, gr_Credentials = Some ci\<rparr>), w1)"
        "buckets w1 = buckets w" "accesses w1 = (accesses w)(u \<mapsto> last ns)" by auto
      with True ne CallGrant show ?thesis
        by (simp add: view_def grant_info_def o_def Let_def named del: takeWhile_eq_all_conv not_None_eq)
    next
      case False
      then have "dropWhile (\<lambda>n. buckets w n \<noteq> None) ns \<noteq> []"
        by (metis append_Nil2 takeWhile_dropWhile_id)
      then obtain m rest where rest: "dropWhile (\<lambda>n. buckets w n \<noteq> None) ns = m # rest"
        by (cases "dropWhile (\<lambda>n. buckets w n \<noteq> None) ns") auto
      then have missing: "buckets w m = None"
        using hd_dropWhile [of "\<lambda>n. buckets w n \<noteq> None" ns] by auto
      have "gb_Buckets ?req = ?present @ m # rest" using rest takeWhile_dropWhile_id [of "\<lambda>n. buckets w n \<noteq> None" ns] by simp
      moreover have "\<forall>n \<in> set ?present. buckets w n \<noteq> None" by (auto dest: set_takeWhileD)
      ultimately obtain w1 where
        "DriverGrantBucketAccess s cx ?req w = (Err (StatusErrf NotFound ErrBucketNotFound), w1)"
        "buckets w1 = buckets w" "accesses w1 = (if ?present = [] then accesses w else (accesses w)(u \<mapsto> last ?present))"
        using grant_fails [of ?req ?present m rest w cx] missing
        by (auto simp del: takeWhile_eq_all_conv not_None_eq)
      with False ne CallGrant show ?thesis by (simp add: view_def Let_def named del: takeWhile_eq_all_conv not_None_eq)
    qed
  qed
next
  case (CallRevoke u ns)
  show ?thesis
  proof (cases "ns = []")
    case True
    with CallRevoke show ?thesis
      by (simp add: DriverRevokeBucketAccess_def resolved io_simps view_def)
  next
    case False
    with revoke_ok [of "\<lparr>rb_AccountId = u, rb_Buckets = ns, rb_Parameters = extra\<rparr>" cx w] CallRevoke show ?thesis
      by (auto simp: view_def)
  qed
qed

lemma refines_run:
  assumes "within_contract (ov_BucketID (dc_Overrides (ps_Config s))) cs (view w)"
  shows "(case handle_run s cx extra cs w of (as, w1) \<Rightarrow> (as, view w1)) =
     cosi_run (ov_BucketID (dc_Overrides (ps_Config s))) cs (view w)"
  using assms
proof (induction cs arbitrary: w)
  case (Cons c cs)
  obtain a w1 where h: "handle s cx extra c w = (a, w1)" by fastforce
  obtain as w2 where r: "handle_run s cx extra cs w1 = (as, w2)" by fastforce
  from Cons.prems have "contract_call (ov_BucketID (dc_Overrides (ps_Config s))) c (view w)" by simp
  from refines_step [OF this, of cx extra] h
  have step: "cosi_step (ov_BucketID (dc_Overrides (ps_Config s))) c (view w) = (a, view w1)" by simp
  with Cons.prems have "within_contract (ov_BucketID (dc_Overrides (ps_Config s))) cs (view w1)" by simp
  from Cons.IH [OF this] r have "cosi_run (ov_BucketID (dc_Overrides (ps_Config s))) cs (view w1) = (as, view w2)" by simp
  with step show ?case using h r by simp
qed simp

end

end
