(* ===== verification/Startup.thy ===== *)
theory Startup
  imports Tenant Fake Identity CosiSpec
begin

text \<open>
  The driver's start-up (\<open>cmd/ontap-cosi-driver/main.go\<close>): options from the environment variables, the
  choice of the backend by mode, and the servers that are registered.
\<close>

section \<open>Options\<close>

record runOptions =
  ro_driverName :: string
  ro_cosiEndpoint :: string
  ro_configPath :: string
  ro_mgmtEndpoint :: string
  ro_s3Endpoint :: string
  ro_svmUUID :: string
  ro_region :: string
  ro_admin :: S3Credentials
  ro_tls :: TLSConfig
  ro_s3UseSSL :: bool
  ro_multitenant :: bool

text \<open>The process environment is a map; a value is trimmed only after the test for emptiness.\<close>

definition defaultEnv :: "params \<Rightarrow> string \<Rightarrow> string \<Rightarrow> string" where
  "defaultEnv vars key defaultValue =
     (case map_of vars key of
        None \<Rightarrow> defaultValue
      | Some val \<Rightarrow> if val = [] then defaultValue else trim_space val)"

definition asBool :: "string \<Rightarrow> bool" where
  "asBool v = (case parse_bool v of None \<Rightarrow> False | Some b \<Rightarrow> b)"

definition read_options :: "params \<Rightarrow> runOptions" where
  "read_options vars =
     (let mgmtSSL = asBool (defaultEnv vars ''ONTAP_MGMT_USE_SSL'' ''true'')
      in \<lparr>ro_driverName = defaultEnv vars ''X_COSI_DRIVER_NAME'' ''ontap.objectstorage.k8s.io'',
          ro_cosiEndpoint = defaultEnv vars ''COSI_ENDPOINT'' ''unix:///var/lib/cosi/cosi.sock'',
          ro_configPath = defaultEnv vars ''X_COSI_CONFIG'' ''/etc/cosi/config.yaml'',
          ro_mgmtEndpoint = defaultEnv vars ''ONTAP_MGMT_ENDPOINT'' [],
          ro_s3Endpoint = defaultEnv vars ''ONTAP_S3_ENDPOINT'' [],
          ro_svmUUID = defaultEnv vars ''ONTAP_MGMT_SVM_UUID'' [],
          ro_region = defaultEnv vars ''ONTAP_S3_REGION'' [],
          ro_admin = \<lparr>AccessKeyID = defaultEnv vars ''ONTAP_MGMT_USERNAME'' [],
                      AccessSecretKey = defaultEnv vars ''ONTAP_MGMT_PASSWORD'' []\<rparr>,
          ro_tls = \<lparr>tls_SSL = mgmtSSL,
                    tls_CACertPath = defaultEnv vars ''ONTAP_MGMT_CA_CERT_PATH'' [],
                    tls_SkipVerify = asBool (defaultEnv vars ''ONTAP_MGMT_SKIP_TLS_VERIFY'' ''false'')\<rparr>,
          ro_s3UseSSL = asBool (defaultEnv vars ''ONTAP_S3_USE_SSL'' (format_bool mgmtSSL)),
          ro_multitenant = asBool (defaultEnv vars ''ONTAP_MULTITENANT'' ''false'')\<rparr>)"

section \<open>Choice of the backend\<close>

text \<open>
  The backend that \<open>run\<close> ends up with. \<open>SetupNone\<close> is a nil client: no case of the mode switch
  applies to an empty mode, and there is no default case.
\<close>

datatype chosen =
    SetupS3 client "config option"   \<comment> \<open>the defaults of the tenant loader, in multi-tenant mode\<close>
  | SetupFake fake_client
  | SetupNone

definition s3_defaults :: "runOptions \<Rightarrow> config" where
  "s3_defaults opts =
     \<lparr>cfg_Endpoint = ro_mgmtEndpoint opts, cfg_S3Endpoint = ro_s3Endpoint opts,
      cfg_Region = ro_region opts, cfg_SVMUUID = ro_svmUUID opts, cfg_Admin = ro_admin opts,
      cfg_TLS = ro_tls opts, cfg_S3UseSSL = ro_s3UseSSL opts, cfg_CACertPEM = []\<rparr>"

text \<open>
  \<open>kube\<close> holds the errors of \<open>rest.InClusterConfig\<close> and of \<open>kubernetes.NewForConfig\<close>.
\<close>

definition choose_backend ::
  "'o env \<Rightarrow> gerror option \<times> gerror option \<Rightarrow> runOptions \<Rightarrow> string \<Rightarrow> (chosen, gerror) outcome" where
  "choose_backend env kube opts mode =
     (if mode = ModeAzure then Panic ''unimplemented''
      else if mode = ModeS3 then
        (case NewFromConfig env (s3_defaults opts) of
           Err e \<Rightarrow> Err (Wrapped ''unable to create s3 client: '' e)
         | Panic p \<Rightarrow> Panic p
         | Ok c \<Rightarrow>
             if ro_multitenant opts then
               (case kube of
                  (Some e, _) \<Rightarrow> Err (Wrapped ''multi-tenant mode requires an in-cluster configuration: '' e)
                | (None, Some e) \<Rightarrow>
                    Err (Wrapped ''unable to create kubernetes client for multi-tenant mode: '' e)
                | (None, None) \<Rightarrow> Ok (SetupS3 c (Some (s3_defaults opts))))
             else Ok (SetupS3 c None))
      else if mode = ModeAzureFake then
        (case fake_New ''azure'' of Ok c \<Rightarrow> Ok (SetupFake c) | Err e \<Rightarrow> Err e | Panic p \<Rightarrow> Panic p)
      else if mode = ModeS3Fake then
        (case fake_New ''s3'' of Ok c \<Rightarrow> Ok (SetupFake c) | Err e \<Rightarrow> Err e | Panic p \<Rightarrow> Panic p)
      else Ok SetupNone)"

text \<open>The provisioner server for the two kinds of world, and the identity server.\<close>

definition s3_server ::
  "'o env \<Rightarrow> string list \<Rightarrow> Config \<Rightarrow> chosen \<Rightarrow> 'o world ProvisionerServer" where
  "s3_server env order cfg chosen_backend =
     (case chosen_backend of
        SetupS3 c tenant \<Rightarrow>
          \<lparr>ps_Client = Some (s3_backend env c), ps_Config = cfg,
           ps_Tenant = map_option (Load env order) tenant\<rparr>
      | _ \<Rightarrow> \<lparr>ps_Client = None, ps_Config = cfg, ps_Tenant = None\<rparr>)"

definition fake_server :: "rnd \<Rightarrow> Config \<Rightarrow> chosen \<Rightarrow> fake_world ProvisionerServer" where
  "fake_server rnd cfg chosen_backend =
     (case chosen_backend of
        SetupFake c \<Rightarrow> \<lparr>ps_Client = Some (fake_backend rnd c), ps_Config = cfg, ps_Tenant = None\<rparr>
      | _ \<Rightarrow> \<lparr>ps_Client = None, ps_Config = cfg, ps_Tenant = None\<rparr>)"

definition identity_server :: "runOptions \<Rightarrow> IdentityServer" where
  "identity_server opts = \<lparr>id_Name = ro_driverName opts\<rparr>"

text \<open>
  The start of \<open>run\<close>: the configuration file is opened and decoded (\<open>opened\<close> and \<open>decoded\<close> are the
  results of the two library calls), then the backend is chosen.
\<close>

definition run_setup ::
  "'o env \<Rightarrow> gerror option \<times> gerror option \<Rightarrow> gerror option \<Rightarrow> gerror + Config \<Rightarrow> runOptions \<Rightarrow>
   (Config \<times> chosen, gerror) outcome" where
  "run_setup env kube opened decoded opts =
     (case opened of
        Some e \<Rightarrow> Err (Wrapped ''unable to open config: '' e)
      | None \<Rightarrow>
          (case decoded of
             Inl e \<Rightarrow> Err (Wrapped ''unable to read config: '' e)
           | Inr cfg \<Rightarrow>
               (case choose_backend env kube opts (dc_Mode cfg) of
                  Ok st \<Rightarrow> Ok (cfg, st)
                | Err e \<Rightarrow> Err e
                | Panic p \<Rightarrow> Panic p)))"

section \<open>The servers keep their contracts\<close>

interpretation s3_servers: safe_server "s3_server env order cfg (SetupS3 c tn)"
  for env :: "'o env" and order cfg c tn
proof unfold_locales
  show "\<exists>b. ps_Client (s3_server env order cfg (SetupS3 c tn)) = Some b \<and> safe_backend b"
    by (simp add: s3_server_def s3_safe.safe_backend_axioms)
next
  fix load cx ns w
  assume "ps_Tenant (s3_server env order cfg (SetupS3 c tn)) = Some load"
  then show "no_panic (fst (load cx ns w))"
    by (auto simp: s3_server_def Load_no_panic)
next
  fix load cx ns w r w1
  assume "ps_Tenant (s3_server env order cfg (SetupS3 c tn)) = Some load" "load cx ns w = (Ok r, w1)"
  then show "\<exists>b. r = Some b \<and> safe_backend b"
    by (auto simp: s3_server_def s3_safe.safe_backend_axioms dest!: Load_Ok)
qed

interpretation fake_servers: safe_server "fake_server rnd cfg (SetupFake c)" for rnd cfg c
  by unfold_locales (simp_all add: fake_server_def fake_safe.safe_backend_axioms)

interpretation fake_stores: store_server "fake_backend rnd c" fw_Buckets fw_Accesses
    "fake_server rnd (cfg\<lparr>dc_Errors := dc_Errors zero_Config\<rparr>) (SetupFake c)" for rnd c cfg
  by unfold_locales (simp_all add: fake_server_def)

text \<open>
  C2: No RPC handler of a driver set up with a backend panics, whatever the ONTAP system, the
  network and the Kubernetes API answer, in single- and multi-tenant mode, and over the fake
  backend (whose comparison would dereference a nil pointer for a missing bucket).
\<close>

theorem handlers_never_panic:
  "no_panic (fst (DriverCreateBucket (s3_server env order cfg (SetupS3 c tn)) cx cb w)) \<and>
   no_panic (fst (DriverDeleteBucket (s3_server env order cfg (SetupS3 c tn)) cx db w)) \<and>
   no_panic (fst (DriverGrantBucketAccess (s3_server env order cfg (SetupS3 c tn)) cx gb w)) \<and>
   no_panic (fst (DriverRevokeBucketAccess (s3_server env order cfg (SetupS3 c tn)) cx rb w)) \<and>
   no_panic (fst (DriverCreateBucket (fake_server rnd cfg (SetupFake f)) cx cb fw)) \<and>
   no_panic (fst (DriverDeleteBucket (fake_server rnd cfg (SetupFake f)) cx db fw)) \<and>
   no_panic (fst (DriverGrantBucketAccess (fake_server rnd cfg (SetupFake f)) cx gb fw)) \<and>
   no_panic (fst (DriverRevokeBucketAccess (fake_server rnd cfg (SetupFake f)) cx rb fw))"
  by (simp add: s3_servers.handlers_safe fake_servers.handlers_safe)

section \<open>The fake driver end to end\<close>

definition plain_config :: "Config \<Rightarrow> bool" where
  "plain_config cfg = (dc_Errors cfg = dc_Errors zero_Config \<and> ov_BucketID (dc_Overrides cfg) = [])"

lemma plain_config_errors: "plain_config cfg \<Longrightarrow> cfg\<lparr>dc_Errors := dc_Errors zero_Config\<rparr> = cfg"
  by (cases cfg) (simp add: plain_config_def)

lemma plain_config_names:
  assumes "plain_config cfg"
  shows "getName (fake_server rnd cfg (SetupFake c)) n = (n, True)"
    "getBucketID (fake_server rnd cfg (SetupFake c)) n = n"
  using assms by (simp_all add: plain_config_def getName_def getBucketID_def fake_server_def)

text \<open>
  On the fake driver without an override, a creation request succeeds and leaves the bucket
  in the store, and a repeated request gives the same answer and changes nothing.
\<close>

theorem fake_create_idempotent:
  assumes "plain_config cfg"
    and "DriverCreateBucket (fake_server rnd cfg (SetupFake c)) cx \<lparr>cb_Name = n, cb_Parameters = ps\<rparr> w = (r, w1)"
  shows "r = Ok (Some (create_response (fake_backend rnd c) n)) \<and>
    fw_Buckets w1 = (if fw_Buckets w n = None then (fw_Buckets w)(n \<mapsto> ps) else fw_Buckets w) \<and>
    DriverCreateBucket (fake_server rnd cfg (SetupFake c)) cx \<lparr>cb_Name = n, cb_Parameters = qs\<rparr> w1 = (r, w1)"
proof -
  let ?s = "fake_server rnd cfg (SetupFake c)"
  note new = fake_stores.create_new [where cfg = cfg and rnd = rnd and c = c, unfolded plain_config_errors [OF assms(1)]]
  note again = fake_stores.create_again [where cfg = cfg and rnd = rnd and c = c, unfolded plain_config_errors [OF assms(1)]]
  show ?thesis
  proof (cases "fw_Buckets w n")
    case None
    then show ?thesis
      using new [of n "\<lparr>cb_Name = n, cb_Parameters = ps\<rparr>" w cx] assms(2)
        again [of n "\<lparr>cb_Name = n, cb_Parameters = qs\<rparr>" w1 cx]
      by (auto simp: plain_config_names [OF assms(1)])
  next
    case (Some old)
    then show ?thesis
      using again [of n "\<lparr>cb_Name = n, cb_Parameters = ps\<rparr>" w cx]
        again [of n "\<lparr>cb_Name = n, cb_Parameters = qs\<rparr>" w cx] assms(2)
      by (auto simp: plain_config_names [OF assms(1)])
  qed
qed

text \<open>
  On the fake driver, creating a new bucket, granting a new account access to it, revoking
  the access and deleting the bucket all succeed, have the stated effect on the store, and leave
  the store as it was.
\<close>

theorem fake_lifecycle:
  assumes "plain_config cfg" "fw_Buckets w n = None" "fw_Accesses w u = None"
  shows "\<exists>ci w1 w2 w3 w4.
    DriverCreateBucket (fake_server rnd cfg (SetupFake c)) cx \<lparr>cb_Name = n, cb_Parameters = ps\<rparr> w =
      (Ok (Some (create_response (fake_backend rnd c) n)), w1) \<and> fw_Buckets w1 n = Some ps \<and>
    DriverGrantBucketAccess (fake_server rnd cfg (SetupFake c)) cx
        \<lparr>gb_AccountName = u, gb_Buckets = [n], gb_Parameters = ps\<rparr> w1 =
      (Ok (Some \<lparr>gr_AccountId = u, gr_Buckets = [grant_info (fake_backend rnd c) n], gr_Credentials = Some ci\<rparr>), w2) \<and>
    fw_Accesses w2 u = Some n \<and>
    DriverRevokeBucketAccess (fake_server rnd cfg (SetupFake c)) cx
        \<lparr>rb_AccountId = u, rb_Buckets = [n], rb_Parameters = ps\<rparr> w2 = (Ok (Some ()), w3) \<and>
    DriverDeleteBucket (fake_server rnd cfg (SetupFake c)) cx \<lparr>db_BucketId = n, db_Parameters = ps\<rparr> w3 =
      (Ok (Some ()), w4) \<and>
    fw_Buckets w4 = fw_Buckets w \<and> fw_Accesses w4 = fw_Accesses w"
proof -
  let ?s = "fake_server rnd cfg (SetupFake c)"
  note un = plain_config_errors [OF assms(1)]
  note names = plain_config_names [OF assms(1)]
  obtain w1 where w1: "DriverCreateBucket ?s cx \<lparr>cb_Name = n, cb_Parameters = ps\<rparr> w =
      (Ok (Some (create_response (fake_backend rnd c) n)), w1)"
    "fw_Buckets w1 = (fw_Buckets w)(n \<mapsto> ps)" "fw_Accesses w1 = fw_Accesses w"
    using fake_stores.create_new [where cfg = cfg and rnd = rnd and c = c, unfolded un,
        of n "\<lparr>cb_Name = n, cb_Parameters = ps\<rparr>" w cx] assms(2) names by auto
  obtain ci w2 where w2: "DriverGrantBucketAccess ?s cx \<lparr>gb_AccountName = u, gb_Buckets = [n], gb_Parameters = ps\<rparr> w1 =
      (Ok (Some \<lparr>gr_AccountId = u, gr_Buckets = [grant_info (fake_backend rnd c) n], gr_Credentials = Some ci\<rparr>), w2)"
    "fw_Buckets w2 = fw_Buckets w1" "fw_Accesses w2 = (fw_Accesses w1)(u \<mapsto> n)"
    using fake_stores.grant_ok [where cfg = cfg and rnd = rnd and c = c, unfolded un,
        of "\<lparr>gb_AccountName = u, gb_Buckets = [n], gb_Parameters = ps\<rparr>" w1 cx] w1(2) by auto
  obtain w3 where w3: "DriverRevokeBucketAccess ?s cx \<lparr>rb_AccountId = u, rb_Buckets = [n], rb_Parameters = ps\<rparr> w2 =
      (Ok (Some ()), w3)" "fw_Buckets w3 = fw_Buckets w2" "fw_Accesses w3 = (fw_Accesses w2)(u := None)"
    using fake_stores.revoke_ok [where cfg = cfg and rnd = rnd and c = c, unfolded un,
        of "\<lparr>rb_AccountId = u, rb_Buckets = [n], rb_Parameters = ps\<rparr>" cx w2] by auto
  obtain w4 where w4: "DriverDeleteBucket ?s cx \<lparr>db_BucketId = n, db_Parameters = ps\<rparr> w3 = (Ok (Some ()), w4)"
    "fw_Buckets w4 = (fw_Buckets w3)(n := None)" "fw_Accesses w4 = fw_Accesses w3"
    using fake_stores.delete_any [where cfg = cfg and rnd = rnd and c = c, unfolded un,
        of cx "\<lparr>db_BucketId = n, db_Parameters = ps\<rparr>" w3] names by auto
  have "fw_Buckets w4 = fw_Buckets w" "fw_Accesses w4 = fw_Accesses w"
    using assms(2,3) w1 w2 w3 w4 by (auto simp: fun_eq_iff)
  with w1 w2 w3 w4 show ?thesis by (intro exI [of _ ci] exI [of _ w1] exI [of _ w2] exI [of _ w3] exI [of _ w4]) simp
qed

text \<open>
  A grant for several buckets stops with NotFound at the first missing one; the accesses
  made before it stay.
\<close>

theorem fake_grant_stops_at_missing_bucket:
  assumes "plain_config cfg" "\<forall>n \<in> set ns. fw_Buckets w n \<noteq> None" "fw_Buckets w m = None"
  shows "\<exists>w1. DriverGrantBucketAccess (fake_server rnd cfg (SetupFake c)) cx
      \<lparr>gb_AccountName = u, gb_Buckets = ns @ m # rest, gb_Parameters = ps\<rparr> w =
      (Err (StatusErrf NotFound ErrBucketNotFound), w1) \<and>
    fw_Accesses w1 = (if ns = [] then fw_Accesses w else (fw_Accesses w)(u \<mapsto> last ns))"
  using fake_stores.grant_fails [where cfg = cfg and rnd = rnd and c = c, unfolded plain_config_errors [OF assms(1)],
      of "\<lparr>gb_AccountName = u, gb_Buckets = ns @ m # rest, gb_Parameters = ps\<rparr>" ns m rest w cx] assms(2,3)
  by auto

section \<open>The fake driver implements the abstract machine\<close>






section \<open>Start-up\<close>

text \<open>
  Management TLS is on if its variable is unset or empty or reads as true, and off for any
  other value, also one that is no boolean; S3 SSL follows the management setting if its own
  variable is unset or empty.
\<close>

theorem ssl_options:
  "(tls_SSL (ro_tls (read_options vars)) \<longleftrightarrow>
      (case map_of vars ''ONTAP_MGMT_USE_SSL'' of
         None \<Rightarrow> True
       | Some v \<Rightarrow> v = [] \<or> parse_bool (trim_space v) = Some True)) \<and>
   (ro_s3UseSSL (read_options vars) \<longleftrightarrow>
      (case map_of vars ''ONTAP_S3_USE_SSL'' of
         None \<Rightarrow> tls_SSL (ro_tls (read_options vars))
       | Some v \<Rightarrow> if v = [] then tls_SSL (ro_tls (read_options vars)) else parse_bool (trim_space v) = Some True))"
proof -
  have "parse_bool ''true'' = Some True" by code_simp
  then show ?thesis
    by (auto simp: read_options_def Let_def defaultEnv_def asBool_def split: option.splits)
qed

text \<open>
  The mode alone chooses the backend: s3:impl an ONTAP client from the options, with a
  tenant loader over the same options exactly in multi-tenant mode; a fake mode the fake client
  of its platform; any other mode but azure:impl none.
\<close>

theorem choose_backend_spec:
  assumes "choose_backend env kube opts mode = Ok chosen_backend"
  shows "case chosen_backend of
      SetupS3 c tenant \<Rightarrow> mode = ModeS3 \<and> NewFromConfig env (s3_defaults opts) = Ok c \<and>
        tenant = (if ro_multitenant opts then Some (s3_defaults opts) else None) \<and>
        (ro_multitenant opts \<longrightarrow> kube = (None, None))
    | SetupFake c \<Rightarrow> fc_platform c = (if mode = ModeS3Fake then S3Key else AzureKey) \<and>
        mode \<in> {ModeS3Fake, ModeAzureFake}
    | SetupNone \<Rightarrow> mode \<notin> {ModeAzure, ModeAzureFake, ModeS3, ModeS3Fake}"
proof -
  have modes: "ModeAzureFake \<noteq> ModeS3" "ModeS3Fake \<noteq> ModeS3" "ModeS3Fake \<noteq> ModeAzureFake" "ModeAzureFake \<noteq> ModeS3Fake"
    by code_simp+
  have fakes: "fake_New ''azure'' = Ok c \<Longrightarrow> fc_platform c = AzureKey" "fake_New ''s3'' = Ok c \<Longrightarrow> fc_platform c = S3Key" for c
    by (auto simp: fake_New_def AzureKey_def S3Key_def)
  show ?thesis
    using assms modes fakes
    by (auto simp: choose_backend_def split: if_splits outcome.splits prod.splits option.splits)
qed

text \<open>
  C31: A configuration without a mode, whatever else it says, is accepted at start-up and leaves
  the server without a client: every create and delete, and every grant and revoke of at least
  one bucket, for which no error is injected, panics.
\<close>

theorem missing_mode_panics:
  assumes "dc_Mode cfg = []" "bs \<noteq> []"
  shows "run_setup env kube None (Inr cfg) opts = Ok (cfg, SetupNone) \<and>
    (er_CreateBucket (dc_Errors cfg) = None \<longrightarrow>
      (\<exists>msg. DriverCreateBucket (s3_server env order cfg SetupNone) cx \<lparr>cb_Name = n, cb_Parameters = ps\<rparr> w = (Panic msg, w))) \<and>
    (er_DeleteBucket (dc_Errors cfg) = None \<longrightarrow>
      (\<exists>msg. DriverDeleteBucket (s3_server env order cfg SetupNone) cx \<lparr>db_BucketId = n, db_Parameters = ps\<rparr> w = (Panic msg, w))) \<and>
    (er_GrantBucketAccess (dc_Errors cfg) = None \<longrightarrow>
      (\<exists>msg. DriverGrantBucketAccess (s3_server env order cfg SetupNone) cx
        \<lparr>gb_AccountName = u, gb_Buckets = bs, gb_Parameters = ps\<rparr> w = (Panic msg, w))) \<and>
    (er_RevokeBucketAccess (dc_Errors cfg) = None \<longrightarrow>
      (\<exists>msg. DriverRevokeBucketAccess (s3_server env order cfg SetupNone) cx
        \<lparr>rb_AccountId = u, rb_Buckets = bs, rb_Parameters = ps\<rparr> w = (Panic msg, w)))"
proof -
  have "[] \<noteq> ModeAzure" "[] \<noteq> ModeAzureFake" "[] \<noteq> ModeS3" "[] \<noteq> ModeS3Fake"
    by code_simp+
  with assms show ?thesis
    by (simp add: run_setup_def choose_backend_def s3_server_def DriverCreateBucket_def DriverDeleteBucket_def
        DriverGrantBucketAccess_def DriverRevokeBucketAccess_def resolveClient_def call_def getName_def io_simps Let_def
        split: prod.split)
qed

lemma missing_mode_panics_witness:
  "\<exists>msg. DriverRevokeBucketAccess (s3_server scripted [] zero_Config SetupNone) None
     \<lparr>rb_AccountId = ''u'', rb_Buckets = [''b''], rb_Parameters = []\<rparr> (play []) = (Panic msg, play [])"
  using missing_mode_panics [of zero_Config "[''b'']" scripted "(None, None)" "read_options []" "[]" None "''b''" "[]" "play []" "''u''"]
  by (simp add: zero_Config_def)

end
