(* ===== verification/Lifecycle.thy ===== *)
theory Lifecycle
  imports Startup
begin

text \<open>
  The life of the process (\<open>cmd/ontap-cosi-driver/main.go\<close>): the registration of the services, the
  listener and its clean-up, and the shutdown on a signal, as a step relation whose steps are those of
  the goroutine of \<open>run\<close>, of the goroutine \<open>shutdown\<close>, and of the goroutine inside it that waits for
  the graceful stop. The operating system and the gRPC server are parameters.
\<close>

section \<open>Registration and listener\<close>

text \<open>
  \<open>grpcServer\<close>. The interfaces are options, \<open>None\<close> being nil; the result stands for the gRPC server
  with the two services registered on it.
\<close>

definition grpcServer ::
  "IdentityServer option \<Rightarrow> 'w ProvisionerServer option \<Rightarrow>
   (IdentityServer \<times> 'w ProvisionerServer, gerror) outcome" where
  "grpcServer identity provisioner =
     (case (identity, provisioner) of
        (Some i, Some p) \<Rightarrow> Ok (i, p)
      | _ \<Rightarrow> Err (ErrText ''identity and provisioner servers cannot be nil''))"

text \<open>
  What the driver uses of the operating system, over its state \<open>'f\<close>: \<open>os.Remove\<close> of a path, and
  \<open>Listen\<close> on a network and an address. Each returns its error, if any.
\<close>

record 'f os_lib =
  os_Remove :: "string \<Rightarrow> 'f \<Rightarrow> gerror option \<times> 'f"
  net_Listen :: "string \<Rightarrow> string \<Rightarrow> 'f \<Rightarrow> gerror option \<times> 'f"

definition remove_socket :: "'f os_lib \<Rightarrow> url \<Rightarrow> 'f \<Rightarrow> 'f" where
  "remove_socket os u f = (if u_Scheme u = ''unix'' then snd (os_Remove os (u_Path u) f) else f)"

text \<open>
  \<open>listener\<close> removes a stale socket and listens; its result is the clean-up. Both ignore the error of
  \<open>os.Remove\<close>, except for a log line of the clean-up.
\<close>

definition listener :: "'f os_lib \<Rightarrow> string \<Rightarrow> ('f \<Rightarrow> 'f, gerror, 'f) io" where
  "listener os cosiEndpoint f =
     (case url_parse cosiEndpoint of
        None \<Rightarrow> (Err (Wrapped ''unable to parse COSI endpoint: '' (ErrText ''url'')), f)
      | Some endpointURL \<Rightarrow>
          (case net_Listen os (u_Scheme endpointURL) (u_Path endpointURL) (remove_socket os endpointURL f) of
             (Some e, f1) \<Rightarrow> (Err (Wrapped ''unable to create listener: '' e), f1)
           | (None, f1) \<Rightarrow> (Ok (remove_socket os endpointURL), f1)))"

text \<open>
  Between the choice of the backend and the call of \<open>Serve\<close>, \<open>run\<close> registers the services and opens
  the listener.
\<close>

definition run_listen ::
  "'f os_lib \<Rightarrow> runOptions \<Rightarrow> 'w ProvisionerServer \<Rightarrow>
   ((IdentityServer \<times> 'w ProvisionerServer) \<times> ('f \<Rightarrow> 'f), gerror, 'f) io" where
  "run_listen os opts provisioner f =
     (case grpcServer (Some (identity_server opts)) (Some provisioner) of
        Err e \<Rightarrow> (Err (Wrapped ''gRPC server creation failed: '' e), f)
      | Panic p \<Rightarrow> (Panic p, f)
      | Ok server \<Rightarrow>
          (case listener os (ro_cosiEndpoint opts) f of
             (Ok cleanup, f1) \<Rightarrow> (Ok (server, cleanup), f1)
           | (Err e, f1) \<Rightarrow> (Err (Wrapped (''failed to create listener for '' @ ro_cosiEndpoint opts @ '': '') e), f1)
           | (Panic p, f1) \<Rightarrow> (Panic p, f1)))"

text \<open>
  \<open>run\<close> up to the call of \<open>Serve\<close>, for the two kinds of provisioner servers (\<open>mk_server\<close> is \<open>s3_server\<close> or
  \<open>fake_server\<close>). From there on \<open>process_step\<close> describes it, beginning with \<open>start_process\<close>.
\<close>

definition run_until_serve ::
  "'o env \<Rightarrow> gerror option \<times> gerror option \<Rightarrow> gerror option \<Rightarrow> gerror + Config \<Rightarrow>
   (Config \<Rightarrow> chosen \<Rightarrow> 'w ProvisionerServer) \<Rightarrow> 'f os_lib \<Rightarrow> runOptions \<Rightarrow>
   ((IdentityServer \<times> 'w ProvisionerServer) \<times> ('f \<Rightarrow> 'f), gerror, 'f) io" where
  "run_until_serve env kube opened decoded mk_server os opts f =
     (case run_setup env kube opened decoded opts of
        Err e \<Rightarrow> (Err e, f)
      | Panic p \<Rightarrow> (Panic p, f)
      | Ok (cfg, backend) \<Rightarrow> run_listen os opts (mk_server cfg backend) f)"

subsection \<open>The address of an endpoint\<close>

text \<open>Characters that stand for themselves in the path or the host of an endpoint.\<close>

definition plain_char :: "char \<Rightarrow> bool" where
  "plain_char c = (alnum c \<or> c \<in> set ''-._~'')"

lemma plain_char_facts:
  assumes "plain_char c"
  shows "c \<noteq> CHR ''#''" "c \<noteq> CHR ''?''" "c \<noteq> CHR ''%''" "c \<noteq> CHR ''/''" "c \<noteq> CHR ''@''" "c \<noteq> CHR '':''" "c \<noteq> CHR ''[''"
    "\<not> ctl_byte c" "\<not> should_escape EncPath c" "\<not> should_escape EncHost c"
  using assms by (auto simp: plain_char_def alnum_def is_alpha_def is_digit_def ctl_byte_def should_escape_def byte_def)

lemma cut_absent: "d \<notin> set s \<Longrightarrow> cut d s = (s, [], False)"
  by (induction s) auto

lemma cut_last_absent: "d \<notin> set s \<Longrightarrow> cut_last d s = (s, [], False)"
  by (simp add: cut_last_def cut_absent)

lemma unescape_plain:
  assumes "list_all (\<lambda>c. c \<noteq> CHR ''%'' \<and> \<not> should_escape m c) s" "m \<noteq> EncQueryComponent"
  shows "unescape m s = Some s"
  using assms(1) by (induction s) (use assms(2) in auto)

definition plain_endpoint_char :: "char \<Rightarrow> bool" where
  "plain_endpoint_char c = (plain_char c \<or> c = CHR ''/'' \<or> c = CHR '':'')"

lemma plain_endpoint_absent:
  assumes "list_all plain_endpoint_char s"
  shows "CHR ''#'' \<notin> set s" "CHR ''?'' \<notin> set s" "CHR ''@'' \<notin> set s" "CHR ''['' \<notin> set s" "\<not> list_ex ctl_byte s"
proof -
  have c: "c \<noteq> CHR ''#'' \<and> c \<noteq> CHR ''?'' \<and> c \<noteq> CHR ''@'' \<and> c \<noteq> CHR ''['' \<and> \<not> ctl_byte c" if "c \<in> set s" for c
  proof -
    from assms that have "plain_endpoint_char c" by (simp add: list_all_iff)
    then consider "plain_char c" | "c = CHR ''/''" | "c = CHR '':''" by (auto simp: plain_endpoint_char_def)
    then show ?thesis by cases (use plain_char_facts in \<open>auto simp: ctl_byte_def byte_def\<close>)
  qed
  then show "CHR ''#'' \<notin> set s" "CHR ''?'' \<notin> set s" "CHR ''@'' \<notin> set s" "CHR ''['' \<notin> set s" "\<not> list_ex ctl_byte s"
    by (auto simp: list_ex_iff)
qed

lemma plain_endpoint_escape:
  assumes "plain_endpoint_char c"
  shows "c \<noteq> CHR ''%''" "\<not> should_escape EncPath c" "c \<noteq> CHR ''/'' \<Longrightarrow> \<not> should_escape EncHost c"
proof -
  have lits: "\<not> should_escape EncPath CHR ''/''" "\<not> should_escape EncPath CHR '':''" "\<not> should_escape EncHost CHR '':''"
    by code_simp+
  from assms consider "plain_char c" | "c = CHR ''/''" | "c = CHR '':''" by (auto simp: plain_endpoint_char_def)
  then have "c \<noteq> CHR ''%'' \<and> \<not> should_escape EncPath c \<and> (c \<noteq> CHR ''/'' \<longrightarrow> \<not> should_escape EncHost c)"
    by cases (use lits plain_char_facts [of c] in auto)
  then show "c \<noteq> CHR ''%''" "\<not> should_escape EncPath c" "c \<noteq> CHR ''/'' \<Longrightarrow> \<not> should_escape EncHost c"
    by blast+
qed

lemma parse_host_plain:
  assumes "list_all plain_endpoint_char auth" "CHR ''/'' \<notin> set auth"
    and "list_all is_digit (fst (snd (cut CHR '':'' auth)))" "scheme \<notin> {''postgresql'', ''postgres''}"
  shows "parse_authority scheme auth = Some (None, auth)"
proof -
  have "unescape EncHost auth = Some auth"
  proof (rule unescape_plain)
    show "list_all (\<lambda>c. c \<noteq> CHR ''%'' \<and> \<not> should_escape EncHost c) auth"
      by (rule list.pred_mono_strong [OF assms(1)]) (use assms(2) plain_endpoint_escape in blast)
  qed simp
  with assms show ?thesis
    by (auto simp: parse_authority_def parse_host_def plain_endpoint_absent cut_last_absent split: prod.split)
qed

lemma set_escaped_plain:
  assumes "list_all plain_endpoint_char p"
  shows "set_escaped EncPath p = Some (p, [])"
proof -
  have "list_all (\<lambda>c. c \<noteq> CHR ''%'' \<and> \<not> should_escape EncPath c) p"
    by (rule list.pred_mono_strong [OF assms]) (use plain_endpoint_escape in blast)
  moreover then have "escape EncPath p = p"
    by (intro escape_id) (simp add: list_all_iff)
  ultimately show ?thesis
    by (simp add: set_escaped_def unescape_plain)
qed

text \<open>
  An endpoint \<open>scheme://authority/path\<close> of plain characters: what \<open>listener\<close> reads of it is the scheme
  and the path; the authority is not used.
\<close>

lemma url_parse_endpoint:
  assumes sch: "sch = ''unix'' \<or> sch = ''tcp''"
    and auth: "list_all plain_endpoint_char auth" "CHR ''/'' \<notin> set auth"
      "list_all is_digit (fst (snd (cut CHR '':'' auth)))"
    and path: "list_all plain_endpoint_char p" "p = [] \<or> hd p = CHR ''/''"
  shows "url_parse (sch @ ''://'' @ auth @ p) = Some (empty_url\<lparr>u_Scheme := sch, u_Host := auth, u_Path := p\<rparr>)"
proof -
  let ?rest = "''//'' @ auth @ p"
  have absent: "CHR ''#'' \<notin> set ?rest" "CHR ''?'' \<notin> set ?rest" "\<not> list_ex ctl_byte ?rest"
    using plain_endpoint_absent [OF auth(1)] plain_endpoint_absent [OF path(1)] by (auto simp: ctl_byte_def byte_def)
  have "list_all plain_endpoint_char (sch @ CHR '':'' # ?rest)"
    using auth path sch by (auto simp: plain_endpoint_char_def plain_char_def alnum_def is_alpha_def byte_def)
  then have absent_raw: "CHR ''#'' \<notin> set (sch @ CHR '':'' # ?rest)" "\<not> list_ex ctl_byte (sch @ CHR '':'' # ?rest)"
    by (blast dest: plain_endpoint_absent)+
  have scheme: "get_scheme (sch @ CHR '':'' # ?rest) = Some (sch, ?rest)"
    using sch by (auto simp: get_scheme_def is_alpha_def is_digit_def byte_def)
  have lower: "map ascii_lower sch = sch" "sch \<noteq> []" "sch \<notin> {''postgresql'', ''postgres''}" 
    using sch by (auto simp: ascii_lower_def byte_def)
  have slice: "takeWhile (\<lambda>c. c \<noteq> CHR ''/'') (auth @ p) = auth" "dropWhile (\<lambda>c. c \<noteq> CHR ''/'') (auth @ p) = p"
    using auth(2) path(2) by (cases p; force simp: takeWhile_append dropWhile_append)+
  have "\<not> suffix ''?'' ?rest"
    using absent(2) set_mono_suffix by fastforce
  then have "parse_no_fragment (sch @ CHR '':'' # ?rest) = parse_rest (empty_url\<lparr>u_Scheme := sch\<rparr>) ?rest"
    using absent_raw(2) scheme lower(1,2) sch cut_absent [OF absent(2)]
    by (auto simp: parse_no_fragment_def Let_def empty_url_def)
  also have "\<dots> = Some (empty_url\<lparr>u_Scheme := sch, u_Host := auth, u_Path := p\<rparr>)"
    using lower slice parse_host_plain [OF auth lower(3)] set_escaped_plain [OF path(1)]
    by (simp add: parse_rest_def empty_url_def)
  finally show ?thesis
    using cut_absent [OF absent_raw(1)] by (simp add: url_parse_def)
qed

text \<open>
  On an endpoint unix://path, a stale socket at the path is removed, the driver listens
  there, and the clean-up removes that path again; a failure to listen is reported with nothing
  to clean up.
\<close>

theorem listener_unix:
  assumes "list_all plain_endpoint_char p" "hd p = CHR ''/''"
  shows "listener os (''unix://'' @ p) f =
    (case net_Listen os ''unix'' p (snd (os_Remove os p f)) of
       (None, f1) \<Rightarrow> (Ok (\<lambda>f2. snd (os_Remove os p f2)), f1)
     | (Some e, f1) \<Rightarrow> (Err (Wrapped ''unable to create listener: '' e), f1))"
proof -
  have "url_parse (''unix://'' @ p) = Some (empty_url\<lparr>u_Scheme := ''unix'', u_Host := [], u_Path := p\<rparr>)"
    using url_parse_endpoint [of "''unix''" "[]" p] assms by simp
  then show ?thesis
    by (simp add: listener_def remove_socket_def fun_eq_iff split: prod.split option.split)
qed

text \<open>
  C40: On an endpoint tcp://host:port the host and the port are ignored: the driver listens on
  the empty address, whatever they are; no file is removed.
\<close>

theorem listener_tcp_ignores_address:
  assumes "list_all plain_endpoint_char addr" "CHR ''/'' \<notin> set addr"
    and "list_all is_digit (fst (snd (cut CHR '':'' addr)))"
  shows "listener os (''tcp://'' @ addr) f =
    (case net_Listen os ''tcp'' [] f of
       (None, f1) \<Rightarrow> (Ok (\<lambda>f2. f2), f1)
     | (Some e, f1) \<Rightarrow> (Err (Wrapped ''unable to create listener: '' e), f1))"
proof -
  have "url_parse (''tcp://'' @ addr) = Some (empty_url\<lparr>u_Scheme := ''tcp'', u_Host := addr, u_Path := []\<rparr>)"
    using url_parse_endpoint [of "''tcp''" addr "[]"] assms by simp
  then show ?thesis
    by (simp add: listener_def remove_socket_def fun_eq_iff split: prod.split option.split)
qed

section \<open>The process as a step relation\<close>

text \<open>
  The gRPC server is a parameter over its own state \<open>'g\<close>: the calls of \<open>Serve\<close>, \<open>GracefulStop\<close> and
  \<open>Stop\<close> change the state when they are made and return when the server lets them; \<open>gl_moves\<close> is what the
  server does by itself (connections, RPCs that start and end). The last three fields observe the
  state: the RPCs that are neither finished nor cancelled, whether one of the two stops was called, and
  whether \<open>Serve\<close> was called after that.
\<close>

record 'g grpc_lib =
  gl_Serve :: "'g \<Rightarrow> 'g"
  gl_Serve_returns :: "'g \<Rightarrow> gerror option \<Rightarrow> bool"
  gl_GracefulStop :: "'g \<Rightarrow> 'g"
  gl_GracefulStop_returns :: "'g \<Rightarrow> bool"
  gl_Stop :: "'g \<Rightarrow> 'g"
  gl_Stop_returns :: "'g \<Rightarrow> bool"
  gl_moves :: "'g \<Rightarrow> 'g \<Rightarrow> bool"
  gl_pending :: "'g \<Rightarrow> nat"
  gl_stopping :: "'g \<Rightarrow> bool"
  gl_refused :: "'g \<Rightarrow> bool"

text \<open>
  What the package documents. \<open>Serve\<close> returns a non-nil error unless \<open>Stop\<close> or \<open>GracefulStop\<close> is called;
  on a stopped server it is illegal (\<open>ErrServerStopped\<close>). \<open>GracefulStop\<close> accepts no new RPCs and blocks
  until all pending ones are finished. \<open>Stop\<close> closes all connections and cancels all active RPCs. Once
  a stopping server has no RPC left, all three calls can return.
\<close>

definition observers_kept :: "'g grpc_lib \<Rightarrow> 'g \<Rightarrow> 'g \<Rightarrow> bool" where
  "observers_kept L g g' =
     ((gl_stopping L g \<longrightarrow> gl_stopping L g' \<and> gl_pending L g' \<le> gl_pending L g) \<and>
      (gl_refused L g \<longrightarrow> gl_refused L g'))"

definition documented_server :: "'g grpc_lib \<Rightarrow> bool" where
  "documented_server L =
     (\<forall>g. observers_kept L g (gl_Serve L g) \<and> observers_kept L g (gl_GracefulStop L g) \<and>
        observers_kept L g (gl_Stop L g) \<and> (\<forall>g'. gl_moves L g g' \<longrightarrow> observers_kept L g g') \<and>
        gl_stopping L (gl_GracefulStop L g) \<and>
        gl_stopping L (gl_Stop L g) \<and> gl_pending L (gl_Stop L g) = 0 \<and>
        (gl_stopping L g \<longrightarrow> gl_refused L (gl_Serve L g)) \<and>
        (gl_Serve_returns L g None \<longrightarrow> gl_stopping L g \<and> \<not> gl_refused L g) \<and>
        (gl_GracefulStop_returns L g \<longrightarrow> gl_pending L g = 0) \<and>
        (gl_stopping L g \<and> gl_pending L g = 0 \<longrightarrow>
           (\<exists>r. gl_Serve_returns L g r) \<and> gl_GracefulStop_returns L g \<and> gl_Stop_returns L g))"

text \<open>
  Where the three goroutines are. \<open>Draining t\<close> is the \<open>select\<close> loop whose context was made at time \<open>t\<close>.
\<close>

datatype main_at = BeforeServe | InServe | InWait | Returned "gerror option"
datatype shutdown_end = Drained | Forced | NoServer
datatype shutdown_at = AwaitSignal | Draining nat | InStop nat | Ended shutdown_end nat
datatype drainer_at = NotStarted | Started | InGracefulStop | Sending | Finished

text \<open>
  The state they share: the wait group's counter, the number of values in the channel \<open>c\<close>, whether the
  signal context is done, the clock in milliseconds, the gRPC server (\<open>None\<close> is a nil pointer) and the
  state of the operating system.
\<close>

record ('g, 'f) process =
  pr_main :: main_at
  pr_shutdown :: shutdown_at
  pr_drainer :: drainer_at
  pr_wg :: int
  pr_chan :: nat
  pr_signalled :: bool
  pr_now :: nat
  pr_server :: "'g option"
  pr_os :: 'f

definition gracePeriod :: nat where
  "gracePeriod = 5 * 1000"

definition chan_capacity :: nat where
  "chan_capacity = 1"

text \<open>The process when \<open>run\<close> has started \<open>shutdown\<close> and is about to call \<open>Serve\<close>.\<close>

definition start_process :: "'g \<Rightarrow> nat \<Rightarrow> 'f \<Rightarrow> ('g, 'f) process" where
  "start_process g t f =
     \<lparr>pr_main = BeforeServe, pr_shutdown = AwaitSignal, pr_drainer = NotStarted, pr_wg = 1, pr_chan = 0,
      pr_signalled = False, pr_now = t, pr_server = Some g, pr_os = f\<rparr>"

text \<open>The deferred calls of \<open>run\<close>: the clean-up of the listener, and \<open>stop\<close>, which ends the context.\<close>

definition leave_run :: "('f \<Rightarrow> 'f) \<Rightarrow> gerror option \<Rightarrow> ('g, 'f) process \<Rightarrow> ('g, 'f) process" where
  "leave_run cleanup r p = p\<lparr>pr_main := Returned r, pr_os := cleanup (pr_os p), pr_signalled := True\<rparr>"

definition end_shutdown :: "shutdown_end \<Rightarrow> nat \<Rightarrow> ('g, 'f) process \<Rightarrow> ('g, 'f) process" where
  "end_shutdown how t p = p\<lparr>pr_shutdown := Ended how t, pr_wg := pr_wg p - 1\<rparr>"

datatype actor = World | Run | Shutdown | Drainer

text \<open>
  The steps. \<open>World\<close>: time passes, the signal arrives, the server works. \<open>Run\<close>: \<open>Serve\<close> is called and
  returns, \<open>wg.Wait\<close> passes. \<open>Shutdown\<close>: the goroutine wakes up on the signal and starts the drainer, its
  \<open>select\<close> takes a case that is ready (either one, if both are), \<open>Stop\<close> returns. \<open>Drainer\<close>: \<open>GracefulStop\<close>
  is called and returns, the value is sent if the channel has room.
\<close>

inductive process_step ::
  "'g grpc_lib \<Rightarrow> ('f \<Rightarrow> 'f) \<Rightarrow> actor \<Rightarrow> ('g, 'f) process \<Rightarrow> ('g, 'f) process \<Rightarrow> bool"
  for L :: "'g grpc_lib" and cleanup :: "'f \<Rightarrow> 'f"
  where
    tick: "process_step L cleanup World p (p\<lparr>pr_now := pr_now p + d\<rparr>)"
  | signal: "process_step L cleanup World p (p\<lparr>pr_signalled := True\<rparr>)"
  | work: "pr_server p = Some g \<Longrightarrow> gl_moves L g g' \<Longrightarrow>
      process_step L cleanup World p (p\<lparr>pr_server := Some g'\<rparr>)"
  | serve: "pr_main p = BeforeServe \<Longrightarrow> pr_server p = Some g \<Longrightarrow>
      process_step L cleanup Run p (p\<lparr>pr_main := InServe, pr_server := Some (gl_Serve L g)\<rparr>)"
  | serve_err: "pr_main p = InServe \<Longrightarrow> pr_server p = Some g \<Longrightarrow> gl_Serve_returns L g (Some e) \<Longrightarrow>
      process_step L cleanup Run p (leave_run cleanup (Some (Wrapped ''gRPC server failed: '' e)) p)"
  | serve_nil: "pr_main p = InServe \<Longrightarrow> pr_server p = Some g \<Longrightarrow> gl_Serve_returns L g None \<Longrightarrow>
      process_step L cleanup Run p (p\<lparr>pr_main := InWait\<rparr>)"
  | wait_: "pr_main p = InWait \<Longrightarrow> pr_wg p = 0 \<Longrightarrow>
      process_step L cleanup Run p (leave_run cleanup None p)"
  | shut: "pr_shutdown p = AwaitSignal \<Longrightarrow> pr_signalled p \<Longrightarrow> pr_server p = Some g \<Longrightarrow>
      process_step L cleanup Shutdown p (p\<lparr>pr_shutdown := Draining (pr_now p), pr_drainer := Started\<rparr>)"
  | shut_nil: "pr_shutdown p = AwaitSignal \<Longrightarrow> pr_signalled p \<Longrightarrow> pr_server p = None \<Longrightarrow>
      process_step L cleanup Shutdown p (end_shutdown NoServer (pr_now p) p)"
  | force: "pr_shutdown p = Draining t \<Longrightarrow> t + gracePeriod \<le> pr_now p \<Longrightarrow> pr_server p = Some g \<Longrightarrow>
      process_step L cleanup Shutdown p (p\<lparr>pr_shutdown := InStop t, pr_server := Some (gl_Stop L g)\<rparr>)"
  | forced: "pr_shutdown p = InStop t \<Longrightarrow> pr_server p = Some g \<Longrightarrow> gl_Stop_returns L g \<Longrightarrow>
      process_step L cleanup Shutdown p (end_shutdown Forced t p)"
  | drained: "pr_shutdown p = Draining t \<Longrightarrow> 0 < pr_chan p \<Longrightarrow>
      process_step L cleanup Shutdown p (end_shutdown Drained t (p\<lparr>pr_chan := pr_chan p - 1\<rparr>))"
  | graceful: "pr_drainer p = Started \<Longrightarrow> pr_server p = Some g \<Longrightarrow>
      process_step L cleanup Drainer p (p\<lparr>pr_drainer := InGracefulStop, pr_server := Some (gl_GracefulStop L g)\<rparr>)"
  | stopped: "pr_drainer p = InGracefulStop \<Longrightarrow> pr_server p = Some g \<Longrightarrow> gl_GracefulStop_returns L g \<Longrightarrow>
      process_step L cleanup Drainer p (p\<lparr>pr_drainer := Sending\<rparr>)"
  | send: "pr_drainer p = Sending \<Longrightarrow> pr_chan p < chan_capacity \<Longrightarrow>
      process_step L cleanup Drainer p (p\<lparr>pr_drainer := Finished, pr_chan := pr_chan p + 1\<rparr>)"

inductive_cases run_stepE: "process_step L cleanup Run p p'"
inductive_cases shutdown_stepE: "process_step L cleanup Shutdown p p'"
inductive_cases drainer_stepE: "process_step L cleanup Drainer p p'"

text \<open>Runs of the process, with the actors of their steps.\<close>

inductive process_run ::
  "'g grpc_lib \<Rightarrow> ('f \<Rightarrow> 'f) \<Rightarrow> ('g, 'f) process \<Rightarrow> actor list \<Rightarrow> ('g, 'f) process \<Rightarrow> bool"
  for L :: "'g grpc_lib" and cleanup :: "'f \<Rightarrow> 'f"
  where
    run_nil: "process_run L cleanup p [] p"
  | run_step: "process_run L cleanup p as q \<Longrightarrow> process_step L cleanup a q r \<Longrightarrow> process_run L cleanup p (as @ [a]) r"

section \<open>The invariant of the process\<close>

text \<open>Three groups: the goroutines among themselves, the server, and what \<open>run\<close> has done.\<close>

fun ended :: "shutdown_at \<Rightarrow> shutdown_end option" where
  "ended (Ended how _) = Some how"
| "ended _ = None"

fun forced_since :: "shutdown_at \<Rightarrow> nat option" where
  "forced_since (InStop t) = Some t"
| "forced_since (Ended Forced t) = Some t"
| "forced_since _ = None"

definition goroutines_ok :: "('g, 'f) process \<Rightarrow> bool" where
  "goroutines_ok p =
     (pr_wg p = (if ended (pr_shutdown p) = None then 1 else 0) \<and>
      pr_chan p = (if pr_drainer p = Finished \<and> ended (pr_shutdown p) \<noteq> Some Drained then 1 else 0) \<and>
      (pr_shutdown p = AwaitSignal \<longleftrightarrow> pr_drainer p = NotStarted) \<and>
      (ended (pr_shutdown p) = Some Drained \<longrightarrow> pr_drainer p = Finished) \<and>
      ended (pr_shutdown p) \<noteq> Some NoServer \<and>
      (pr_shutdown p \<noteq> AwaitSignal \<longrightarrow> pr_signalled p) \<and>
      (\<forall>t. pr_shutdown p = Draining t \<longrightarrow> t \<le> pr_now p) \<and>
      (case forced_since (pr_shutdown p) of None \<Rightarrow> True | Some t \<Rightarrow> t + gracePeriod \<le> pr_now p))"

definition server_ok :: "'g grpc_lib \<Rightarrow> ('g, 'f) process \<Rightarrow> bool" where
  "server_ok L p =
     (case pr_server p of
        None \<Rightarrow> False
      | Some g \<Rightarrow>
          (pr_drainer p \<in> {InGracefulStop, Sending, Finished} \<longrightarrow> gl_stopping L g) \<and>
          (pr_drainer p \<in> {Sending, Finished} \<longrightarrow> gl_pending L g = 0) \<and>
          (forced_since (pr_shutdown p) \<noteq> None \<longrightarrow> gl_stopping L g \<and> gl_pending L g = 0))"

definition main_ok :: "('f \<Rightarrow> 'f) \<Rightarrow> 'f \<Rightarrow> ('g, 'f) process \<Rightarrow> bool" where
  "main_ok cleanup f p =
     (pr_os p = (case pr_main p of Returned _ \<Rightarrow> cleanup f | _ \<Rightarrow> f) \<and>
      (pr_main p = Returned None \<longrightarrow> ended (pr_shutdown p) \<noteq> None))"

lemma start_process_ok:
  "goroutines_ok (start_process g t f)" "server_ok L (start_process g t f)" "main_ok cleanup f (start_process g t f)"
  by (simp_all add: goroutines_ok_def server_ok_def main_ok_def start_process_def)

lemmas step_defs = leave_run_def end_shutdown_def

lemma goroutines_step:
  assumes "process_step L cleanup a p q" "goroutines_ok p" "server_ok L p"
  shows "goroutines_ok q"
  using assms(1)
proof cases
  case (shut_nil) with assms(3) show ?thesis by (simp add: server_ok_def)
next
  case (tick d) with assms(2) show ?thesis by (auto simp: goroutines_ok_def intro: trans_le_add1 split: option.splits)
qed (use assms(2) in \<open>auto simp: goroutines_ok_def step_defs chan_capacity_def split: option.splits if_splits\<close>)

lemma server_step:
  assumes "documented_server L" "process_step L cleanup a p q" "goroutines_ok p" "server_ok L p"
  shows "server_ok L q"
  using assms(2)
proof cases
  case (work g g')
  with assms(1) have "observers_kept L g g'" by (simp add: documented_server_def)
  with work assms(3,4) show ?thesis by (auto simp: server_ok_def observers_kept_def)
next
  case (serve g)
  from assms(1) have "observers_kept L g (gl_Serve L g)" by (simp add: documented_server_def)
  with serve assms(3,4) show ?thesis by (auto simp: server_ok_def observers_kept_def)
next
  case (graceful g)
  from assms(1) have "observers_kept L g (gl_GracefulStop L g)" "gl_stopping L (gl_GracefulStop L g)"
    by (simp_all add: documented_server_def)
  with graceful assms(3,4) show ?thesis by (auto simp: server_ok_def observers_kept_def)
next
  case (force t g)
  with assms(1,4) show ?thesis by (simp add: documented_server_def server_ok_def)
next
  case (stopped g)
  with assms(1,4) show ?thesis by (simp add: documented_server_def server_ok_def)
qed (use assms(3,4) in \<open>auto simp: server_ok_def step_defs goroutines_ok_def split: option.splits\<close>)

lemma main_step:
  assumes "process_step L cleanup a p q" "goroutines_ok p" "main_ok cleanup f p"
  shows "main_ok cleanup f q"
  using assms(1)
proof cases
  case wait_
  with assms(2,3) show ?thesis by (simp add: goroutines_ok_def main_ok_def step_defs split: if_splits)
qed (use assms(3) in \<open>auto simp: main_ok_def step_defs split: main_at.splits\<close>)

lemma process_run_ok:
  assumes "process_run L cleanup (start_process g t f) as p" "documented_server L"
  shows "goroutines_ok p \<and> server_ok L p \<and> main_ok cleanup f p"
  using assms(1)
proof (induction "start_process g t f" as p rule: process_run.induct)
  case run_nil
  show ?case by (simp add: start_process_ok)
next
  case (run_step as q a r)
  then have ok: "goroutines_ok q" "server_ok L q" "main_ok cleanup f q" by simp_all
  show ?case
    using goroutines_step [OF run_step(3) ok(1,2)] server_step [OF assms(2) run_step(3) ok(1,2)]
      main_step [OF run_step(3) ok(1,3)] by simp
qed

text \<open>
  C34: When run returns nil, the shutdown goroutine has ended, either because every RPC had
  finished or after the grace period with Stop; the server accepts nothing more and no RPC is
  left; the listener was cleaned up exactly once.
\<close>

theorem run_returns_drained:
  assumes "documented_server L" "process_run L cleanup (start_process g t f) as p" "pr_main p = Returned None"
  shows "\<exists>how t0 g1. pr_shutdown p = Ended how t0 \<and> how \<noteq> NoServer \<and> pr_server p = Some g1 \<and>
    gl_stopping L g1 \<and> gl_pending L g1 = 0 \<and> pr_os p = cleanup f"
proof -
  note ok = process_run_ok [OF assms(2,1)]
  from ok assms(3) obtain how t0 where ended: "pr_shutdown p = Ended how t0"
    by (cases "pr_shutdown p") (auto simp: main_ok_def)
  from ok obtain g1 where "pr_server p = Some g1" by (auto simp: server_ok_def split: option.splits)
  with ok assms(3) ended show ?thesis
    by (cases how) (auto simp: main_ok_def server_ok_def goroutines_ok_def)
qed

text \<open>What is known at \<open>p\<close> if the shutdown goroutine was still waiting for the signal at the time \<open>T\<close>.\<close>

definition begun_since :: "nat \<Rightarrow> ('g, 'f) process \<Rightarrow> bool" where
  "begun_since T p \<longleftrightarrow> T \<le> pr_now p \<and>
     (\<forall>t. pr_shutdown p = Draining t \<longrightarrow> T \<le> t \<and> pr_signalled p) \<and>
     (\<forall>t. forced_since (pr_shutdown p) = Some t \<longrightarrow> T \<le> t \<and> t + gracePeriod \<le> pr_now p \<and> pr_signalled p)"

lemma begun_since_step:
  assumes "process_step L cleanup a p q" "begun_since T p"
  shows "begun_since T q"
  using assms by (cases rule: process_step.cases) (auto simp: begun_since_def step_defs)

lemma begun_since_run:
  assumes "process_run L cleanup p as q" "begun_since T p"
  shows "begun_since T q"
  using assms by (induction rule: process_run.induct) (auto intro: begun_since_step)

text \<open>
  C36: Stop, which cancels the running RPCs, is called only after a signal, and in no state
  earlier than the grace period of five seconds after the last moment at which the shutdown
  goroutine was still waiting for the signal.
\<close>

theorem stop_after_grace:
  assumes "process_run L cleanup (start_process g t f) as p" "pr_shutdown p = AwaitSignal"
    and "process_run L cleanup p bs q" "forced_since (pr_shutdown q) \<noteq> None"
  shows "pr_now p + 5000 \<le> pr_now q \<and> pr_signalled q"
proof -
  have "begun_since (pr_now p) p" using assms(2) by (simp add: begun_since_def)
  from begun_since_run [OF assms(3) this] assms(4) show ?thesis
    by (auto simp: begun_since_def gracePeriod_def)
qed

text \<open>
  C38: No goroutine of the shutdown is left blocked: whenever the drainer is about to send, the
  channel has room (also when nobody receives any more), and the counter of the wait group is
  one until the shutdown has ended and zero after it, so that Done never makes it negative.
\<close>

theorem shutdown_leaks_nothing:
  assumes "documented_server L" "process_run L cleanup (start_process g t f) as p"
  shows "(pr_drainer p = Sending \<longrightarrow> (\<exists>q. process_step L cleanup Drainer p q \<and> pr_drainer q = Finished)) \<and>
    pr_wg p = (if ended (pr_shutdown p) = None then 1 else 0)"
proof
  note ok = process_run_ok [OF assms(2,1)]
  show "pr_wg p = (if ended (pr_shutdown p) = None then 1 else 0)"
    using ok by (simp add: goroutines_ok_def)
  show "pr_drainer p = Sending \<longrightarrow> (\<exists>q. process_step L cleanup Drainer p q \<and> pr_drainer q = Finished)"
  proof
    assume "pr_drainer p = Sending"
    moreover with ok have "pr_chan p < chan_capacity"
      by (simp add: goroutines_ok_def chan_capacity_def split: if_splits)
    ultimately have "process_step L cleanup Drainer p (p\<lparr>pr_drainer := Finished, pr_chan := pr_chan p + 1\<rparr>)"
      by (rule process_step.send)
    then show "\<exists>q. process_step L cleanup Drainer p q \<and> pr_drainer q = Finished" by force
  qed
qed

section \<open>The shutdown ends\<close>

fun main_rank :: "main_at \<Rightarrow> nat" where
  "main_rank BeforeServe = 3" | "main_rank InServe = 2" | "main_rank InWait = 1" | "main_rank (Returned _) = 0"

fun shutdown_rank :: "shutdown_at \<Rightarrow> nat" where
  "shutdown_rank AwaitSignal = 3" | "shutdown_rank (Draining _) = 2" | "shutdown_rank (InStop _) = 1"
| "shutdown_rank (Ended _ _) = 0"

fun drainer_rank :: "drainer_at \<Rightarrow> nat" where
  "drainer_rank NotStarted = 3" | "drainer_rank Started = 3" | "drainer_rank InGracefulStop = 2"
| "drainer_rank Sending = 1" | "drainer_rank Finished = 0"

definition process_rank :: "('g, 'f) process \<Rightarrow> nat" where
  "process_rank p = main_rank (pr_main p) + shutdown_rank (pr_shutdown p) + drainer_rank (pr_drainer p)"

definition drainer_waits :: "('g, 'f) process \<Rightarrow> bool" where
  "drainer_waits p = (pr_shutdown p = AwaitSignal \<longrightarrow> pr_drainer p = NotStarted)"

lemma process_step_rank:
  assumes "process_step L cleanup a p q" "drainer_waits p"
  shows "drainer_waits q \<and> (if a = World then process_rank q = process_rank p else process_rank q < process_rank p)"
  using assms(1)
  by cases (use assms(2) in \<open>simp_all add: drainer_waits_def process_rank_def step_defs\<close>)

lemma process_run_rank:
  assumes "process_run L cleanup p as q" "drainer_waits p"
  shows "drainer_waits q \<and> length (filter ((\<noteq>) World) as) + process_rank q \<le> process_rank p"
  using assms
proof (induction rule: process_run.induct)
  case (run_step p as q a r)
  with process_step_rank [OF run_step(2)] show ?case by (auto split: if_splits)
qed simp

text \<open>
  C37: The goroutines of the process make at most nine steps in any run, however long the server
  works and time passes: the select loop of shutdown does not spin.
\<close>

theorem process_steps_bounded:
  assumes "process_run L cleanup (start_process g t f) as p"
  shows "length (filter ((\<noteq>) World) as) \<le> 9"
proof -
  have "drainer_waits (start_process g t f)" "process_rank (start_process g t f) = 9"
    by (simp_all add: drainer_waits_def start_process_def process_rank_def)
  with process_run_rank [OF assms] show ?thesis by simp
qed

lemma process_step_free:
  assumes "documented_server L" "goroutines_ok p" "server_ok L p" "main_ok cleanup f p" "pr_signalled p"
    and "\<forall>r. pr_main p \<noteq> Returned r" "\<forall>t. pr_shutdown p = Draining t \<longrightarrow> t + gracePeriod \<le> pr_now p"
  shows "\<exists>a q. a \<in> {Run, Shutdown} \<and> process_step L cleanup a p q"
proof -
  from assms(3) obtain g where g: "pr_server p = Some g" by (auto simp: server_ok_def split: option.splits)
  have quiet: "gl_stopping L g \<and> gl_pending L g = 0" if "forced_since (pr_shutdown p) \<noteq> None \<or> ended (pr_shutdown p) \<noteq> None"
    using that assms(2,3) g by (auto simp: goroutines_ok_def server_ok_def elim!: ended.elims forced_since.elims)
  have free: "(\<exists>r. gl_Serve_returns L g r) \<and> gl_Stop_returns L g" if "gl_stopping L g \<and> gl_pending L g = 0"
    using that assms(1) by (simp add: documented_server_def)
  show ?thesis
  proof (cases "pr_shutdown p")
    case AwaitSignal
    from process_step.shut [OF this assms(5) g] show ?thesis by blast
  next
    case (Draining t)
    from process_step.force [OF this _ g] Draining assms(7) show ?thesis by blast
  next
    case (InStop t)
    with quiet free process_step.forced [OF InStop g] show ?thesis by fastforce
  next
    case (Ended how t)
    with assms(2) have wg: "pr_wg p = 0" by (simp add: goroutines_ok_def)
    show ?thesis
    proof (cases "pr_main p")
      case BeforeServe
      from process_step.serve [OF this g] show ?thesis by blast
    next
      case InServe
      from quiet free Ended obtain r where "gl_Serve_returns L g r" by auto
      with process_step.serve_err [OF InServe g] process_step.serve_nil [OF InServe g] show ?thesis
        by (cases r) blast+
    next
      case InWait
      from process_step.wait_ [OF this wg] show ?thesis by blast
    qed (use assms(6) in simp)
  qed
qed

lemma shutdown_progress_step:
  assumes "documented_server L" "process_run L cleanup (start_process g t f) as p"
    and "pr_signalled p" "\<forall>r. pr_main p \<noteq> Returned r"
  shows "\<exists>a q. a \<in> {Run, Shutdown} \<and> process_step L cleanup a (p\<lparr>pr_now := pr_now p + 5000\<rparr>) q"
proof -
  let ?p = "p\<lparr>pr_now := pr_now p + 5000\<rparr>"
  note ok = process_run_ok [OF process_run.run_step [OF assms(2) process_step.tick [where d = 5000]] assms(1)]
  from process_run_ok [OF assms(2,1)] have "\<forall>t0. pr_shutdown p = Draining t0 \<longrightarrow> t0 \<le> pr_now p"
    by (simp add: goroutines_ok_def)
  then show ?thesis
    using process_step_free [OF assms(1), of "p\<lparr>pr_now := pr_now p + 5000\<rparr>" cleanup f] ok assms(3,4)
    by (simp add: gracePeriod_def)
qed

lemma process_run_append:
  assumes "process_run L cleanup q bs r" "process_run L cleanup p as q"
  shows "process_run L cleanup p (as @ bs) r"
  using assms
proof (induction rule: process_run.induct)
  case (run_step q bs r b r')
  then have "process_run L cleanup p ((as @ bs) @ [b]) r'" by (blast intro: process_run.run_step)
  then show ?case by simp
qed simp

lemma shutdown_run:
  assumes "documented_server L" "process_run L cleanup (start_process g t f) as p" "pr_signalled p"
  shows "\<exists>bs q r. process_run L cleanup p bs q \<and> pr_main q = Returned r \<and> Drainer \<notin> set bs"
  using assms(2,3)
proof (induction "process_rank p" arbitrary: p as rule: less_induct)
  case less
  show ?case
  proof (cases "\<exists>r. pr_main p = Returned r")
    case True
    then show ?thesis
      by (intro exI [of _ "[]"] exI [of _ p]) (auto intro: process_run.run_nil)
  next
    case False
    let ?p = "p\<lparr>pr_now := pr_now p + 5000\<rparr>"
    from False shutdown_progress_step [OF assms(1) less.prems] obtain a q where
      step: "a \<in> {Run, Shutdown}" "process_step L cleanup a ?p q" by auto
    have tick: "process_run L cleanup p [World] ?p"
      using process_run.run_step [OF process_run.run_nil process_step.tick] by fastforce
    then have two: "process_run L cleanup p [World, a] q"
      using process_run.run_step [OF _ step(2)] by fastforce
    have waits: "drainer_waits ?p"
      using process_run_rank [OF less.prems(1)] by (simp add: drainer_waits_def start_process_def)
    have "process_rank q < process_rank p"
      using process_step_rank [OF step(2) waits] step(1) by (auto simp: process_rank_def)
    moreover have "pr_signalled q"
      using step(2) less.prems(2) by cases (simp_all add: step_defs)
    ultimately obtain bs r q' where "process_run L cleanup q bs q'" "pr_main q' = Returned r" "Drainer \<notin> set bs"
      using less.hyps process_run_append [OF two less.prems(1)] by blast
    with step(1) process_run_append [OF _ two, of bs q'] show ?thesis
      by (intro exI [of _ "[World, a] @ bs"] exI [of _ q'] exI [of _ r]) auto
  qed
qed

text \<open>
  C35: After the signal the process is never stuck: while run has not returned, its goroutine or
  that of shutdown has a step to make, at the latest when another five seconds have passed,
  whatever the RPCs do; and from every such state the process can go on until run returns, even
  if GracefulStop never does.
\<close>

theorem shutdown_returns:
  assumes "documented_server L" "process_run L cleanup (start_process g t f) as p" "pr_signalled p"
  shows "((\<exists>r. pr_main p = Returned r) \<or>
      (\<exists>a q. a \<in> {Run, Shutdown} \<and> process_step L cleanup a (p\<lparr>pr_now := pr_now p + 5000\<rparr>) q)) \<and>
    (\<exists>bs q r. process_run L cleanup p bs q \<and> pr_main q = Returned r \<and> Drainer \<notin> set bs)"
  using shutdown_progress_step [OF assms] shutdown_run [OF assms] by blast

text \<open>The exit status of \<open>main\<close> for the result of \<open>run\<close>.\<close>

definition exit_status :: "gerror option \<Rightarrow> int" where
  "exit_status err = (if err = None then 0 else 1)"

definition serve_fails :: "'g grpc_lib \<Rightarrow> ('g, 'f) process \<Rightarrow> bool" where
  "serve_fails L p =
     (case pr_server p of
        None \<Rightarrow> False
      | Some g \<Rightarrow>
          (pr_main p = BeforeServe \<and> gl_stopping L g) \<or>
          (gl_refused L g \<and> pr_main p \<noteq> InWait \<and> pr_main p \<noteq> Returned None))"

lemma serve_fails_step:
  assumes "documented_server L" "process_step L cleanup a p q" "serve_fails L p"
  shows "serve_fails L q"
  using assms(2)
proof cases
  case (work g g')
  with assms(1) have "observers_kept L g g'" by (simp add: documented_server_def)
  with work assms(3) show ?thesis by (auto simp: serve_fails_def observers_kept_def)
qed (use assms(1,3) in \<open>auto simp: serve_fails_def step_defs documented_server_def observers_kept_def split: option.splits\<close>)

text \<open>
  C39: A signal that arrives before Serve is called makes run fail: if GracefulStop was called
  first, run never returns nil, and the process ends with exit status 1 although it was asked to
  stop.
\<close>

theorem early_signal_fails:
  assumes "documented_server L" "process_run L cleanup (start_process g t f) as p"
    and "pr_main p = BeforeServe" "pr_drainer p \<in> {InGracefulStop, Sending, Finished}"
    and "process_run L cleanup p bs q" "pr_main q = Returned r"
  shows "exit_status r = 1"
proof -
  have "serve_fails L p"
    using process_run_ok [OF assms(2,1)] assms(3,4) by (auto simp: server_ok_def serve_fails_def split: option.splits)
  with assms(5) have "serve_fails L q"
    by (induction rule: process_run.induct) (auto intro: serve_fails_step [OF assms(1)])
  with assms(6) show ?thesis by (auto simp: serve_fails_def exit_status_def split: option.splits)
qed

section \<open>A concrete server\<close>

text \<open>
  A server that counts its RPCs and behaves as documented, for runs of the process: a whole drain, a
  forced stop, and a signal that comes too early.
\<close>

record counting =
  co_pending :: nat
  co_stopping :: bool
  co_refused :: bool

definition counting_server :: "counting grpc_lib" where
  "counting_server =
     \<lparr>gl_Serve = \<lambda>g. if co_stopping g then g\<lparr>co_refused := True\<rparr> else g,
      gl_Serve_returns = \<lambda>g r.
        if co_refused g then r = Some (ErrText ''grpc: the server has been stopped'')
        else co_stopping g \<and> co_pending g = 0 \<and> r = None,
      gl_GracefulStop = \<lambda>g. g\<lparr>co_stopping := True\<rparr>,
      gl_GracefulStop_returns = \<lambda>g. co_pending g = 0,
      gl_Stop = \<lambda>g. g\<lparr>co_stopping := True, co_pending := 0\<rparr>,
      gl_Stop_returns = \<lambda>g. True,
      gl_moves = \<lambda>g g'. \<not> co_stopping g \<and> g' = g\<lparr>co_pending := co_pending g + 1\<rparr> \<or>
        0 < co_pending g \<and> g' = g\<lparr>co_pending := co_pending g - 1\<rparr>,
      gl_pending = co_pending, gl_stopping = co_stopping, gl_refused = co_refused\<rparr>"

definition idle :: counting where
  "idle = \<lparr>co_pending = 0, co_stopping = False, co_refused = False\<rparr>"

lemma counting_documented: "documented_server counting_server"
  by (auto simp: documented_server_def observers_kept_def counting_server_def)

definition at_point ::
  "main_at \<Rightarrow> shutdown_at \<Rightarrow> drainer_at \<Rightarrow> bool \<Rightarrow> nat \<Rightarrow> nat \<Rightarrow> nat \<Rightarrow> bool \<Rightarrow> bool \<Rightarrow> 'f \<Rightarrow> (counting, 'f) process" where
  "at_point m s d sig t ch n stopping refused f =
     \<lparr>pr_main = m, pr_shutdown = s, pr_drainer = d, pr_wg = (if ended s = None then 1 else 0), pr_chan = ch,
      pr_signalled = sig, pr_now = t,
      pr_server = Some \<lparr>co_pending = n, co_stopping = stopping, co_refused = refused\<rparr>, pr_os = f\<rparr>"

lemma start_idle: "start_process idle 0 f = at_point BeforeServe AwaitSignal NotStarted False 0 0 0 False False f"
  by (simp add: start_process_def at_point_def idle_def)

lemma run_to:
  assumes "process_run L cleanup p as q" "process_step L cleanup a q r" "r = r'"
  shows "process_run L cleanup p (as @ [a]) r'"
  using process_run.run_step [OF assms(1,2)] assms(3) by simp

lemmas demo_defs = at_point_def counting_server_def gracePeriod_def chan_capacity_def step_defs

text \<open>An RPC starts, the signal comes, and GracefulStop waits for the RPC.\<close>

lemma demo_prefix:
  "process_run counting_server cleanup (start_process idle 0 f)
     [Run, World, World, Shutdown, Drainer]
     (at_point InServe (Draining 0) InGracefulStop True 0 0 1 True False f)"
proof -
  let ?run = "process_run counting_server cleanup (start_process idle 0 f)"
  have "?run [] (at_point BeforeServe AwaitSignal NotStarted False 0 0 0 False False f)"
    unfolding start_idle by (rule process_run.run_nil)
  from run_to [OF this process_step.serve, where r' = "at_point InServe AwaitSignal NotStarted False 0 0 0 False False f"]
  have "?run [Run]
      (at_point InServe AwaitSignal NotStarted False 0 0 0 False False f)"
    by (simp add: demo_defs)
  from run_to [OF this process_step.work [where g' = "\<lparr>co_pending = 1, co_stopping = False, co_refused = False\<rparr>"], where r' = "at_point InServe AwaitSignal NotStarted False 0 0 1 False False f"]
  have "?run [Run, World]
      (at_point InServe AwaitSignal NotStarted False 0 0 1 False False f)"
    by (simp add: demo_defs)
  from run_to [OF this process_step.signal, where r' = "at_point InServe AwaitSignal NotStarted True 0 0 1 False False f"]
  have "?run [Run, World, World]
      (at_point InServe AwaitSignal NotStarted True 0 0 1 False False f)"
    by (simp add: demo_defs)
  from run_to [OF this process_step.shut, where r' = "at_point InServe (Draining 0) Started True 0 0 1 False False f"]
  have "?run [Run, World, World, Shutdown]
      (at_point InServe (Draining 0) Started True 0 0 1 False False f)"
    by (simp add: demo_defs)
  from run_to [OF this process_step.graceful, where r' = "at_point InServe (Draining 0) InGracefulStop True 0 0 1 True False f"]
  show ?thesis
    by (simp add: demo_defs)
qed

text \<open>The RPC ends in the grace period, and run returns nil.\<close>

lemma demo_drain:
  "process_run counting_server cleanup (start_process idle 0 f)
     [Run, World, World, Shutdown, Drainer, World, Drainer, Drainer, Shutdown, Run, Run]
     (at_point (Returned None) (Ended Drained 0) Finished True 0 0 0 True False (cleanup f))"
proof -
  let ?run = "process_run counting_server cleanup (start_process idle 0 f)"
  note demo_prefix [where cleanup = cleanup and f = f]
  from run_to [OF this process_step.work [where g' = "\<lparr>co_pending = 0, co_stopping = True, co_refused = False\<rparr>"], where r' = "at_point InServe (Draining 0) InGracefulStop True 0 0 0 True False f"]
  have "?run [Run, World, World, Shutdown, Drainer, World]
      (at_point InServe (Draining 0) InGracefulStop True 0 0 0 True False f)"
    by (simp add: demo_defs)
  from run_to [OF this process_step.stopped, where r' = "at_point InServe (Draining 0) Sending True 0 0 0 True False f"]
  have "?run [Run, World, World, Shutdown, Drainer, World, Drainer]
      (at_point InServe (Draining 0) Sending True 0 0 0 True False f)"
    by (simp add: demo_defs)
  from run_to [OF this process_step.send, where r' = "at_point InServe (Draining 0) Finished True 0 1 0 True False f"]
  have "?run [Run, World, World, Shutdown, Drainer, World, Drainer, Drainer]
      (at_point InServe (Draining 0) Finished True 0 1 0 True False f)"
    by (simp add: demo_defs)
  from run_to [OF this process_step.drained, where r' = "at_point InServe (Ended Drained 0) Finished True 0 0 0 True False f"]
  have "?run [Run, World, World, Shutdown, Drainer, World, Drainer, Drainer, Shutdown]
      (at_point InServe (Ended Drained 0) Finished True 0 0 0 True False f)"
    by (simp add: demo_defs)
  from run_to [OF this process_step.serve_nil, where r' = "at_point InWait (Ended Drained 0) Finished True 0 0 0 True False f"]
  have "?run [Run, World, World, Shutdown, Drainer, World, Drainer, Drainer, Shutdown, Run]
      (at_point InWait (Ended Drained 0) Finished True 0 0 0 True False f)"
    by (simp add: demo_defs)
  from run_to [OF this process_step.wait_, where r' = "at_point (Returned None) (Ended Drained 0) Finished True 0 0 0 True False (cleanup f)"]
  show ?thesis
    by (simp add: demo_defs)
qed

text \<open>The RPC does not end, and the server is stopped by force after five seconds.\<close>

lemma demo_forced:
  "process_run counting_server cleanup (start_process idle 0 f)
     [Run, World, World, Shutdown, Drainer, World, Shutdown, Shutdown]
     (at_point InServe (Ended Forced 0) InGracefulStop True 5000 0 0 True False f)"
proof -
  let ?run = "process_run counting_server cleanup (start_process idle 0 f)"
  note demo_prefix [where cleanup = cleanup and f = f]
  from run_to [OF this process_step.tick [where d = 5000], where r' = "at_point InServe (Draining 0) InGracefulStop True 5000 0 1 True False f"]
  have "?run [Run, World, World, Shutdown, Drainer, World]
      (at_point InServe (Draining 0) InGracefulStop True 5000 0 1 True False f)"
    by (simp add: demo_defs)
  from run_to [OF this process_step.force, where r' = "at_point InServe (InStop 0) InGracefulStop True 5000 0 0 True False f"]
  have "?run [Run, World, World, Shutdown, Drainer, World, Shutdown]
      (at_point InServe (InStop 0) InGracefulStop True 5000 0 0 True False f)"
    by (simp add: demo_defs)
  from run_to [OF this process_step.forced, where r' = "at_point InServe (Ended Forced 0) InGracefulStop True 5000 0 0 True False f"]
  show ?thesis
    by (simp add: demo_defs)
qed

text \<open>The signal comes and GracefulStop is called before Serve.\<close>

lemma demo_early:
  "process_run counting_server cleanup (start_process idle 0 f)
     [World, Shutdown, Drainer]
     (at_point BeforeServe (Draining 0) InGracefulStop True 0 0 0 True False f)"
proof -
  let ?run = "process_run counting_server cleanup (start_process idle 0 f)"
  have "?run [] (at_point BeforeServe AwaitSignal NotStarted False 0 0 0 False False f)"
    unfolding start_idle by (rule process_run.run_nil)
  from run_to [OF this process_step.signal, where r' = "at_point BeforeServe AwaitSignal NotStarted True 0 0 0 False False f"]
  have "?run [World]
      (at_point BeforeServe AwaitSignal NotStarted True 0 0 0 False False f)"
    by (simp add: demo_defs)
  from run_to [OF this process_step.shut, where r' = "at_point BeforeServe (Draining 0) Started True 0 0 0 False False f"]
  have "?run [World, Shutdown]
      (at_point BeforeServe (Draining 0) Started True 0 0 0 False False f)"
    by (simp add: demo_defs)
  from run_to [OF this process_step.graceful, where r' = "at_point BeforeServe (Draining 0) InGracefulStop True 0 0 0 True False f"]
  show ?thesis
    by (simp add: demo_defs)
qed

section \<open>Instances of the properties\<close>

lemma run_returns_drained_witness:
  "pr_os (at_point (Returned None) (Ended Drained 0) Finished True 0 0 0 True False (Suc 0)) = Suc 0 \<and>
   (\<exists>how t0. pr_shutdown (at_point (Returned None) (Ended Drained 0) Finished True 0 0 0 True False (Suc 0)) = Ended how t0 \<and>
     how \<noteq> NoServer)"
  using run_returns_drained [OF counting_documented demo_drain [where cleanup = Suc and f = 0]]
  by (auto simp: at_point_def)

lemma stop_after_grace_witness:
  "pr_now (start_process idle 0 (0 :: nat)) + 5000 \<le> pr_now (at_point InServe (Ended Forced 0) InGracefulStop True 5000 0 0 True False (0 :: nat))"
proof -
  have "pr_shutdown (start_process idle 0 (0 :: nat)) = AwaitSignal" by (simp add: start_process_def)
  from stop_after_grace [OF process_run.run_nil this demo_forced [where cleanup = Suc and f = 0]] show ?thesis
    by (simp add: at_point_def)
qed

lemma shutdown_leaks_nothing_witness:
  "pr_wg (at_point InServe (Ended Forced 0) InGracefulStop True 5000 0 0 True False (0 :: nat)) = 0"
  using shutdown_leaks_nothing [OF counting_documented demo_forced [where cleanup = Suc and f = 0]]
  by (simp add: at_point_def)

lemma process_steps_bounded_witness:
  "length (filter ((\<noteq>) World) [Run, World, World, Shutdown, Drainer, World, Drainer, Drainer, Shutdown, Run, Run]) \<le> 9"
  using process_steps_bounded [OF demo_drain [where cleanup = Suc and f = 0]] .

lemma shutdown_returns_witness:
  "\<exists>bs q r. process_run counting_server Suc (at_point InServe (Draining 0) InGracefulStop True 0 0 1 True False 0) bs q \<and>
     pr_main q = Returned r \<and> Drainer \<notin> set bs"
  using shutdown_returns [OF counting_documented demo_prefix [where cleanup = Suc and f = 0]]
  by (simp add: at_point_def)

text \<open>After the early signal: \<open>Serve\<close> is refused, and the process fails.\<close>

lemma early_signal_fails_witness:
  "\<exists>bs q r. process_run counting_server Suc (start_process idle 0 0) bs q \<and> pr_main q = Returned r \<and> exit_status r = 1"
proof -
  let ?p = "at_point BeforeServe (Draining 0) InGracefulStop True 0 0 0 True False (0 :: nat)"
  let ?q = "at_point InServe (Draining 0) InGracefulStop True 0 0 0 True True (0 :: nat)"
  let ?r = "leave_run Suc (Some (Wrapped ''gRPC server failed: '' (ErrText ''grpc: the server has been stopped''))) ?q"
  note early = demo_early [where cleanup = Suc and f = "0 :: nat"]
  from run_to [OF process_run.run_nil process_step.serve, where r' = ?q and p = ?p]
  have "process_run counting_server Suc ?p [Run] ?q"
    by (simp add: demo_defs)
  from run_to [OF this process_step.serve_err, where r' = ?r]
  have tail: "process_run counting_server Suc ?p [Run, Run] ?r"
    by (simp add: demo_defs)
  have "exit_status (Some (Wrapped ''gRPC server failed: '' (ErrText ''grpc: the server has been stopped''))) = 1"
    by (rule early_signal_fails [OF counting_documented early _ _ tail]) (simp_all add: at_point_def leave_run_def)
  with process_run_append [OF tail early] show ?thesis
    by (fastforce simp: leave_run_def)
qed

text \<open>An operating system that writes down the two calls.\<close>

definition logging_os :: "(string \<times> string) list os_lib" where
  "logging_os =
     \<lparr>os_Remove = \<lambda>p f. (None, f @ [(''remove'', p)]),
      net_Listen = \<lambda>n a f. (None, f @ [(n, a)])\<rparr>"

lemma listener_unix_witness:
  "snd (listener logging_os ''unix:///var/lib/cosi/cosi.sock'' []) =
     [(''remove'', ''/var/lib/cosi/cosi.sock''), (''unix'', ''/var/lib/cosi/cosi.sock'')]"
proof -
  have plain: "list_all plain_endpoint_char ''/var/lib/cosi/cosi.sock''" by code_simp
  show ?thesis
    using listener_unix [OF plain, of logging_os "[]"] by (simp add: logging_os_def)
qed

lemma listener_tcp_witness:
  "snd (listener logging_os ''tcp://0.0.0.0:9000'' []) = [(''tcp'', [])]"
proof -
  have plain: "list_all plain_endpoint_char ''0.0.0.0:9000''" "CHR ''/'' \<notin> set ''0.0.0.0:9000''"
    "list_all is_digit (fst (snd (cut CHR '':'' ''0.0.0.0:9000'')))"
    by code_simp+
  show ?thesis
    using listener_tcp_ignores_address [OF plain, of logging_os "[]"] by (simp add: logging_os_def)
qed

end
