(* ===== verification/Wire.thy ===== *)
theory Wire
  imports Buckets Access
begin

text \<open>
  The texts at the border of the driver: the request bodies of the ONTAP client as a JSON reader sees
  them, and the texts of the errors that ONTAP causes. Whatever bytes the names have, a
  body is valid JSON with exactly the members that the code sets.
\<close>

section \<open>Texts and numbers\<close>

lemma utf8_width_take: "utf8_width (take 4 xs) = utf8_width xs"
proof (cases xs)
  case (Cons a r)
  show ?thesis
  proof (cases r)
    case r: (Cons b r2)
    show ?thesis
    proof (cases r2)
      case r2: (Cons c r3)
      then show ?thesis using Cons r by (cases r3) simp_all
    qed (use Cons r in simp)
  qed (use Cons in simp)
qed simp

lemma utf8_width_ascii_end:
  assumes "xs \<noteq> []" "a < 0x80"
  shows "utf8_width (xs @ a # ys) = utf8_width xs"
proof -
  obtain b r where xs: "xs = b # r" using assms(1) by (cases xs) auto
  have low: "\<not> cont lo hi a" if "0x80 \<le> lo" for lo hi using assms(2) that by (simp add: cont_def)
  show ?thesis
  proof (cases r)
    case Nil
    then show ?thesis using xs low by (cases ys; cases "tl ys") simp_all
  next
    case r: (Cons c r2)
    show ?thesis
    proof (cases r2)
      case Nil
      then show ?thesis using xs r low by (cases ys) simp_all
    next
      case r2: (Cons d r3)
      then show ?thesis using xs r low by (cases r3) simp_all
    qed
  qed
qed

lemma utf8_fix_Nil [simp]: "utf8_fix [] = []"
  by (simp add: utf8_fix_def)

lemma utf8_fix_append:
  assumes "is_ascii a"
  shows "utf8_fix (s @ a # t) = utf8_fix s @ utf8_fix (a # t)"
proof (induction s rule: quote_body.induct)
  case (2 c r)
  have same: "utf8_width (map byte (take 4 (c # r @ a # t))) = utf8_width (map byte (take 4 (c # r)))"
    using utf8_width_ascii_end [of "map byte (c # r)" "byte a" "map byte t"] assms
    by (simp only: take_map [symmetric] utf8_width_take is_ascii_def) (simp del: utf8_width.simps)
  show ?case
  proof (cases "utf8_width (map byte (take 4 (c # r)))")
    case None
    then show ?thesis using same 2(1) [OF None] by (simp only: append_Cons unquote_steps(1) append_assoc)
  next
    case (Some k)
    have k: "1 \<le> k" "k \<le> length (c # r)" using take_width(2,3) [OF Some] .
    then have "take k (c # r @ a # t) = take k (c # r)" "drop (k - 1) (r @ a # t) = drop (k - 1) r @ a # t"
      by (simp_all add: Suc_le_eq take_Cons' split: nat.splits)
    then show ?thesis
      using same 2(2) [OF Some] Some by (simp only: append_Cons unquote_steps(2) append_assoc)
  qed
qed simp

lemma utf8_fix_ascii: "list_all is_ascii s \<Longrightarrow> utf8_fix s = s"
  by (simp add: utf8_fix_def unquote_ascii)

lemma format_nat_json:
  assumes "0 \<le> n"
  shows "hd (format_nat n) = CHR ''0'' \<longrightarrow> length (format_nat n) = 1"
  using assms
proof (induction n rule: format_nat.induct)
  case (1 n)
  show ?case
  proof (cases "n < 10")
    case True
    then show ?thesis by (subst (1 2) format_nat.simps) simp
  next
    case False
    with 1 have IH: "hd (format_nat (n div 10)) = CHR ''0'' \<longrightarrow> length (format_nat (n div 10)) = 1"
      by simp
    have ne: "format_nat (n div 10) \<noteq> []" using format_nat_digits [of "n div 10"] False by simp
    have "hd (format_nat (n div 10)) \<noteq> CHR ''0''"
    proof
      assume h: "hd (format_nat (n div 10)) = CHR ''0''"
      with IH ne obtain "format_nat (n div 10) = ''0''" by (cases "format_nat (n div 10)") auto
      with digits_val_format_nat [of "n div 10"] False have "digits_val ''0'' = n div 10" by simp
      moreover have "digits_val ''0'' = 0" by code_simp
      ultimately show False using False by simp
    qed
    with ne False show ?thesis by (subst (1 2) format_nat.simps) simp
  qed
qed

lemma json_number_format_int: "json_number (format_int n)"
proof -
  have nat: "takeWhile is_digit (format_nat m) = format_nat m \<and> dropWhile is_digit (format_nat m) = [] \<and>
      format_nat m \<noteq> [] \<and> \<not> prefix ''-'' (format_nat m) \<and>
      (hd (format_nat m) = CHR ''0'' \<longrightarrow> length (format_nat m) = 1)" if "0 \<le> m" for m
  proof -
    note d = format_nat_digits [OF that]
    then obtain c t where f: "format_nat m = c # t" "is_digit c" by (cases "format_nat m") auto
    then have "c \<noteq> CHR ''-''" by (auto simp: is_digit_def byte_def)
    with d f format_nat_json [OF that] show ?thesis by (auto simp: list_all_iff)
  qed
  show ?thesis
  proof (cases "n < 0")
    case True
    with nat [of "- n"] show ?thesis
      by (simp add: format_int_def json_number_def json_fraction_def Let_def del: takeWhile_eq_all_conv dropWhile_eq_Nil_conv)
  next
    case False
    with nat [of n] show ?thesis
      by (simp add: format_int_def json_number_def json_fraction_def Let_def del: takeWhile_eq_all_conv dropWhile_eq_Nil_conv)
  qed
qed

section \<open>The bodies\<close>

definition text_member :: "string \<Rightarrow> string \<Rightarrow> (string \<times> json)" where
  "text_member k s = (k, JStr (utf8_fix s))"

text \<open>The order of the member names, and texts that every reader gets unchanged.\<close>

lemma key_order:
  "''comment'' \<le> (''name'' :: string)" "\<not> ''name'' \<le> (''comment'' :: string)"
  "''name'' \<le> (''retention'' :: string)" "''comment'' \<le> (''retention'' :: string)"
  "''retention'' \<le> (''size'' :: string)" "\<not> ''size'' \<le> (''retention'' :: string)"
  "''name'' \<le> (''size'' :: string)" "\<not> ''size'' \<le> (''name'' :: string)" "\<not> ''size'' \<le> (''comment'' :: string)"
  "''comment'' \<le> (''size'' :: string)"
  "''default_period'' \<le> (''mode'' :: string)" "\<not> ''mode'' \<le> (''default_period'' :: string)"
  "''name'' \<le> (''statements'' :: string)" "''comment'' \<le> (''statements'' :: string)"
  "''name'' \<le> (''users'' :: string)" "''name'' \<le> (''policies'' :: string)" "''comment'' \<le> (''policies'' :: string)"
  "''comment'' \<le> (''users'' :: string)" "''policies'' \<le> (''users'' :: string)" "\<not> ''users'' \<le> (''policies'' :: string)"
  "''actions'' \<le> (''resources'' :: string)" "''actions'' \<le> (''effect'' :: string)" "\<not> ''effect'' \<le> (''actions'' :: string)"
  "''effect'' \<le> (''resources'' :: string)" "\<not> ''sid'' \<le> (''effect'' :: string)" "\<not> ''sid'' \<le> (''actions'' :: string)"
  "\<not> ''sid'' \<le> (''resources'' :: string)" "''effect'' \<le> (''sid'' :: string)" "''actions'' \<le> (''sid'' :: string)"
  "''resources'' \<le> (''sid'' :: string)"
  by code_simp+

lemma fixed_texts:
  "utf8_fix ''comment'' = ''comment''" "utf8_fix ''name'' = ''name''" "utf8_fix ''retention'' = ''retention''"
  "utf8_fix ''size'' = ''size''" "utf8_fix ''mode'' = ''mode''" "utf8_fix ''default_period'' = ''default_period''"
  "utf8_fix ''governance'' = ''governance''" "utf8_fix ''P1D'' = ''P1D''" "utf8_fix ''statements'' = ''statements''"
  "utf8_fix ''users'' = ''users''" "utf8_fix ''policies'' = ''policies''" "utf8_fix ''actions'' = ''actions''"
  "utf8_fix ''effect'' = ''effect''" "utf8_fix ''resources'' = ''resources''" "utf8_fix ''sid'' = ''sid''"
  "utf8_fix ''COSIAllowBucketAccess'' = ''COSIAllowBucketAccess''" "utf8_fix ''allow'' = ''allow''" "utf8_fix ''*'' = ''*''"
  "utf8_fix ''COSI managed bucket access user'' = ''COSI managed bucket access user''"
  "utf8_fix ''COSI managed S3 access group'' = ''COSI managed S3 access group''"
  by (rule utf8_fix_ascii, code_simp)+

lemmas body_simps = json_map_def key_order fixed_texts text_member_def max_depth_def json_number_format_int

lemma create_body_parse:
  "json_parse (marshal (create_body n sz comment lock)) = Some (JObj
     ((if comment = [] then [] else [text_member ''comment'' comment]) @
      [text_member ''name'' n] @
      (if lock then [(''retention'', JObj [text_member ''default_period'' ''P1D'', text_member ''mode'' ''governance''])]
       else []) @
      [(''size'', JNum (format_int (sint sz)))]))"
proof -
  let ?j = "create_body n sz comment lock"
  have "json_ok ?j" "json_depth ?j \<le> max_depth"
    by (cases "comment = []"; cases lock; simp add: create_body_def body_simps)+
  from json_parse_marshal [OF this] show ?thesis
    by (cases "comment = []"; cases lock; simp add: create_body_def body_simps)
qed

text \<open>
  C22: The body of the creation request is valid JSON, and a reader finds in it exactly the
  comment if there is one, the name, the default retention if the bucket is locked, and the size
  in bytes, whatever bytes the request contains.
\<close>

theorem create_request_body:
  "\<exists>raw. rq_body (create_request c n ps sz lock) = Some raw \<and>
     json_parse raw = Some (JObj
       ((if trim_space (param_get ps commentKey) = [] then []
         else [text_member ''comment'' (trim_space (param_get ps commentKey))]) @
        [text_member ''name'' n] @
        (if lock then [(''retention'', JObj [text_member ''default_period'' ''P1D'', text_member ''mode'' ''governance''])]
         else []) @
        [(''size'', JNum (format_int (sint sz)))]))"
  by (simp add: create_request_def build_request_def create_body_parse)

subsection \<open>Policies, users and groups\<close>

lemma utf8_fix_ascii_append: "list_all is_ascii p \<Longrightarrow> utf8_fix (p @ s) = p @ utf8_fix s"
proof (induction p)
  case (Cons c p)
  then have "unquote (map B [c] @ map B (p @ s)) = [c] @ unquote (map B (p @ s))"
    by (intro unquote_run [of _ 1]) (simp_all add: is_ascii_def)
  with Cons show ?case by (simp add: utf8_fix_def del: unquote.simps)
qed simp

lemma bucket_texts:
  "utf8_fix (''COSI access policy for bucket '' @ b) = ''COSI access policy for bucket '' @ utf8_fix b"
  "utf8_fix (b @ ''/*'') = utf8_fix b @ ''/*''"
proof -
  have "list_all is_ascii ''COSI access policy for bucket ''" by code_simp
  then show "utf8_fix (''COSI access policy for bucket '' @ b) = ''COSI access policy for bucket '' @ utf8_fix b"
    by (rule utf8_fix_ascii_append)
  have "is_ascii CHR ''/''" "list_all is_ascii ''/*''" by code_simp+
  from utf8_fix_append [OF this(1), of b "''*''"] utf8_fix_ascii [OF this(2)]
  show "utf8_fix (b @ ''/*'') = utf8_fix b @ ''/*''" by (simp only:)
qed

definition read_policy :: "string \<Rightarrow> (string \<times> json) list" where
  "read_policy b =
     [(''statements'', JArr [JObj
        [(''actions'', JArr [JStr ''*'']), (''effect'', JStr ''allow''),
         (''resources'', JArr [JStr (utf8_fix b), JStr (utf8_fix b @ ''/*'')]),
         (''sid'', JStr ''COSIAllowBucketAccess'')]])]"

lemma policy_parse:
  "json_parse (marshal (json_map [(''name'', JStr p), (''comment'', policy_comment b), (''statements'', policy_statements b)])) =
     Some (JObj ((''comment'', JStr (''COSI access policy for bucket '' @ utf8_fix b)) # text_member ''name'' p # read_policy b))"
  "json_parse (marshal (json_map [(''comment'', policy_comment b), (''statements'', policy_statements b)])) =
     Some (JObj ((''comment'', JStr (''COSI access policy for bucket '' @ utf8_fix b)) # read_policy b))"
  by (subst json_parse_marshal;
      simp add: policy_comment_def policy_statements_def read_policy_def bucket_texts [simplified] body_simps)+

lemma user_parse:
  "json_parse (marshal (user_body u)) =
     Some (JObj [(''comment'', JStr ''COSI managed bucket access user''), text_member ''name'' u])"
  by (subst json_parse_marshal; simp add: user_body_def body_simps)

lemma group_parse:
  "json_parse (marshal (group_body g u p)) =
     Some (JObj [(''comment'', JStr ''COSI managed S3 access group''), text_member ''name'' g,
       (''policies'', JArr [JObj [text_member ''name'' p]]), (''users'', JArr [JObj [text_member ''name'' u]])])"
  by (subst json_parse_marshal; simp add: group_body_def body_simps)

text \<open>
  C23: The bodies sent for a policy, a user and a group are valid JSON whatever bytes the names
  have: a reader finds one statement that allows everything on the bucket and its objects and on
  nothing else, and a group with exactly this user and this policy.
\<close>

theorem access_request_bodies:
  "(\<exists>raw. rq_body (policy_post c p b) = Some raw \<and>
     json_parse raw = Some (JObj ((''comment'', JStr (''COSI access policy for bucket '' @ utf8_fix b)) #
       text_member ''name'' p # read_policy b))) \<and>
   (\<exists>raw. rq_body (policy_patch c p b) = Some raw \<and>
     json_parse raw = Some (JObj ((''comment'', JStr (''COSI access policy for bucket '' @ utf8_fix b)) # read_policy b))) \<and>
   (\<exists>raw. rq_body (user_post c u) = Some raw \<and>
     json_parse raw = Some (JObj [(''comment'', JStr ''COSI managed bucket access user''), text_member ''name'' u])) \<and>
   (\<exists>raw. rq_body (group_post c g u p) = Some raw \<and>
     json_parse raw = Some (JObj [(''comment'', JStr ''COSI managed S3 access group''), text_member ''name'' g,
       (''policies'', JArr [JObj [text_member ''name'' p]]), (''users'', JArr [JObj [text_member ''name'' u]])]))"
  by (simp add: policy_post_def policy_patch_def user_post_def group_post_def build_request_def
      policy_parse user_parse group_parse)

section \<open>Texts of ONTAP's errors\<close>

lemma visible_ascii:
  "list_all visible ''ontap API error: status=''" "list_all visible '' message=''" "list_all visible ''bucket ''"
  "list_all visible '' job failed: state=''" "list_all visible '' bucket=''" "list_all visible '' code=''"
  "list_all visible ''create''" "list_all visible ''deletion''"
  by (simp_all add: visible_def byte_def)

lemma visible_digit: "is_digit c \<Longrightarrow> visible c"
  by (simp add: is_digit_def visible_def)

lemma visible_format_int: "list_all visible (format_int n)"
proof -
  have "list_all visible (format_nat m)" if "0 \<le> m" for m
    using format_nat_digits [OF that] visible_digit by (simp add: list_all_iff)
  then show ?thesis by (simp add: format_int_def) (simp add: visible_def byte_def)
qed

text \<open>
  C26: Whatever ONTAP answers, the text of the error for a rejected request or a failed job is
  one line without control characters, so that a server's message cannot forge further lines of
  the log or of the RPC's status.
\<close>

theorem ontap_error_texts:
  "list_all visible (error_text is_print (HTTPErr (api_error code raw))) \<and>
   list_all visible (error_text is_print (job_failure ''create'' bucket st)) \<and>
   list_all visible (error_text is_print (job_failure ''deletion'' bucket st))"
  by (simp add: job_failure_def Let_def ontapHTTPError_Error_def ontapJobError_Error_def visible_go_quote
      visible_format_int visible_ascii [simplified])

end
