(* ===== verification/Ontap.thy ===== *)
theory Ontap
  imports Startup Wire
begin

text \<open>
  The driver together with an ONTAP system. What the driver relies on in ONTAP's REST interface is a
  named hypothesis on the environment; under it the creation and deletion of buckets implement the steps
  of an abstract store of sizes.
\<close>

section \<open>What the driver relies on\<close>

text \<open>
  A job that ends: from the state \<open>s\<close> on, its polls are each answered within the poll interval, it is pending
  until the last of at most 150 polls, which reports the terminal state \<open>fin\<close> in the state \<open>s1\<close>.
\<close>

definition job_ends :: "'o env \<Rightarrow> client \<Rightarrow> string \<Rightarrow> 'o \<Rightarrow> 'o \<Rightarrow> string \<Rightarrow> bool" where
  "job_ends env c u s s1 fin =
     (\<exists>N os os' rep d st.
        (\<forall>n \<le> N. env_send env (c_httpClient c) (poll_request c u) (os n) = (rep n, d n, os' n) \<and>
           status_reply (rep n) = Ok (st n) \<and> d n < 2000) \<and>
        (\<forall>n < N. snd (env_choose env (os' n)) = os (Suc n) \<and> \<not> job_terminal (st n)) \<and>
        os 0 = s \<and> os' N = s1 \<and> js_State (st N) = fin \<and> N \<le> 149)"

lemma job_ends_waitForJob:
  assumes "job_ends env c u (node w) s1 fin" "fin = ''success'' \<or> fin = ''failure''"
  shows "\<exists>st w1. waitForJob env c None u w = (Ok st, w1) \<and> js_State st = fin \<and> node w1 = s1"
proof -
  from assms(1) obtain N os os' rep d st where
    polls: "\<forall>n \<le> N. env_send env (c_httpClient c) (poll_request c u) (os n) = (rep n, d n, os' n) \<and>
       status_reply (rep n) = Ok (st n) \<and> d n < 2000"
    "\<forall>n < N. snd (env_choose env (os' n)) = os (Suc n) \<and> \<not> job_terminal (st n)"
    and N: "os 0 = node w" "os' N = s1" "js_State (st N) = fin" "N \<le> 149"
    unfolding job_ends_def by blast
  have "job_terminal (st N)" "alive_at None t" for t using N(3) assms(2) by (auto simp: job_terminal_def alive_at_def)
  from waitForJob_prompt [OF polls this(1) N(4) _ this(2)] N show ?thesis by auto
qed

text \<open>
  What ONTAP refuses: the deletion of a bucket with objects in it, and new buckets when the quota of the
  object store is used up.
\<close>

record limits =
  lim_full :: "string \<Rightarrow> bool"
  lim_quota :: bool

text \<open>
  \<open>stored s n\<close> is the UUID and the size of the bucket \<open>n\<close> in the state \<open>s\<close>. As ONTAP documents it: a
  lookup by name lists exactly the bucket of that name; a creation of a new name and a deletion by UUID
  are accepted with the reference of a job, and when the job has ended with success the bucket is there with
  the requested size, or gone. The job that deletes a bucket with objects ends with a failure, and a creation
  beyond the quota is refused with a message that says so. \<open>good\<close> are the states in which the system works and
  \<open>lim\<close> is what it refuses, \<open>name_ok\<close> the names it takes.
\<close>

type_synonym 'o stored_view = "'o \<Rightarrow> string \<Rightarrow> (string \<times> 64 word) option"

definition lists_bucket :: "'o env \<Rightarrow> client \<Rightarrow> ('o \<Rightarrow> bool) \<Rightarrow> 'o stored_view \<Rightarrow> 'o \<Rightarrow> string \<Rightarrow> bool" where
  "lists_bucket env c good stored s n =
     (\<exists>rep d s1. env_send env (c_httpClient c) (list_request c n) s = (rep, d, s1) \<and>
        read_reply (Some (dec_records dec_bucket_record zero_bucket_record)) [] rep =
          Ok (case stored s n of None \<Rightarrow> [] | Some (u, sz) \<Rightarrow> [\<lparr>br_UUID = u, br_Name = n, br_Size = sz\<rparr>]) \<and>
        good s1 \<and> stored s1 = stored s)"

definition job_accepted ::
  "'o env \<Rightarrow> client \<Rightarrow> request \<Rightarrow> 'o \<Rightarrow> string \<Rightarrow> ('o \<Rightarrow> bool) \<Rightarrow> bool" where
  "job_accepted env c rq s fin result =
     (\<exists>rep d s1 u s2. env_send env (c_httpClient c) rq s = (rep, d, s1) \<and>
        read_reply (Some dec_job_uuid) [] rep = Ok u \<and> u \<noteq> [] \<and> job_ends env c u s1 s2 fin \<and> result s2)"

lemma job_accepted_mono:
  assumes "job_accepted env c rq s fin P" "\<And>x. P x \<Longrightarrow> Q x"
  shows "job_accepted env c rq s fin Q"
  using assms unfolding job_accepted_def by metis

definition quota_refused :: "'o env \<Rightarrow> client \<Rightarrow> request \<Rightarrow> 'o \<Rightarrow> ('o \<Rightarrow> bool) \<Rightarrow> bool" where
  "quota_refused env c rq s result =
     (\<exists>code raw d s1. env_send env (c_httpClient c) rq s = (Reply code raw, d, s1) \<and> (code < 200 \<or> 300 \<le> code) \<and>
        isQuotaExhaustedMessage (he_message (api_error code raw)) \<and> result s1)"

lemma quota_refused_mono:
  assumes "quota_refused env c rq s P" "\<And>x. P x \<Longrightarrow> Q x"
  shows "quota_refused env c rq s Q"
  using assms unfolding quota_refused_def by metis

definition documented_ontap ::
  "'o env \<Rightarrow> client \<Rightarrow> limits \<Rightarrow> (string \<Rightarrow> bool) \<Rightarrow> ('o \<Rightarrow> bool) \<Rightarrow> 'o stored_view \<Rightarrow> bool" where
  "documented_ontap env c lim name_ok good stored =
     (\<forall>s n. good s \<and> name_ok n \<longrightarrow>
        lists_bucket env c good stored s n \<and>
        (stored s n = None \<longrightarrow>
           (\<forall>ps sz lock.
              if lim_quota lim
              then quota_refused env c (create_request c n ps sz lock) s (\<lambda>s1. good s1 \<and> stored s1 = stored s)
              else job_accepted env c (create_request c n ps sz lock) s ''success''
                (\<lambda>s2. good s2 \<and> (\<exists>v. stored s2 = (stored s)(n \<mapsto> (v, sz)))))) \<and>
        (\<forall>v sz. stored s n = Some (v, sz) \<longrightarrow>
           (if lim_full lim n
            then job_accepted env c (delete_request c \<lparr>br_UUID = v, br_Name = n, br_Size = sz\<rparr>) s ''failure''
              (\<lambda>s2. good s2 \<and> stored s2 = stored s)
            else job_accepted env c (delete_request c \<lparr>br_UUID = v, br_Name = n, br_Size = sz\<rparr>) s ''success''
              (\<lambda>s2. good s2 \<and> stored s2 = (stored s)(n := None)))))"

lemma documented_ontapD:
  assumes "documented_ontap env c lim name_ok good stored" "good s" "name_ok n"
  shows "lists_bucket env c good stored s n"
    "stored s n = None \<Longrightarrow> \<not> lim_quota lim \<Longrightarrow> job_accepted env c (create_request c n ps sz lock) s ''success''
       (\<lambda>s2. good s2 \<and> (\<exists>v. stored s2 = (stored s)(n \<mapsto> (v, sz))))"
    "stored s n = None \<Longrightarrow> lim_quota lim \<Longrightarrow>
       quota_refused env c (create_request c n ps sz lock) s (\<lambda>s1. good s1 \<and> stored s1 = stored s)"
    "stored s n = Some (v, sz) \<Longrightarrow> \<not> lim_full lim n \<Longrightarrow>
       job_accepted env c (delete_request c \<lparr>br_UUID = v, br_Name = n, br_Size = sz\<rparr>) s ''success''
         (\<lambda>s2. good s2 \<and> stored s2 = (stored s)(n := None))"
    "stored s n = Some (v, sz) \<Longrightarrow> lim_full lim n \<Longrightarrow>
       job_accepted env c (delete_request c \<lparr>br_UUID = v, br_Name = n, br_Size = sz\<rparr>) s ''failure''
         (\<lambda>s2. good s2 \<and> stored s2 = stored s)"
proof -
  have "good s \<and> name_ok n" using assms by simp
  note doc = mp [OF spec [OF spec [OF assms(1) [unfolded documented_ontap_def], of s], of n] this]
  show "lists_bucket env c good stored s n" using doc by blast
  show "stored s n = None \<Longrightarrow> \<not> lim_quota lim \<Longrightarrow> job_accepted env c (create_request c n ps sz lock) s ''success''
       (\<lambda>s2. good s2 \<and> (\<exists>v. stored s2 = (stored s)(n \<mapsto> (v, sz))))"
    "stored s n = None \<Longrightarrow> lim_quota lim \<Longrightarrow>
       quota_refused env c (create_request c n ps sz lock) s (\<lambda>s1. good s1 \<and> stored s1 = stored s)"
    "stored s n = Some (v, sz) \<Longrightarrow> \<not> lim_full lim n \<Longrightarrow>
       job_accepted env c (delete_request c \<lparr>br_UUID = v, br_Name = n, br_Size = sz\<rparr>) s ''success''
         (\<lambda>s2. good s2 \<and> stored s2 = (stored s)(n := None))"
    "stored s n = Some (v, sz) \<Longrightarrow> lim_full lim n \<Longrightarrow>
       job_accepted env c (delete_request c \<lparr>br_UUID = v, br_Name = n, br_Size = sz\<rparr>) s ''failure''
         (\<lambda>s2. good s2 \<and> stored s2 = stored s)"
    using doc by simp_all
qed

section \<open>The abstract store\<close>

text \<open>
  What the README promises: a bucket that exists is reused if no size is asked for or the one that it has, any other
  size is a conflict; a new bucket needs a size, and a lock flag that is a boolean if it is given, and is
  refused when the quota is used up. The deletion of a bucket with objects fails, every other one succeeds.
\<close>

definition asked_size :: "params \<Rightarrow> (64 word, gerror) outcome option" where
  "asked_size ps =
     (let raw = trim_space (param_get ps sizeKey) in if raw = [] then None else Some (parseBucketSize raw))"

fun size_step :: "limits \<Rightarrow> cosi_call \<Rightarrow> (string \<Rightarrow> 64 word option) \<Rightarrow> cosi_answer \<times> (string \<Rightarrow> 64 word option)" where
  "size_step lim (CallCreate n ps) st =
     (case st n of
        Some cur \<Rightarrow>
          (case asked_size ps of
             None \<Rightarrow> (Created n, st)
           | Some (Ok sz) \<Rightarrow> (if sz = cur then Created n else Refused AlreadyExists, st)
           | Some _ \<Rightarrow> (Refused InvalidArgument, st))
      | None \<Rightarrow>
          (case asked_size ps of
             Some (Ok sz) \<Rightarrow>
               (if object_locking ps = None then (Refused Unknown, st)
                else if lim_quota lim then (Refused ResourceExhausted, st)
                else (Created n, st(n \<mapsto> sz)))
           | _ \<Rightarrow> (Refused InvalidArgument, st)))"
| "size_step lim (CallDelete n) st =
     (if st n \<noteq> None \<and> lim_full lim n then (Refused Internal, st) else (Deleted, st(n := None)))"
| "size_step lim _ st = (Broken, st)"

text \<open>
  The calls for which the code keeps the promise: an existing bucket is asked for without a size or with the
  one that it has. For any other size the code answers as if it matched.
\<close>

fun bucket_call :: "(string \<Rightarrow> bool) \<Rightarrow> (string \<Rightarrow> 64 word option) \<Rightarrow> cosi_call \<Rightarrow> bool" where
  "bucket_call name_ok st (CallCreate n ps) \<longleftrightarrow> name_ok n \<and>
     (case st n of None \<Rightarrow> True | Some cur \<Rightarrow> asked_size ps = None \<or> asked_size ps = Some (Ok cur))"
| "bucket_call name_ok st (CallDelete n) \<longleftrightarrow> name_ok n"
| "bucket_call name_ok st _ \<longleftrightarrow> False"

definition sizes :: "('o \<Rightarrow> string \<Rightarrow> (string \<times> 64 word) option) \<Rightarrow> 'o \<Rightarrow> string \<Rightarrow> 64 word option" where
  "sizes stored s n = map_option snd (stored s n)"

section \<open>Refinement\<close>

lemma doJSON_no_deadline:
  assumes "env_send env (c_httpClient c) (build_request c m p q b) (node w) = (rep, d, s1)"
  shows "doJSON env c None m p q b dec old w = (read_reply dec old rep, w\<lparr>now := now w + d, node := s1\<rparr>)"
  using assms by (simp add: doJSON_def http_do_def)

lemma ontap_lookup:
  assumes "documented_ontap env c lim name_ok good stored" "good (node w)" "name_ok n"
  shows "\<exists>w1. listBucketsByName env c None n w =
      (Ok (case stored (node w) n of None \<Rightarrow> [] | Some (u, sz) \<Rightarrow> [\<lparr>br_UUID = u, br_Name = n, br_Size = sz\<rparr>]), w1) \<and>
    good (node w1) \<and> stored (node w1) = stored (node w)"
proof -
  from documented_ontapD(1) [OF assms] obtain rep d s1 where
    send: "env_send env (c_httpClient c) (list_request c n) (node w) = (rep, d, s1)"
    and rep: "read_reply (Some (dec_records dec_bucket_record zero_bucket_record)) [] rep =
        Ok (case stored (node w) n of None \<Rightarrow> [] | Some (u, sz) \<Rightarrow> [\<lparr>br_UUID = u, br_Name = n, br_Size = sz\<rparr>])"
    and s1: "good s1" "stored s1 = stored (node w)"
    unfolding lists_bucket_def by blast
  from rep s1 show ?thesis
    unfolding listBucketsByName_def
    by (intro exI [of _ "w\<lparr>now := now w + d, node := s1\<rparr>"])
      (simp add: doJSON_no_deadline [OF send [unfolded list_request_def]])
qed

text \<open>A request whose job is accepted and ends, as the first half of \<open>run_job\<close> and as a whole.\<close>

lemma run_job_ends:
  assumes "job_accepted env c (build_request c m p q b) (node w) fin result" "fin = ''success'' \<or> fin = ''failure''"
  shows "\<exists>st w2. run_job env c None
      (io_bind (doJSON env c None m p q b (Some dec_job_uuid) []) (\<lambda>u. if u = [] then io_err e else io_ok u))
      m1 m2 failure w = (if fin = ''failure'' then Err (failure st) else Ok (), w2) \<and> result (node w2)"
proof -
  let ?start = "io_bind (doJSON env c None m p q b (Some dec_job_uuid) []) (\<lambda>u. if u = [] then io_err e else io_ok u)"
  from assms(1) obtain rep d s1 u s2 where
    send: "env_send env (c_httpClient c) (build_request c m p q b) (node w) = (rep, d, s1)"
    and rep: "read_reply (Some dec_job_uuid) [] rep = Ok u" "u \<noteq> []"
    and job: "job_ends env c u s1 s2 fin" and s2: "result s2"
    unfolding job_accepted_def by blast
  let ?w1 = "w\<lparr>now := now w + d, node := s1\<rparr>"
  have start: "?start w = (Ok u, ?w1)"
    using rep by (simp add: doJSON_no_deadline [OF send] io_simps)
  have "job_ends env c u (node ?w1) s2 fin" using job by simp
  from job_ends_waitForJob [OF this assms(2)] obtain st w2 where
    "waitForJob env c None u ?w1 = (Ok st, w2)" "js_State st = fin" "node w2 = s2" by blast
  with start s2 show ?thesis
    by (intro exI [of _ st] exI [of _ w2]) (simp add: run_job_def io_handle_def io_ok_def io_err_def)
qed

lemma asked_size_Ok:
  assumes "asked_size ps = Some (Ok sz)"
  shows "trim_space (param_get ps sizeKey) \<noteq> []" "parseBucketSize (trim_space (param_get ps sizeKey)) = Ok sz"
  using assms by (auto simp: asked_size_def Let_def split: if_splits)

lemma ontap_create:
  assumes "documented_ontap env c lim name_ok good stored" "good (node w)" "name_ok n" "stored (node w) n = None"
    and "\<not> lim_quota lim" "asked_size ps = Some (Ok sz)" "object_locking ps = Some lock"
  shows "\<exists>w2. CreateBucket env c None n ps w = (Ok (), w2) \<and> good (node w2) \<and>
    (\<exists>v. stored (node w2) = (stored (node w))(n \<mapsto> (v, sz)))"
proof -
  note accepted = documented_ontapD(2) [OF assms(1-5), of ps sz lock, unfolded create_request_def]
  from run_job_ends [OF accepted] asked_size_Ok [OF assms(6)] assms(7) show ?thesis
    by (simp add: CreateBucket_cases Let_def createBucketAsync_def)
qed

lemma ontap_create_refused:
  assumes "documented_ontap env c lim name_ok good stored" "good (node w)" "name_ok n" "stored (node w) n = None"
    and "lim_quota lim" "asked_size ps = Some (Ok sz)" "object_locking ps = Some lock"
  shows "\<exists>e w2. CreateBucket env c None n ps w = (Err e, w2) \<and> is_quota e \<and> good (node w2) \<and> stored (node w2) = stored (node w)"
proof -
  from documented_ontapD(3) [OF assms(1-5), of ps sz lock] obtain code raw d s1 where
    send: "env_send env (c_httpClient c) (create_request c n ps sz lock) (node w) = (Reply code raw, d, s1)"
    and code: "code < 200 \<or> 300 \<le> code" "isQuotaExhaustedMessage (he_message (api_error code raw))"
    and s1: "good s1" "stored s1 = stored (node w)"
    unfolding quota_refused_def by blast
  have "he_quotaExhausted (api_error code raw)" using code(2) by (simp add: api_error_def Let_def)
  then have quota: "is_quota (Wrapped m (HTTPErr (api_error code raw)))" for m by (simp add: ontapHTTPError_Is_def)
  have "createBucketAsync env c None (create_body n sz (trim_space (param_get ps commentKey)) lock) w =
      (Err (HTTPErr (api_error code raw)), w\<lparr>now := now w + d, node := s1\<rparr>)"
    using code(1) by (simp add: createBucketAsync_def doJSON_no_deadline [OF send [unfolded create_request_def]] read_reply_def io_simps)
  then show ?thesis
    using asked_size_Ok [OF assms(6)] assms(7) s1 quota
    by (simp add: CreateBucket_cases run_job_def Let_def io_simps)
qed

lemma ontap_delete:
  assumes "documented_ontap env c lim name_ok good stored" "good (node w)" "name_ok n"
  shows "\<exists>r w2. DeleteBucket env c None n w = (r, w2) \<and> good (node w2) \<and>
    (if stored (node w) n \<noteq> None \<and> lim_full lim n
     then (\<exists>e. r = Err e) \<and> stored (node w2) = stored (node w)
     else r = Ok () \<and> stored (node w2) = (stored (node w))(n := None))"
proof -
  from ontap_lookup [OF assms] obtain w1 where list: "listBucketsByName env c None n w =
      (Ok (case stored (node w) n of None \<Rightarrow> [] | Some (u, sz) \<Rightarrow> [\<lparr>br_UUID = u, br_Name = n, br_Size = sz\<rparr>]), w1)"
    and w1: "good (node w1)" "stored (node w1) = stored (node w)" by blast
  show ?thesis
  proof (cases "stored (node w) n")
    case None
    with list w1 show ?thesis
      by (auto simp: DeleteBucket_run_job bucketByName_def io_simps)
  next
    case (Some us)
    then obtain v sz where us: "stored (node w1) n = Some (v, sz)" using w1(2) by (cases us) auto
    show ?thesis
    proof (cases "lim_full lim n")
      case True
      note accepted = documented_ontapD(5) [OF assms(1) w1(1) assms(3) us True, unfolded delete_request_def]
      from run_job_ends [OF accepted, where failure = "job_failure ''deletion'' n"
          and e = "ErrText ''ONTAP did not return a job UUID for bucket deletion''"
          and ?m1.0 = "''failed to initiate bucket deletion: ''"
          and ?m2.0 = "''failed waiting for bucket deletion job: ''"]
      obtain st w2 where "DeleteBucket env c None n w = (Err (job_failure ''deletion'' n st), w2)"
        "good (node w2)" "stored (node w2) = stored (node w1)"
        using list us w1 by (auto simp: DeleteBucket_run_job bucketByName_def deleteBucketAsync_def io_simps)
      with w1(2) Some True show ?thesis by simp
    next
      case False
      note accepted = documented_ontapD(4) [OF assms(1) w1(1) assms(3) us False, unfolded delete_request_def]
      from run_job_ends [OF accepted] list us w1 False show ?thesis
        by (simp add: DeleteBucket_run_job bucketByName_def deleteBucketAsync_def io_simps)
    qed
  qed
qed

lemma parseBucketSize_not_Panic: "parseBucketSize raw \<noteq> Panic p"
  by (simp add: parseBucketSize_cases split: option.split)

text \<open>A creation that is refused before anything is sent.\<close>

lemma create_refused:
  assumes "\<forall>sz. asked_size ps \<noteq> Some (Ok sz)"
  shows "\<exists>e. CreateBucket env c cx n ps w = (Err e, w) \<and> status_code e = InvalidArgument \<and> \<not> is_quota e"
  using assms
  by (cases "parseBucketSize (trim_space (param_get ps sizeKey))")
    (auto simp: CreateBucket_cases asked_size_def Let_def io_simps size_required_def parseBucketSize_not_Panic)

lemma lock_refused:
  assumes "asked_size ps = Some (Ok sz)" "object_locking ps = None"
  shows "\<exists>e. CreateBucket env c cx n ps w = (Err e, w) \<and> status_code e = Unknown \<and> \<not> is_quota e"
  using asked_size_Ok [OF assms(1)] assms(2) by (simp add: CreateBucket_cases Let_def io_simps)

lemma plain_s3_server:
  assumes "plain_config cfg"
  shows "resolveClient (s3_server env order cfg (SetupS3 c None)) cx ps w = (Ok (Some (s3_backend env c)), w)"
    "getName (s3_server env order cfg (SetupS3 c None)) n = (n, True)"
    "getBucketID (s3_server env order cfg (SetupS3 c None)) n = n"
    "er_CreateBucket (dc_Errors (ps_Config (s3_server env order cfg (SetupS3 c None)))) = None"
    "er_DeleteBucket (dc_Errors (ps_Config (s3_server env order cfg (SetupS3 c None)))) = None"
  using assms by (simp_all add: plain_config_def s3_server_def resolveClient_def getName_def getBucketID_def
      zero_Config_def io_ok_def)

text \<open>How the handler ends once the bucket was looked up in vain.\<close>

lemma create_handled:
  assumes "plain_config cfg" "BucketExists env c None n w = (Ok False, w0)"
    and "handle (s3_server env order cfg (SetupS3 c None)) None extra (CallCreate n ps) w = (a, w1)"
  shows "CreateBucket env c None n ps w0 = (Ok (), w2) \<Longrightarrow> a = Created n \<and> w1 = w2"
    "CreateBucket env c None n ps w0 = (Err e, w2) \<Longrightarrow>
      a = Refused (if is_quota e then ResourceExhausted else status_code e) \<and> w1 = w2"
  using assms
  by (auto simp: DriverCreateBucket_def plain_s3_server [OF assms(1)] io_simps call_def create_or_reuse_def s3_backend_def
      create_response_def)

lemma ontap_step:
  assumes "documented_ontap env c lim name_ok good stored" "good (node w)" "bucket_call name_ok (sizes stored (node w)) rpc"
    and "plain_config cfg"
    and "handle (s3_server env order cfg (SetupS3 c None)) None extra rpc w = (a, w1)"
  shows "good (node w1) \<and> size_step lim rpc (sizes stored (node w)) = (a, sizes stored (node w1))"
proof (cases rpc)
  case (CallDelete n)
  with assms(3) have "name_ok n" by simp
  from ontap_delete [OF assms(1,2) this] obtain r w2 where
    2: "DeleteBucket env c None n w = (r, w2)" "good (node w2)"
    "if stored (node w) n \<noteq> None \<and> lim_full lim n
     then (\<exists>e. r = Err e) \<and> stored (node w2) = stored (node w)
     else r = Ok () \<and> stored (node w2) = (stored (node w))(n := None)" by blast
  then have "w2 = w1 \<and> a = (if stored (node w) n \<noteq> None \<and> lim_full lim n then Refused Internal else Deleted)"
    using CallDelete assms(5)
    by (cases "stored (node w) n \<noteq> None \<and> lim_full lim n")
      (auto simp: DriverDeleteBucket_def plain_s3_server [OF assms(4)] io_simps Let_def call_def s3_backend_def)
  with 2(2,3) CallDelete show ?thesis
    by (cases "stored (node w) n \<noteq> None \<and> lim_full lim n") (auto simp: sizes_def fun_eq_iff)
next
  case (CallCreate n ps)
  with assms(3) have n: "name_ok n" by simp
  from ontap_lookup [OF assms(1,2) n] obtain w0 where list: "listBucketsByName env c None n w =
      (Ok (case stored (node w) n of None \<Rightarrow> [] | Some (u, sz) \<Rightarrow> [\<lparr>br_UUID = u, br_Name = n, br_Size = sz\<rparr>]), w0)"
    and w0: "good (node w0)" "stored (node w0) = stored (node w)" by blast
  have exists: "BucketExists env c None n w = (Ok (stored (node w) n \<noteq> None), w0)"
    using list by (auto simp: BucketExists_def io_simps split: option.splits)
  have same: "sizes stored (node w0) = sizes stored (node w)" using w0(2) by (simp add: sizes_def fun_eq_iff)
  show ?thesis
  proof (cases "stored (node w) n")
    case (Some us)
    then have cur: "sizes stored (node w) n = Some (snd us)" by (simp add: sizes_def)
    have "a = Created n \<and> w1 = w0"
      using exists Some assms(5) CallCreate
      by (simp add: DriverCreateBucket_def plain_s3_server [OF assms(4)] io_simps call_def create_or_reuse_def
          s3_backend_def create_response_def)
    moreover have "size_step lim rpc (sizes stored (node w)) = (Created n, sizes stored (node w))"
      using assms(3) CallCreate cur by auto
    ultimately show ?thesis using w0(1) same by simp
  next
    case None
    note handled = create_handled [OF assms(4) exists [unfolded None, simplified] assms(5) [unfolded CallCreate]]
    have none: "sizes stored (node w) n = None" and gone: "stored (node w0) n = None" using None w0 by (simp_all add: sizes_def)
    show ?thesis
    proof (cases "\<exists>sz. asked_size ps = Some (Ok sz)")
      case False
      with create_refused [of ps env c None n w0] obtain e where
        "CreateBucket env c None n ps w0 = (Err e, w0)" "status_code e = InvalidArgument" "\<not> is_quota e" by auto
      with handled(2) have "a = Refused InvalidArgument \<and> w1 = w0" by auto
      with False none CallCreate w0(1) same show ?thesis by (auto split: option.split outcome.split)
    next
      case True
      then obtain sz where sz: "asked_size ps = Some (Ok sz)" by blast
      show ?thesis
      proof (cases "object_locking ps")
        case lock: None
        from lock_refused [OF sz lock, of env c None n w0] handled(2) have "a = Refused Unknown \<and> w1 = w0" by auto
        with sz lock none CallCreate w0(1) same show ?thesis by simp
      next
        case (Some lock)
        show ?thesis
        proof (cases "lim_quota lim")
          case True
          from ontap_create_refused [OF assms(1) w0(1) n gone True sz Some] handled(2) obtain w2 where
            "a = Refused ResourceExhausted \<and> w1 = w2" "good (node w2)" "stored (node w2) = stored (node w0)" by auto
          with True sz Some none CallCreate w0(2) show ?thesis by (simp add: sizes_def fun_eq_iff)
        next
          case False
          from ontap_create [OF assms(1) w0(1) n gone False sz Some] handled(1) obtain w2 v where
            "a = Created n \<and> w1 = w2" "good (node w2)" "stored (node w2) = (stored (node w0))(n \<mapsto> (v, sz))" by auto
          with False sz Some none CallCreate w0(2) show ?thesis by (simp add: sizes_def fun_eq_iff)
        qed
      qed
    qed
  qed
qed (use assms(3) in simp_all)

end
