(* ===== verification/OntapAccess.thy ===== *)
theory OntapAccess
  imports Ontap
begin

text \<open>
  Access on an ONTAP system: the policies, users and groups that the driver makes there, what it relies
  on for them, and the effective access that results. Together with the buckets this gives the whole
  provisioner service over ONTAP as an abstract machine.
\<close>

section \<open>ONTAP's access objects\<close>

text \<open>A policy allows everything on one bucket; a group lists users and policies and is addressed by an id.\<close>

record ontap_group =
  og_id :: string
  og_users :: "string set"
  og_policies :: "string set"

record ontap_access =
  oa_policies :: "string \<Rightarrow> string option"
  oa_users :: "string \<Rightarrow> S3Credentials option"
  oa_groups :: "string \<Rightarrow> ontap_group option"

text \<open>A user reaches a bucket if some group lists the user and a policy for the bucket.\<close>

definition has_access :: "ontap_access \<Rightarrow> string \<Rightarrow> string \<Rightarrow> bool" where
  "has_access a u b \<longleftrightarrow> oa_users a u \<noteq> None \<and>
     (\<exists>g r p. oa_groups a g = Some r \<and> u \<in> og_users r \<and> p \<in> og_policies r \<and> oa_policies a p = Some b)"

lemma has_accessI:
  assumes "oa_users a u \<noteq> None" "oa_groups a g = Some r" "u \<in> og_users r" "p \<in> og_policies r" "oa_policies a p = Some b"
  shows "has_access a u b"
  using assms by (auto simp: has_access_def)

section \<open>What the driver relies on\<close>

text \<open>
  A request that leaves the buckets alone: it is answered by a reply with \<open>ok\<close>, and the access objects
  are then as \<open>res\<close> says. The system stays \<open>good\<close>.
\<close>

definition serves ::
  "'o env \<Rightarrow> client \<Rightarrow> ('o \<Rightarrow> bool) \<Rightarrow> 'o stored_view \<Rightarrow> ('o \<Rightarrow> ontap_access) \<Rightarrow> request \<Rightarrow> 'o \<Rightarrow>
   (reply \<Rightarrow> bool) \<Rightarrow> (ontap_access \<Rightarrow> bool) \<Rightarrow> bool" where
  "serves env c good stored access rq s ok res =
     (\<exists>rep d s1. env_send env (c_httpClient c) rq s = (rep, d, s1) \<and>
        ok rep \<and> good s1 \<and> stored s1 = stored s \<and> res (access s1))"

text \<open>The groups when a user is deleted: each may or may not still list the user.\<close>

definition user_dropped :: "string \<Rightarrow> (string \<Rightarrow> ontap_group option) \<Rightarrow> (string \<Rightarrow> ontap_group option) \<Rightarrow> bool" where
  "user_dropped u gs gs1 =
     (\<forall>g. gs1 g = gs g \<or> (\<exists>r. gs g = Some r \<and> gs1 g = Some (r\<lparr>og_users := og_users r - {u}\<rparr>)))"

definition documented_policies where
  "documented_policies env c name_ok good stored access =
     (\<forall>s p b. good s \<and> name_ok p \<and> name_ok b \<longrightarrow>
        (let a = access s; ask = serves env c good stored access in
         (if oa_policies a p = None
          then ask (policy_post c p b) s accepted (\<lambda>a1. a1 = a\<lparr>oa_policies := (oa_policies a)(p \<mapsto> b)\<rparr>)
          else ask (policy_post c p b) s (answered 409) (\<lambda>a1. a1 = a) \<and>
               ask (policy_patch c p b) s accepted (\<lambda>a1. a1 = a\<lparr>oa_policies := (oa_policies a)(p \<mapsto> b)\<rparr>)) \<and>
         (if oa_policies a p = None
          then ask (delete_path_request c (servicesPath c [''policies'', p])) s (answered 404) (\<lambda>a1. a1 = a)
          else (\<forall>g r. oa_groups a g = Some r \<longrightarrow> p \<notin> og_policies r) \<longrightarrow>
            ask (delete_path_request c (servicesPath c [''policies'', p])) s accepted
              (\<lambda>a1. a1 = a\<lparr>oa_policies := (oa_policies a)(p := None)\<rparr>))))"

definition documented_users where
  "documented_users env c name_ok good stored access =
     (\<forall>s u. good s \<and> name_ok u \<longrightarrow>
        (let a = access s; ask = serves env c good stored access in
         if oa_users a u = None
         then (\<exists>creds. ask (user_post c u) s (\<lambda>rep. keys_in rep creds) (\<lambda>a1. a1 = a\<lparr>oa_users := (oa_users a)(u \<mapsto> creds)\<rparr>)) \<and>
              ask (delete_path_request c (servicesPath c [''users'', u])) s (answered 404) (\<lambda>a1. a1 = a)
         else ask (user_post c u) s (answered 409) (\<lambda>a1. a1 = a) \<and>
              (\<exists>creds. ask (user_patch c u) s (\<lambda>rep. keys_in rep creds) (\<lambda>a1. a1 = a\<lparr>oa_users := (oa_users a)(u \<mapsto> creds)\<rparr>)) \<and>
              ask (delete_path_request c (servicesPath c [''users'', u])) s accepted
                (\<lambda>a1. \<exists>gs. user_dropped u (oa_groups a) gs \<and> a1 = a\<lparr>oa_users := (oa_users a)(u := None), oa_groups := gs\<rparr>)))"

definition documented_groups where
  "documented_groups env c name_ok good stored access =
     (\<forall>s g u p. good s \<and> name_ok g \<and> name_ok u \<and> name_ok p \<longrightarrow>
        (let a = access s; ask = serves env c good stored access in
         ask (list_groups_request c g) s
           (\<lambda>rep. group_records rep =
              Ok (case oa_groups a g of None \<Rightarrow> [] | Some r \<Rightarrow> [\<lparr>gr_ID = og_id r, gr_Name = g\<rparr>])) (\<lambda>a1. a1 = a) \<and>
         (case oa_groups a g of
            None \<Rightarrow>
              oa_users a u \<noteq> None \<and> oa_policies a p \<noteq> None \<longrightarrow>
                ask (group_post c g u p) s accepted
                  (\<lambda>a1. \<exists>i. a1 = a\<lparr>oa_groups := (oa_groups a)(g \<mapsto> \<lparr>og_id = i, og_users = {u}, og_policies = {p}\<rparr>)\<rparr>)
          | Some r \<Rightarrow>
              ask (group_post c g u p) s (answered 409) (\<lambda>a1. a1 = a) \<and>
              ask (delete_path_request c (servicesPath c [''groups'', og_id r])) s accepted
                (\<lambda>a1. a1 = a\<lparr>oa_groups := (oa_groups a)(g := None)\<rparr>))))"

definition documented_access where
  "documented_access env c lim name_ok good stored access \<longleftrightarrow>
     (\<forall>a. documented_ontap env c lim name_ok (\<lambda>s. good s \<and> access s = a) stored) \<and>
     documented_policies env c name_ok good stored access \<and>
     documented_users env c name_ok good stored access \<and>
     documented_groups env c name_ok good stored access"

lemma documented_policiesD:
  assumes "documented_policies env c name_ok good stored access" "good s" "name_ok p" "name_ok b"
  shows "oa_policies (access s) p = None \<Longrightarrow> serves env c good stored access (policy_post c p b) s accepted
      (\<lambda>a1. a1 = (access s)\<lparr>oa_policies := (oa_policies (access s))(p \<mapsto> b)\<rparr>)"
    "oa_policies (access s) p = Some b0 \<Longrightarrow>
      serves env c good stored access (policy_post c p b) s (answered 409) (\<lambda>a1. a1 = access s)"
    "oa_policies (access s) p = Some b0 \<Longrightarrow> serves env c good stored access (policy_patch c p b) s accepted
      (\<lambda>a1. a1 = (access s)\<lparr>oa_policies := (oa_policies (access s))(p \<mapsto> b)\<rparr>)"
    "oa_policies (access s) p = None \<Longrightarrow>
      serves env c good stored access (delete_path_request c (servicesPath c [''policies'', p])) s (answered 404)
        (\<lambda>a1. a1 = access s)"
    "oa_policies (access s) p = Some b0 \<Longrightarrow> \<forall>g r. oa_groups (access s) g = Some r \<longrightarrow> p \<notin> og_policies r \<Longrightarrow>
      serves env c good stored access (delete_path_request c (servicesPath c [''policies'', p])) s accepted
        (\<lambda>a1. a1 = (access s)\<lparr>oa_policies := (oa_policies (access s))(p := None)\<rparr>)"
  using assms(1) [unfolded documented_policies_def Let_def, THEN spec [of _ s], THEN spec [of _ p], THEN spec [of _ b]]
    assms(2-4)
  by simp_all

lemma documented_usersD:
  assumes "documented_users env c name_ok good stored access" "good s" "name_ok u"
  shows "oa_users (access s) u = None \<Longrightarrow> \<exists>creds. serves env c good stored access (user_post c u) s
      (\<lambda>rep. keys_in rep creds) (\<lambda>a1. a1 = (access s)\<lparr>oa_users := (oa_users (access s))(u \<mapsto> creds)\<rparr>)"
    "oa_users (access s) u = None \<Longrightarrow>
      serves env c good stored access (delete_path_request c (servicesPath c [''users'', u])) s (answered 404)
        (\<lambda>a1. a1 = access s)"
    "oa_users (access s) u = Some k \<Longrightarrow>
      serves env c good stored access (user_post c u) s (answered 409) (\<lambda>a1. a1 = access s)"
    "oa_users (access s) u = Some k \<Longrightarrow> \<exists>creds. serves env c good stored access (user_patch c u) s
      (\<lambda>rep. keys_in rep creds) (\<lambda>a1. a1 = (access s)\<lparr>oa_users := (oa_users (access s))(u \<mapsto> creds)\<rparr>)"
    "oa_users (access s) u = Some k \<Longrightarrow>
      serves env c good stored access (delete_path_request c (servicesPath c [''users'', u])) s accepted
        (\<lambda>a1. \<exists>gs. user_dropped u (oa_groups (access s)) gs \<and>
           a1 = (access s)\<lparr>oa_users := (oa_users (access s))(u := None), oa_groups := gs\<rparr>)"
  using assms(1) [unfolded documented_users_def Let_def, THEN spec [of _ s], THEN spec [of _ u]] assms(2,3)
  by simp_all

lemma documented_groupsD:
  assumes "documented_groups env c name_ok good stored access" "good s" "name_ok g" "name_ok u" "name_ok p"
  shows "serves env c good stored access (list_groups_request c g) s
      (\<lambda>rep. group_records rep =
         Ok (case oa_groups (access s) g of None \<Rightarrow> [] | Some r \<Rightarrow> [\<lparr>gr_ID = og_id r, gr_Name = g\<rparr>]))
      (\<lambda>a1. a1 = access s)"
    "oa_groups (access s) g = None \<Longrightarrow> oa_users (access s) u \<noteq> None \<Longrightarrow> oa_policies (access s) p \<noteq> None \<Longrightarrow>
      serves env c good stored access (group_post c g u p) s accepted
        (\<lambda>a1. \<exists>i. a1 = (access s)\<lparr>oa_groups := (oa_groups (access s))(g \<mapsto> \<lparr>og_id = i, og_users = {u}, og_policies = {p}\<rparr>)\<rparr>)"
    "oa_groups (access s) g = Some r \<Longrightarrow>
      serves env c good stored access (group_post c g u p) s (answered 409) (\<lambda>a1. a1 = access s)"
    "oa_groups (access s) g = Some r \<Longrightarrow>
      serves env c good stored access (delete_path_request c (servicesPath c [''groups'', og_id r])) s accepted
        (\<lambda>a1. a1 = (access s)\<lparr>oa_groups := (oa_groups (access s))(g := None)\<rparr>)"
  using assms(1) [unfolded documented_groups_def Let_def, THEN spec [of _ s], THEN spec [of _ g], THEN spec [of _ u],
      THEN spec [of _ p]] assms(2-5)
  by simp_all

section \<open>One request\<close>

text \<open>From \<open>w\<close> to \<open>w1\<close> the system stays good and its buckets the same, and the access objects are as \<open>res\<close> says.\<close>

definition reaches ::
  "('o \<Rightarrow> bool) \<Rightarrow> 'o stored_view \<Rightarrow> ('o \<Rightarrow> ontap_access) \<Rightarrow> 'o world \<Rightarrow> 'o world \<Rightarrow> (ontap_access \<Rightarrow> bool) \<Rightarrow> bool" where
  "reaches good stored access w w1 res \<longleftrightarrow>
     good (node w1) \<and> stored (node w1) = stored (node w) \<and> res (access (node w1))"

lemma serves_request:
  assumes "serves env c good stored access rq (node w) ok res"
  shows "\<exists>rep w1. http_do env (c_httpClient c) None rq w = (rep, w1) \<and> ok rep \<and> reaches good stored access w w1 res"
proof -
  from assms obtain rep d s1 where "env_send env (c_httpClient c) rq (node w) = (rep, d, s1)"
    and "ok rep" "good s1" "stored s1 = stored (node w)" "res (access s1)"
    unfolding serves_def by blast
  then show ?thesis
    by (intro exI [of _ rep] exI [of _ "w\<lparr>now := now w + d, node := s1\<rparr>"]) (simp add: http_do_def reaches_def)
qed

lemma answered_iff: "answered n rep \<longleftrightarrow> (\<exists>raw. rep = Reply n raw)"
  by (simp add: answered_def split: reply.split)

lemma refused_reply: "n < 200 \<or> 300 \<le> n \<Longrightarrow> read_reply dec old (Reply n raw) = Err (HTTPErr (api_error n raw))"
  by (auto simp: read_reply_def)

lemma accepted_reply: "accepted rep \<Longrightarrow> read_reply None old rep = Ok old"
  by (simp add: read_reply_unit)

lemma api_error_code: "he_statusCode (api_error n raw) = n"
  by (simp add: api_error_def Let_def)

lemmas run_request = doJSON_def io_simps answered_iff refused_reply accepted_reply api_error_code

section \<open>Policies, users and groups\<close>

lemma ontap_policy:
  assumes "documented_policies env c name_ok good stored access" "good (node w)" "name_ok p" "name_ok b"
  shows "\<exists>w1. createOrUpdatePolicy env c None p b w = (Ok (), w1) \<and> reaches good stored access w w1
    (\<lambda>a1. a1 = (access (node w))\<lparr>oa_policies := (oa_policies (access (node w)))(p \<mapsto> b)\<rparr>)"
proof (cases "oa_policies (access (node w)) p")
  case None
  from serves_request [OF documented_policiesD(1) [OF assms None]] show ?thesis
    by (auto simp: createOrUpdatePolicy_def policy_post_def run_request)
next
  case (Some b0)
  from serves_request [OF documented_policiesD(2) [OF assms Some]] obtain rep w1 where
    post: "http_do env (c_httpClient c) None (policy_post c p b) w = (rep, w1)" "answered 409 rep"
    and w1: "good (node w1)" "stored (node w1) = stored (node w)" "access (node w1) = access (node w)"
    unfolding reaches_def by blast
  have "oa_policies (access (node w1)) p = Some b0" using Some w1(3) by simp
  from serves_request [OF documented_policiesD(3) [OF assms(1) w1(1) assms(3,4) this]] post w1 show ?thesis
    by (auto simp: createOrUpdatePolicy_def policy_post_def policy_patch_def run_request reaches_def)
qed

lemma keys_read:
  assumes "keys_in rep creds"
  shows "\<exists>r rs. user_records rep = Ok (r # rs) \<and> creds = \<lparr>AccessKeyID = ur_AccessKey r, AccessSecretKey = ur_SecretKey r\<rparr>"
  using assms by (auto simp: keys_in_def)

text \<open>The keys that the driver gets are the ones that ONTAP then has for the user.\<close>

lemma ontap_user:
  assumes "documented_users env c name_ok good stored access" "good (node w)" "name_ok u"
  shows "\<exists>creds w1. createOrRotateUser env c None u w = (Ok creds, w1) \<and> reaches good stored access w w1
    (\<lambda>a1. a1 = (access (node w))\<lparr>oa_users := (oa_users (access (node w)))(u \<mapsto> creds)\<rparr>)"
proof (cases "oa_users (access (node w)) u")
  case None
  from documented_usersD(1) [OF assms None] obtain creds where
    "serves env c good stored access (user_post c u) (node w) (\<lambda>rep. keys_in rep creds)
       (\<lambda>a1. a1 = (access (node w))\<lparr>oa_users := (oa_users (access (node w)))(u \<mapsto> creds)\<rparr>)" ..
  from serves_request [OF this] show ?thesis
    by (auto simp: createOrRotateUser_def Let_def user_post_def run_request dest!: keys_read)
next
  case (Some k)
  from serves_request [OF documented_usersD(3) [OF assms Some]] obtain rep w1 where
    post: "http_do env (c_httpClient c) None (user_post c u) w = (rep, w1)" "answered 409 rep"
    and w1: "good (node w1)" "stored (node w1) = stored (node w)" "access (node w1) = access (node w)"
    unfolding reaches_def by blast
  have "oa_users (access (node w1)) u = Some k" using Some w1(3) by simp
  from documented_usersD(4) [OF assms(1) w1(1) assms(3) this] obtain creds where
    "serves env c good stored access (user_patch c u) (node w1) (\<lambda>rep. keys_in rep creds)
       (\<lambda>a1. a1 = (access (node w1))\<lparr>oa_users := (oa_users (access (node w1)))(u \<mapsto> creds)\<rparr>)" ..
  from serves_request [OF this] post w1 show ?thesis
    by (auto simp: createOrRotateUser_def Let_def user_post_def user_patch_def run_request reaches_def dest!: keys_read)
qed

lemma ontap_group_exists:
  assumes "documented_groups env c name_ok good stored access" "good (node w)" "name_ok g" "name_ok u" "name_ok p"
    and "oa_groups (access (node w)) g = Some r"
  shows "\<exists>w1. createGroupIfNeeded env c None g u p w = (Ok (), w1) \<and> reaches good stored access w w1 (\<lambda>a1. a1 = access (node w))"
  using serves_request [OF documented_groupsD(3) [OF assms]]
  by (auto simp: createGroupIfNeeded_def group_post_def run_request)

lemma ontap_group_new:
  assumes "documented_groups env c name_ok good stored access" "good (node w)" "name_ok g" "name_ok u" "name_ok p"
    and "oa_groups (access (node w)) g = None" "oa_users (access (node w)) u \<noteq> None" "oa_policies (access (node w)) p \<noteq> None"
  shows "\<exists>w1. createGroupIfNeeded env c None g u p w = (Ok (), w1) \<and> reaches good stored access w w1
    (\<lambda>a1. \<exists>i. a1 = (access (node w))\<lparr>oa_groups := (oa_groups (access (node w)))(g \<mapsto> \<lparr>og_id = i, og_users = {u}, og_policies = {p}\<rparr>)\<rparr>)"
  using serves_request [OF documented_groupsD(2) [OF assms]]
  by (auto simp: createGroupIfNeeded_def group_post_def run_request)

text \<open>The three deletions.\<close>

lemma ontap_delete_policy:
  assumes "documented_policies env c name_ok good stored access" "good (node w)" "name_ok p"
    and "\<forall>g r. oa_groups (access (node w)) g = Some r \<longrightarrow> p \<notin> og_policies r"
  shows "\<exists>w1. deletePolicyIfExists env c None p w = (Ok (), w1) \<and> reaches good stored access w w1
    (\<lambda>a1. a1 = (access (node w))\<lparr>oa_policies := (oa_policies (access (node w)))(p := None)\<rparr>)"
proof (cases "oa_policies (access (node w)) p")
  case None
  then have "(oa_policies (access (node w)))(p := None) = oa_policies (access (node w))" by (simp add: fun_upd_idem)
  with serves_request [OF documented_policiesD(4) [OF assms(1-3,3) None]] show ?thesis
    by (auto simp: deletePolicyIfExists_def delete_tolerant_def delete_path_request_def run_request reaches_def)
next
  case (Some b0)
  from serves_request [OF documented_policiesD(5) [OF assms(1-3,3) Some assms(4)]] show ?thesis
    by (auto simp: deletePolicyIfExists_def delete_tolerant_def delete_path_request_def run_request)
qed

lemma user_dropped_refl: "user_dropped u gs gs"
  by (simp add: user_dropped_def)

lemma ontap_delete_user:
  assumes "documented_users env c name_ok good stored access" "good (node w)" "name_ok u"
  shows "\<exists>w1. deleteUserIfExists env c None u w = (Ok (), w1) \<and> reaches good stored access w w1
    (\<lambda>a1. \<exists>gs. user_dropped u (oa_groups (access (node w))) gs \<and>
       a1 = (access (node w))\<lparr>oa_users := (oa_users (access (node w)))(u := None), oa_groups := gs\<rparr>)"
proof (cases "oa_users (access (node w)) u")
  case None
  then have "(oa_users (access (node w)))(u := None) = oa_users (access (node w))" by (simp add: fun_upd_idem)
  with serves_request [OF documented_usersD(2) [OF assms None]] show ?thesis
    by (auto simp: deleteUserIfExists_def delete_tolerant_def delete_path_request_def run_request reaches_def
        intro!: exI [of _ "oa_groups (access (node w))"] user_dropped_refl)
next
  case (Some k)
  from serves_request [OF documented_usersD(5) [OF assms Some]] show ?thesis
    by (auto simp: deleteUserIfExists_def delete_tolerant_def delete_path_request_def run_request)
qed

lemma ontap_delete_group:
  assumes "documented_groups env c name_ok good stored access" "good (node w)" "name_ok g"
  shows "\<exists>w1. deleteGroupIfExists env c None g w = (Ok (), w1) \<and> reaches good stored access w w1
    (\<lambda>a1. a1 = (access (node w))\<lparr>oa_groups := (oa_groups (access (node w)))(g := None)\<rparr>)"
proof -
  from serves_request [OF documented_groupsD(1) [OF assms(1-3) assms(3) assms(3)]] obtain rep w1 where
    list: "http_do env (c_httpClient c) None (list_groups_request c g) w = (rep, w1)"
      "group_records rep = Ok (case oa_groups (access (node w)) g of None \<Rightarrow> [] | Some r \<Rightarrow> [\<lparr>gr_ID = og_id r, gr_Name = g\<rparr>])"
    and w1: "good (node w1)" "stored (node w1) = stored (node w)" "access (node w1) = access (node w)"
    unfolding reaches_def by blast
  note start = list [unfolded list_groups_request_def group_records_def]
  show ?thesis
  proof (cases "oa_groups (access (node w)) g")
    case None
    then have "(oa_groups (access (node w)))(g := None) = oa_groups (access (node w))" by (simp add: fun_upd_idem)
    with start None w1 show ?thesis
      by (simp add: deleteGroupIfExists_def listGroupsByName_def run_request reaches_def)
  next
    case (Some r)
    with w1 have "oa_groups (access (node w1)) g = Some r" by simp
    from serves_request [OF documented_groupsD(4) [OF assms(1) w1(1) assms(3) assms(3) assms(3) this]] start Some w1
    show ?thesis
      by (auto simp: deleteGroupIfExists_def listGroupsByName_def delete_tolerant_def delete_path_request_def run_request
          reaches_def)
  qed
qed

section \<open>A grant\<close>

text \<open>What \<open>CreateBucketAccess\<close> does to the access objects: a group that exists is left as it is.\<close>

definition grant_effect ::
  "(string \<Rightarrow> string) \<Rightarrow> string \<Rightarrow> string \<Rightarrow> S3Credentials \<Rightarrow> ontap_access \<Rightarrow> ontap_access \<Rightarrow> bool" where
  "grant_effect uni b u k a a1 \<longleftrightarrow>
     oa_policies a1 = (oa_policies a)(policy_name uni b u \<mapsto> b) \<and> oa_users a1 = (oa_users a)(u \<mapsto> k) \<and>
     (if oa_groups a (group_name uni b u) \<noteq> None then oa_groups a1 = oa_groups a
      else \<exists>i. oa_groups a1 = (oa_groups a)(group_name uni b u \<mapsto>
        \<lparr>og_id = i, og_users = {u}, og_policies = {policy_name uni b u}\<rparr>))"

definition pair_names :: "(string \<Rightarrow> string) \<Rightarrow> (string \<Rightarrow> bool) \<Rightarrow> string \<Rightarrow> string \<Rightarrow> bool" where
  "pair_names uni name_ok b u \<longleftrightarrow>
     name_ok b \<and> name_ok u \<and> name_ok (policy_name uni b u) \<and> name_ok (group_name uni b u)"

lemma documented_accessD:
  assumes "documented_access env c lim name_ok good stored access"
  shows "documented_ontap env c lim name_ok (\<lambda>s. good s \<and> access s = a) stored"
    "documented_policies env c name_ok good stored access"
    "documented_users env c name_ok good stored access"
    "documented_groups env c name_ok good stored access"
  using assms by (simp_all add: documented_access_def)

lemma documented_access_buckets:
  assumes "documented_access env c lim name_ok good stored access"
  shows "documented_ontap env c lim name_ok good stored"
  unfolding documented_ontap_def
proof (intro allI impI)
  fix s n
  assume "good s \<and> name_ok n"
  then have good: "good s \<and> access s = access s" and n: "name_ok n" by simp_all
  note buckets = documented_ontapD [OF documented_accessD(1) [OF assms] good n]
  have "lists_bucket env c good stored s n" using buckets(1) by (auto simp: lists_bucket_def)
  moreover have "if lim_quota lim
      then quota_refused env c (create_request c n ps sz lock) s (\<lambda>s1. good s1 \<and> stored s1 = stored s)
      else job_accepted env c (create_request c n ps sz lock) s ''success''
        (\<lambda>s2. good s2 \<and> (\<exists>v. stored s2 = (stored s)(n \<mapsto> (v, sz))))" if "stored s n = None" for ps sz lock
    using job_accepted_mono [OF buckets(2) [OF that]] quota_refused_mono [OF buckets(3) [OF that]] by simp
  moreover have "if lim_full lim n
      then job_accepted env c (delete_request c \<lparr>br_UUID = v, br_Name = n, br_Size = sz\<rparr>) s ''failure''
        (\<lambda>s2. good s2 \<and> stored s2 = stored s)
      else job_accepted env c (delete_request c \<lparr>br_UUID = v, br_Name = n, br_Size = sz\<rparr>) s ''success''
        (\<lambda>s2. good s2 \<and> stored s2 = (stored s)(n := None))" if "stored s n = Some (v, sz)" for v sz
    using job_accepted_mono [OF buckets(4) [OF that]] job_accepted_mono [OF buckets(5) [OF that]] by simp
  ultimately show "lists_bucket env c good stored s n \<and>
      (stored s n = None \<longrightarrow> (\<forall>ps sz lock.
         if lim_quota lim
         then quota_refused env c (create_request c n ps sz lock) s (\<lambda>s1. good s1 \<and> stored s1 = stored s)
         else job_accepted env c (create_request c n ps sz lock) s ''success''
           (\<lambda>s2. good s2 \<and> (\<exists>v. stored s2 = (stored s)(n \<mapsto> (v, sz)))))) \<and>
      (\<forall>v sz. stored s n = Some (v, sz) \<longrightarrow>
         (if lim_full lim n
          then job_accepted env c (delete_request c \<lparr>br_UUID = v, br_Name = n, br_Size = sz\<rparr>) s ''failure''
            (\<lambda>s2. good s2 \<and> stored s2 = stored s)
          else job_accepted env c (delete_request c \<lparr>br_UUID = v, br_Name = n, br_Size = sz\<rparr>) s ''success''
            (\<lambda>s2. good s2 \<and> stored s2 = (stored s)(n := None))))" by blast
qed

lemma ontap_grant_effect:
  assumes doc: "documented_access env c lim name_ok good stored access" and names: "pair_names (env_lower env) name_ok b u"
    and good: "good (node w)"
  shows "\<exists>x w1. CreateBucketAccess env c None b u w = (Ok x, w1) \<and>
    reaches good stored access w w1 (grant_effect (env_lower env) b u (us_S3Credentials x) (access (node w)))"
proof -
  let ?p = "policy_name (env_lower env) b u" and ?g = "group_name (env_lower env) b u" and ?a = "access (node w)"
  have names: "name_ok b" "name_ok u" "name_ok ?p" "name_ok ?g" using names by (simp_all add: pair_names_def)
  from ontap_policy [OF documented_accessD(2) [OF doc] good names(3,1)] obtain w1 where
    1: "createOrUpdatePolicy env c None ?p b w = (Ok (), w1)" "good (node w1)" "stored (node w1) = stored (node w)"
      "access (node w1) = ?a\<lparr>oa_policies := (oa_policies ?a)(?p \<mapsto> b)\<rparr>"
    unfolding reaches_def by blast
  from ontap_user [OF documented_accessD(3) [OF doc] 1(2) names(2)] obtain creds w2 where
    2: "createOrRotateUser env c None u w1 = (Ok creds, w2)" "good (node w2)" "stored (node w2) = stored (node w)"
      "access (node w2) = ?a\<lparr>oa_policies := (oa_policies ?a)(?p \<mapsto> b), oa_users := (oa_users ?a)(u \<mapsto> creds)\<rparr>"
    unfolding reaches_def 1(3,4) by auto
  have "\<exists>w3. createGroupIfNeeded env c None ?g u ?p w2 = (Ok (), w3) \<and>
      reaches good stored access w w3 (grant_effect (env_lower env) b u creds ?a)"
  proof (cases "oa_groups ?a ?g")
    case (Some r)
    then have "oa_groups (access (node w2)) ?g = Some r" by (simp add: 2(4))
    from ontap_group_exists [OF documented_accessD(4) [OF doc] 2(2) names(4,2,3) this] Some show ?thesis
      by (auto simp: reaches_def grant_effect_def 2(3,4))
  next
    case None
    then have "oa_groups (access (node w2)) ?g = None" by (simp add: 2(4))
    from ontap_group_new [OF documented_accessD(4) [OF doc] 2(2) names(4,2,3) this] None show ?thesis
      by (auto simp: reaches_def grant_effect_def 2(3,4))
  qed
  then obtain w3 where "createGroupIfNeeded env c None ?g u ?p w2 = (Ok (), w3)"
    "reaches good stored access w w3 (grant_effect (env_lower env) b u creds ?a)" by blast
  with 1(1) 2(1) show ?thesis by (simp add: CreateBucketAccess_def Let_def io_simps)
qed

section \<open>A revocation\<close>

text \<open>What \<open>DeleteBucketAccess\<close> does to the access objects.\<close>

definition revoke_effect :: "(string \<Rightarrow> string) \<Rightarrow> string \<Rightarrow> string \<Rightarrow> ontap_access \<Rightarrow> ontap_access \<Rightarrow> bool" where
  "revoke_effect uni b u a a1 \<longleftrightarrow>
     oa_policies a1 = (oa_policies a)(policy_name uni b u := None) \<and> oa_users a1 = (oa_users a)(u := None) \<and>
     user_dropped u ((oa_groups a)(group_name uni b u := None)) (oa_groups a1)"

lemma ontap_revoke_effect:
  assumes doc: "documented_access env c lim name_ok good stored access" and names: "pair_names (env_lower env) name_ok b u"
    and good: "good (node w)"
    and own: "\<forall>g r. oa_groups (access (node w)) g = Some r \<and> g \<noteq> group_name (env_lower env) b u \<longrightarrow>
      policy_name (env_lower env) b u \<notin> og_policies r"
  shows "\<exists>w1. DeleteBucketAccess env c None b u w = (Ok (), w1) \<and>
    reaches good stored access w w1 (revoke_effect (env_lower env) b u (access (node w)))"
proof -
  let ?p = "policy_name (env_lower env) b u" and ?g = "group_name (env_lower env) b u" and ?a = "access (node w)"
  have names: "name_ok u" "name_ok ?p" "name_ok ?g" using names by (simp_all add: pair_names_def)
  from ontap_delete_group [OF documented_accessD(4) [OF doc] good names(3)] obtain w1 where
    1: "deleteGroupIfExists env c None ?g w = (Ok (), w1)" "good (node w1)" "stored (node w1) = stored (node w)"
      "access (node w1) = ?a\<lparr>oa_groups := (oa_groups ?a)(?g := None)\<rparr>"
    unfolding reaches_def by blast
  have unused: "\<forall>g r. oa_groups (access (node w1)) g = Some r \<longrightarrow> ?p \<notin> og_policies r"
    using own by (simp add: 1(4))
  from ontap_delete_policy [OF documented_accessD(2) [OF doc] 1(2) names(2) unused] obtain w2 where
    2: "deletePolicyIfExists env c None ?p w1 = (Ok (), w2)" "good (node w2)" "stored (node w2) = stored (node w)"
      "access (node w2) = ?a\<lparr>oa_policies := (oa_policies ?a)(?p := None), oa_groups := (oa_groups ?a)(?g := None)\<rparr>"
    unfolding reaches_def 1(3,4) by auto
  from ontap_delete_user [OF documented_accessD(3) [OF doc] 2(2) names(1)] obtain w3 gs where
    3: "deleteUserIfExists env c None u w2 = (Ok (), w3)" "good (node w3)" "stored (node w3) = stored (node w)"
      "user_dropped u ((oa_groups ?a)(?g := None)) gs"
      "access (node w3) = ?a\<lparr>oa_policies := (oa_policies ?a)(?p := None), oa_users := (oa_users ?a)(u := None), oa_groups := gs\<rparr>"
    unfolding reaches_def 2(3,4) by auto
  then have "reaches good stored access w w3 (revoke_effect (env_lower env) b u ?a)"
    by (simp add: reaches_def revoke_effect_def)
  with 1(1) 2(1) 3(1) show ?thesis by (simp add: DeleteBucketAccess_def Let_def io_simps)
qed

section \<open>Names that coincide\<close>

text \<open>
  C10: Two pairs of different buckets and different accounts, with names that ONTAP takes, whose
  derived names coincide, on an ONTAP system that behaves as documented, in a state in which
  there is no group of the derived name yet and no group lists either account: two grants,
  without a deadline, both succeed; the first gives the first account access to its bucket;
  after the second that account has access to the second bucket, which it was not granted, and
  no longer to its own, and the second account has no access to any bucket.
\<close>

theorem coinciding_names_cross_access:
  assumes "documented_access env c lim name_ok good stored access" "good (node w)"
    and "pair_names (env_lower env) name_ok b1 u1" "pair_names (env_lower env) name_ok b2 u2" "b1 \<noteq> b2" "u1 \<noteq> u2"
    and "policy_name (env_lower env) b1 u1 = policy_name (env_lower env) b2 u2"
      "group_name (env_lower env) b1 u1 = group_name (env_lower env) b2 u2"
    and "\<forall>g r. oa_groups (access (node w)) g = Some r \<longrightarrow>
      g \<noteq> group_name (env_lower env) b1 u1 \<and> u1 \<notin> og_users r \<and> u2 \<notin> og_users r"
    and "CreateBucketAccess env c None b1 u1 w = (r1, w1)" "CreateBucketAccess env c None b2 u2 w1 = (r2, w2)"
  shows "(\<exists>x1 x2. r1 = Ok x1 \<and> r2 = Ok x2) \<and> has_access (access (node w1)) u1 b1 \<and>
    has_access (access (node w2)) u1 b2 \<and> \<not> has_access (access (node w2)) u1 b1 \<and> (\<forall>b. \<not> has_access (access (node w2)) u2 b)"
proof -
  let ?a = "access (node w)" and ?p = "policy_name (env_lower env) b2 u2" and ?g = "group_name (env_lower env) b2 u2"
  from ontap_grant_effect [OF assms(1,3,2)] assms(10) obtain x1 where
    1: "r1 = Ok x1" "good (node w1)" "grant_effect (env_lower env) b1 u1 (us_S3Credentials x1) ?a (access (node w1))" by (auto simp: reaches_def)
  from ontap_grant_effect [OF assms(1,4) 1(2)] assms(11) obtain x2 where
    2: "r2 = Ok x2" "grant_effect (env_lower env) b2 u2 (us_S3Credentials x2) (access (node w1)) (access (node w2))" by (auto simp: reaches_def)
  have new: "oa_groups ?a ?g = None" using assms(8,9) by (cases "oa_groups ?a ?g") auto
  with 1(3) assms(7,8) obtain i where
    a1: "oa_policies (access (node w1)) = (oa_policies ?a)(?p \<mapsto> b1)" "oa_users (access (node w1)) u1 \<noteq> None"
      "oa_groups (access (node w1)) = (oa_groups ?a)(?g \<mapsto> \<lparr>og_id = i, og_users = {u1}, og_policies = {?p}\<rparr>)"
    by (auto simp: grant_effect_def)
  with 2(2) have
    a2: "oa_policies (access (node w2)) = (oa_policies ?a)(?p \<mapsto> b2)" "oa_users (access (node w2)) u1 \<noteq> None"
      "oa_groups (access (node w2)) = (oa_groups ?a)(?g \<mapsto> \<lparr>og_id = i, og_users = {u1}, og_policies = {?p}\<rparr>)"
    by (auto simp: grant_effect_def)
  have "has_access (access (node w1)) u1 b1"
    by (rule has_accessI [where g = ?g and p = ?p and r = "\<lparr>og_id = i, og_users = {u1}, og_policies = {?p}\<rparr>"]) (use a1 in simp_all)
  moreover have "has_access (access (node w2)) u1 b2"
    by (rule has_accessI [where g = ?g and p = ?p and r = "\<lparr>og_id = i, og_users = {u1}, og_policies = {?p}\<rparr>"]) (use a2 in simp_all)
  moreover have "\<not> has_access (access (node w2)) u1 b1" "\<forall>b. \<not> has_access (access (node w2)) u2 b"
    using assms(5,6,9) unfolding has_access_def a2 by (auto split: if_splits)
  ultimately show ?thesis using 1(1) 2(1) by blast
qed

end
