(* ===== verification/OntapCosi.thy ===== *)
theory OntapCosi
  imports OntapAccess
begin

text \<open>
  The provisioner service over ONTAP as an abstract machine: a store of bucket sizes and the relation of
  granted accesses. The driver refines it on a system that behaves as documented, as long as the names it
  derives for policies and groups are distinct.
\<close>

section \<open>Which access objects stand for which grants\<close>

text \<open>\<open>W\<close> are the pairs of bucket and account that the calls are about.\<close>

type_synonym pairs = "(string \<times> string) set"

definition pairs_ok :: "(string \<Rightarrow> string) \<Rightarrow> (string \<Rightarrow> bool) \<Rightarrow> pairs \<Rightarrow> bool" where
  "pairs_ok uni name_ok W \<longleftrightarrow>
     (\<forall>(b, u) \<in> W. name_ok b \<and> name_ok u \<and> name_ok (policy_name uni b u) \<and> name_ok (group_name uni b u)) \<and>
     inj_on (\<lambda>(b, u). policy_name uni b u) W \<and> inj_on (\<lambda>(b, u). group_name uni b u) W"

lemma pairs_okD:
  assumes "pairs_ok uni name_ok W" "(b, u) \<in> W"
  shows "name_ok b" "name_ok u" "name_ok (policy_name uni b u)" "name_ok (group_name uni b u)"
    "(b1, u1) \<in> W \<Longrightarrow> policy_name uni b1 u1 = policy_name uni b u \<longleftrightarrow> b1 = b \<and> u1 = u"
    "(b1, u1) \<in> W \<Longrightarrow> group_name uni b1 u1 = group_name uni b u \<longleftrightarrow> b1 = b \<and> u1 = u"
  using assms unfolding pairs_ok_def inj_on_def by fastforce+

text \<open>
  The objects of a pair: both there for a granted pair, both absent otherwise. The user of an account
  in \<open>X\<close>, whose revocation is under way, may already be gone.
\<close>

definition pair_objects :: "(string \<Rightarrow> string) \<Rightarrow> string set \<Rightarrow> ontap_access \<Rightarrow> bool \<Rightarrow> string \<Rightarrow> string \<Rightarrow> bool" where
  "pair_objects uni X a granted b u \<longleftrightarrow>
     (if granted
      then oa_policies a (policy_name uni b u) = Some b \<and>
           (\<exists>r. oa_groups a (group_name uni b u) = Some r \<and> og_policies r = {policy_name uni b u} \<and>
              og_users r \<subseteq> {u} \<and> (u \<notin> X \<longrightarrow> og_users r = {u} \<and> oa_users a u \<noteq> None))
      else oa_policies a (policy_name uni b u) = None \<and> oa_groups a (group_name uni b u) = None)"

text \<open>All other groups have nothing to do with the driver's accounts and policies.\<close>

definition foreign_groups :: "(string \<Rightarrow> string) \<Rightarrow> pairs \<Rightarrow> ontap_access \<Rightarrow> bool" where
  "foreign_groups uni W a \<longleftrightarrow>
     (\<forall>g r. oa_groups a g = Some r \<and> g \<notin> (\<lambda>(b, u). group_name uni b u) ` W \<longrightarrow>
        og_users r \<inter> snd ` W = {} \<and> og_policies r \<inter> (\<lambda>(b, u). policy_name uni b u) ` W = {})"

lemma foreign_groups_same:
  assumes "foreign_groups uni W a" "\<And>g. g \<notin> (\<lambda>(b, u). group_name uni b u) ` W \<Longrightarrow> oa_groups a1 g = oa_groups a g"
  shows "foreign_groups uni W a1"
  using assms unfolding foreign_groups_def by metis

definition holds :: "(string \<Rightarrow> string) \<Rightarrow> pairs \<Rightarrow> string set \<Rightarrow> pairs \<Rightarrow> ontap_access \<Rightarrow> bool" where
  "holds uni W X A a \<longleftrightarrow>
     A \<subseteq> W \<and> (\<forall>(b, u) \<in> W. pair_objects uni X a ((b, u) \<in> A) b u) \<and> foreign_groups uni W a"

text \<open>The accesses that ONTAP gives, and the state in which they are exactly the driver's doing.\<close>

definition accesses :: "pairs \<Rightarrow> ontap_access \<Rightarrow> pairs" where
  "accesses W a = {(b, u) \<in> W. has_access a u b}"

definition tidy :: "(string \<Rightarrow> string) \<Rightarrow> pairs \<Rightarrow> ontap_access \<Rightarrow> bool" where
  "tidy uni W a \<longleftrightarrow> holds uni W {} (accesses W a) a"

lemma holds_pair:
  assumes "holds uni W X A a" "(b, u) \<in> W"
  shows "pair_objects uni X a ((b, u) \<in> A) b u"
  using assms by (auto simp: holds_def)

text \<open>In a group that belongs to a pair of \<open>W\<close> only that pair's policy can be one of a pair of \<open>W\<close>.\<close>

lemma holds_group:
  assumes "holds uni W X A a" "oa_groups a g = Some r" "g \<in> (\<lambda>(b, u). group_name uni b u) ` W"
  shows "\<exists>b u. (b, u) \<in> A \<and> (b, u) \<in> W \<and> g = group_name uni b u \<and> og_policies r = {policy_name uni b u} \<and> og_users r \<subseteq> {u}"
proof -
  from assms(3) obtain b u where bu: "(b, u) \<in> W" "g = group_name uni b u" by auto
  with holds_pair [OF assms(1) bu(1)] assms(2) have "(b, u) \<in> A"
    by (auto simp: pair_objects_def split: if_splits)
  with holds_pair [OF assms(1) bu(1)] bu assms(2) show ?thesis
    by (auto simp: pair_objects_def)
qed

lemma holds_accesses:
  assumes "pairs_ok uni name_ok W" "holds uni W {} A a"
  shows "accesses W a = A"
proof -
  have "has_access a u b \<longleftrightarrow> (b, u) \<in> A" if W: "(b, u) \<in> W" for b u
  proof
    assume "(b, u) \<in> A"
    with holds_pair [OF assms(2) W] obtain r where
      "oa_groups a (group_name uni b u) = Some r" "og_policies r = {policy_name uni b u}" "u \<in> og_users r" "oa_users a u \<noteq> None"
      "oa_policies a (policy_name uni b u) = Some b"
      by (auto simp: pair_objects_def)
    then show "has_access a u b" unfolding has_access_def by blast
  next
    assume "has_access a u b"
    then obtain g r p where g: "oa_groups a g = Some r" "u \<in> og_users r" "p \<in> og_policies r" "oa_policies a p = Some b"
      by (auto simp: has_access_def)
    have "g \<in> (\<lambda>(b, u). group_name uni b u) ` W"
    proof (rule ccontr)
      assume "g \<notin> (\<lambda>(b, u). group_name uni b u) ` W"
      with assms(2) g(1) have "og_users r \<inter> snd ` W = {}" by (auto simp: holds_def foreign_groups_def)
      with g(2) W show False by force
    qed
    from holds_group [OF assms(2) g(1) this] obtain b1 u1 where
      1: "(b1, u1) \<in> A" "(b1, u1) \<in> W" "og_policies r = {policy_name uni b1 u1}" "og_users r \<subseteq> {u1}" by blast
    with g(2) have u: "u1 = u" by auto
    from holds_pair [OF assms(2) 1(2)] 1 g(3,4) u show "(b, u) \<in> A" by (auto simp: pair_objects_def)
  qed
  moreover have "A \<subseteq> W" using assms(2) by (simp add: holds_def)
  ultimately show ?thesis by (auto simp: accesses_def)
qed

section \<open>A grant and a revocation for one pair\<close>

lemma holds_grant:
  assumes ok: "pairs_ok uni name_ok W" and holds: "holds uni W {} A a" and W: "(b, u) \<in> W"
    and a1: "oa_policies a1 = (oa_policies a)(policy_name uni b u \<mapsto> b)" "oa_users a1 = (oa_users a)(u \<mapsto> k)"
      "if (b, u) \<in> A then oa_groups a1 = oa_groups a
       else \<exists>i. oa_groups a1 = (oa_groups a)(group_name uni b u \<mapsto> \<lparr>og_id = i, og_users = {u}, og_policies = {policy_name uni b u}\<rparr>)"
  shows "holds uni W {} (insert (b, u) A) a1"
  unfolding holds_def
proof (intro conjI)
  show "insert (b, u) A \<subseteq> W" using holds W by (simp add: holds_def)
  have "oa_groups a1 g = oa_groups a g" if "g \<notin> (\<lambda>(b, u). group_name uni b u) ` W" for g
  proof -
    have "g \<noteq> group_name uni b u" using that W by auto
    with a1(3) show ?thesis by (auto split: if_splits)
  qed
  with holds show "foreign_groups uni W a1" by (auto simp: holds_def intro: foreign_groups_same)
  have "pair_objects uni {} a1 ((b', u') \<in> insert (b, u) A) b' u'" if W': "(b', u') \<in> W" for b' u'
  proof (cases "b' = b \<and> u' = u")
    case True
    with holds_pair [OF holds W] a1 show ?thesis by (auto simp: pair_objects_def split: if_splits)
  next
    case False
    with pairs_okD(5,6) [OF ok W W'] have "policy_name uni b' u' \<noteq> policy_name uni b u" "group_name uni b' u' \<noteq> group_name uni b u"
      by auto
    with False holds_pair [OF holds W'] a1 show ?thesis by (auto simp: pair_objects_def split: if_splits)
  qed
  then show "\<forall>(b', u') \<in> W. pair_objects uni {} a1 ((b', u') \<in> insert (b, u) A) b' u'" by auto
qed

lemma holds_revoke:
  assumes ok: "pairs_ok uni name_ok W" and holds: "holds uni W X A a" and W: "(b, u) \<in> W"
    and a1: "oa_policies a1 = (oa_policies a)(policy_name uni b u := None)" "oa_users a1 = (oa_users a)(u := None)"
      "user_dropped u ((oa_groups a)(group_name uni b u := None)) (oa_groups a1)"
  shows "holds uni W (insert u X) (A - {(b, u)}) a1"
  unfolding holds_def
proof (intro conjI)
  show "A - {(b, u)} \<subseteq> W" using holds by (auto simp: holds_def)
  have group: "oa_groups a1 g = ((oa_groups a)(group_name uni b u := None)) g \<or>
      (\<exists>r. g \<noteq> group_name uni b u \<and> oa_groups a g = Some r \<and> oa_groups a1 g = Some (r\<lparr>og_users := og_users r - {u}\<rparr>))" for g
    using a1(3) unfolding user_dropped_def by (metis fun_upd_apply option.distinct(1))
  show "foreign_groups uni W a1"
    unfolding foreign_groups_def
  proof (intro allI impI)
    fix g r
    assume g: "oa_groups a1 g = Some r \<and> g \<notin> (\<lambda>(b, u). group_name uni b u) ` W"
    with W have "g \<noteq> group_name uni b u" by auto
    with group [of g] g obtain r0 where "oa_groups a g = Some r0" "og_users r \<subseteq> og_users r0" "og_policies r = og_policies r0"
      by fastforce
    with holds g show "og_users r \<inter> snd ` W = {} \<and> og_policies r \<inter> (\<lambda>(b, u). policy_name uni b u) ` W = {}"
      unfolding holds_def foreign_groups_def by blast
  qed
  have "pair_objects uni (insert u X) a1 ((b', u') \<in> A - {(b, u)}) b' u'" if W': "(b', u') \<in> W" for b' u'
  proof (cases "b' = b \<and> u' = u")
    case True
    with group [of "group_name uni b u"] a1(1) show ?thesis by (auto simp: pair_objects_def)
  next
    case False
    with pairs_okD(5,6) [OF ok W W'] have ne: "policy_name uni b' u' \<noteq> policy_name uni b u" "group_name uni b' u' \<noteq> group_name uni b u"
      by auto
    show ?thesis
    proof (cases "(b', u') \<in> A")
      case True
      with holds_pair [OF holds W'] obtain r where r: "oa_groups a (group_name uni b' u') = Some r"
        "og_policies r = {policy_name uni b' u'}" "og_users r \<subseteq> {u'}" "u' \<notin> X \<longrightarrow> og_users r = {u'} \<and> oa_users a u' \<noteq> None"
        and p: "oa_policies a (policy_name uni b' u') = Some b'"
        by (auto simp: pair_objects_def)
      have policy: "oa_policies a1 (policy_name uni b' u') = Some b'" using p a1(1) ne(1) by simp
      from group [of "group_name uni b' u'"] r(1) ne(2) obtain r1 where
        "oa_groups a1 (group_name uni b' u') = Some r1" "r1 = r \<or> r1 = r\<lparr>og_users := og_users r - {u}\<rparr>" by auto
      moreover from this(2) r(3) have "og_policies r1 = og_policies r" "og_users r1 \<subseteq> {u'}" "u' \<noteq> u \<longrightarrow> og_users r1 = og_users r"
        by auto
      moreover have "u' \<notin> insert u X \<longrightarrow> oa_users a1 u' \<noteq> None" using r(4) a1(2) by auto
      moreover have "(b', u') \<in> A - {(b, u)}" using True False by auto
      ultimately show ?thesis using policy r(2,4) unfolding pair_objects_def by simp
    next
      case no: False
      with holds_pair [OF holds W'] group [of "group_name uni b' u'"] ne a1(1) show ?thesis
        by (auto simp: pair_objects_def)
    qed
  qed
  then show "\<forall>(b', u') \<in> W. pair_objects uni (insert u X) a1 ((b', u') \<in> A - {(b, u)}) b' u'" by auto
qed

text \<open>When an account has no grant left, its revocation is over.\<close>

lemma holds_revoked:
  assumes "holds uni W (insert u X) A a" "\<forall>b. (b, u) \<notin> A"
  shows "holds uni W X A a"
  using assms by (fastforce simp: holds_def pair_objects_def)

lemma ontap_grant:
  assumes doc: "documented_access env c lim name_ok good stored access" and ok: "pairs_ok (env_lower env) name_ok W"
    and good: "good (node w)" and holds: "holds (env_lower env) W {} A (access (node w))" and W: "(b, u) \<in> W"
  shows "\<exists>x w1. CreateBucketAccess env c None b u w = (Ok x, w1) \<and>
    reaches good stored access w w1 (\<lambda>a. holds (env_lower env) W {} (insert (b, u) A) a \<and>
      oa_users a u = Some (us_S3Credentials x))"
proof -
  have "pair_names (env_lower env) name_ok b u" using pairs_okD(1-4) [OF ok W] by (simp add: pair_names_def)
  from ontap_grant_effect [OF doc this good] obtain x w1 where
    1: "CreateBucketAccess env c None b u w = (Ok x, w1)"
      "reaches good stored access w w1 (grant_effect (env_lower env) b u (us_S3Credentials x) (access (node w)))" by blast
  have "holds (env_lower env) W {} (insert (b, u) A) (access (node w1))"
    using 1(2) holds_pair [OF holds W]
    by (intro holds_grant [OF ok holds W]) (auto simp: reaches_def grant_effect_def pair_objects_def split: if_splits)
  with 1 show ?thesis by (simp add: reaches_def grant_effect_def)
qed

lemma ontap_revoke:
  assumes doc: "documented_access env c lim name_ok good stored access" and ok: "pairs_ok (env_lower env) name_ok W"
    and good: "good (node w)" and holds: "holds (env_lower env) W X A (access (node w))" and W: "(b, u) \<in> W"
  shows "\<exists>w1. DeleteBucketAccess env c None b u w = (Ok (), w1) \<and>
    reaches good stored access w w1 (holds (env_lower env) W (insert u X) (A - {(b, u)}))"
proof -
  let ?p = "policy_name (env_lower env) b u" and ?g = "group_name (env_lower env) b u"
  have names: "pair_names (env_lower env) name_ok b u" using pairs_okD(1-4) [OF ok W] by (simp add: pair_names_def)
  have "\<forall>g r. oa_groups (access (node w)) g = Some r \<and> g \<noteq> ?g \<longrightarrow> ?p \<notin> og_policies r"
  proof (intro allI impI, elim conjE)
    fix g r
    assume g: "oa_groups (access (node w)) g = Some r" "g \<noteq> ?g"
    show "?p \<notin> og_policies r"
    proof (cases "g \<in> (\<lambda>(b, u). group_name (env_lower env) b u) ` W")
      case True
      from holds_group [OF holds g(1) this] obtain b1 u1 where
        1: "(b1, u1) \<in> W" "g = group_name (env_lower env) b1 u1" "og_policies r = {policy_name (env_lower env) b1 u1}" by blast
      with g(2) have "\<not> (b1 = b \<and> u1 = u)" by blast
      with pairs_okD(5) [OF ok W 1(1)] 1(3) show ?thesis by simp
    next
      case False
      with holds g(1) have "og_policies r \<inter> (\<lambda>(b, u). policy_name (env_lower env) b u) ` W = {}"
        by (simp add: holds_def foreign_groups_def)
      moreover have "?p \<in> (\<lambda>(b, u). policy_name (env_lower env) b u) ` W" by (rule image_eqI [OF _ W]) simp
      ultimately show ?thesis by blast
    qed
  qed
  from ontap_revoke_effect [OF doc names good this] obtain w1 where
    1: "DeleteBucketAccess env c None b u w = (Ok (), w1)" "good (node w1)" "stored (node w1) = stored (node w)"
      "revoke_effect (env_lower env) b u (access (node w)) (access (node w1))"
    unfolding reaches_def by blast
  have "holds (env_lower env) W (insert u X) (A - {(b, u)}) (access (node w1))"
    by (rule holds_revoke [OF ok holds W]) (use 1(4) in \<open>simp_all add: revoke_effect_def\<close>)
  with 1 show ?thesis by (simp add: reaches_def)
qed

section \<open>The loops over the requested buckets\<close>

lemma ontap_exists:
  assumes doc: "documented_access env c lim name_ok good stored access" and good: "good (node w)" and "name_ok n"
  shows "\<exists>w1. BucketExists env c None n w = (Ok (stored (node w) n \<noteq> None), w1) \<and>
    reaches good stored access w w1 (\<lambda>a1. a1 = access (node w))"
proof -
  have "good (node w) \<and> access (node w) = access (node w)" using good by simp
  from ontap_lookup [OF documented_accessD(1) [OF doc] this assms(3)] show ?thesis
    by (auto simp: BucketExists_def io_simps reaches_def split: option.splits)
qed

text \<open>The response's form of a user's keys.\<close>

definition s3_keys :: "S3Credentials \<Rightarrow> CredentialInfo" where
  "s3_keys k = \<lparr>ci_S3 = Some (AccessKeyID k, AccessSecretKey k), ci_Azure = None\<rparr>"

lemma user_credential_info: "credential_info (user_methods x) w = (Ok (s3_keys (us_S3Credentials x)), w)"
  by (simp add: credential_info_def user_methods_def user_Credentials_def cred_get_def s3_keys_def)

definition bucket_there :: "'o stored_view \<Rightarrow> 'o world \<Rightarrow> string \<Rightarrow> bool" where
  "bucket_there stored w n = (stored (node w) n \<noteq> None)"

lemma ontap_grant_bucket:
  assumes doc: "documented_access env c lim name_ok good stored access" and ok: "pairs_ok (env_lower env) name_ok W"
    and good: "good (node w)" and holds: "holds (env_lower env) W {} A (access (node w))" and W: "(n, u) \<in> W"
  shows "if bucket_there stored w n
    then \<exists>info ci w1. grant_bucket (s3_backend env c) None u n w = (Ok (info, ci), w1) \<and> bi_BucketId info = n \<and>
      reaches good stored access w w1 (\<lambda>a. holds (env_lower env) W {} (insert (n, u) A) a \<and> (\<exists>k. oa_users a u = Some k \<and> ci = s3_keys k))
    else \<exists>w1. grant_bucket (s3_backend env c) None u n w = (Err (StatusErrf NotFound ErrBucketNotFound), w1) \<and>
      reaches good stored access w w1 (holds (env_lower env) W {} A)"
proof -
  from ontap_exists [OF doc good pairs_okD(1) [OF ok W]] obtain w1 where
    1: "BucketExists env c None n w = (Ok (bucket_there stored w n), w1)" "good (node w1)" "stored (node w1) = stored (node w)"
      "access (node w1) = access (node w)"
    unfolding reaches_def bucket_there_def by blast
  have "holds (env_lower env) W {} A (access (node w1))" using holds by (simp add: 1(4))
  from ontap_grant [OF doc ok 1(2) this W] obtain x w2 where
    2: "CreateBucketAccess env c None n u w1 = (Ok x, w2)"
      "reaches good stored access w1 w2 (\<lambda>a. holds (env_lower env) W {} (insert (n, u) A) a \<and> oa_users a u = Some (us_S3Credentials x))"
    by blast
  from 1 2 holds show ?thesis
    by (simp add: grant_bucket_def s3_backend_def io_simps user_credential_info reaches_def)
qed

lemma reaches_there:
  assumes "reaches good stored access w w1 res"
  shows "bucket_there stored w1 = bucket_there stored w"
  using assms by (simp add: reaches_def bucket_there_def fun_eq_iff)

lemma reaches_trans:
  assumes "reaches good stored access w w1 res1" "reaches good stored access w1 w2 res"
  shows "reaches good stored access w w2 res"
  using assms by (simp add: reaches_def)

text \<open>The credentials that a grant collects are the keys that ONTAP has for the user.\<close>

definition has_keys :: "ontap_access \<Rightarrow> string \<Rightarrow> CredentialInfo option \<Rightarrow> bool" where
  "has_keys a u ci \<longleftrightarrow> (\<exists>k. oa_users a u = Some k \<and> ci = Some (s3_keys k))"

definition loop_result ::
  "ontap_access \<Rightarrow> string \<Rightarrow> bool \<Rightarrow> string list \<Rightarrow> GrantBucketInfo list \<Rightarrow> CredentialInfo option \<Rightarrow>
   (GrantBucketInfo list \<times> CredentialInfo option, gerror) outcome \<Rightarrow> bool" where
  "loop_result a u complete ns infos ci r \<longleftrightarrow>
     (if complete
      then \<exists>more ci1. r = Ok (infos @ more, ci1) \<and> map bi_BucketId more = ns \<and>
        (ci = None \<and> ns = [] \<or> has_keys a u ci1)
      else r = Err (StatusErrf NotFound ErrBucketNotFound))"

lemma loop_result_Cons:
  assumes "loop_result a u complete ns (infos @ [info]) (Some ci1) r" "bi_BucketId info = n"
  shows "loop_result a u complete (n # ns) infos ci r"
  using assms by (auto simp: loop_result_def intro: exI [of _ "info # _"] split: if_splits)

lemma ontap_grant_loop:
  assumes doc: "documented_access env c lim name_ok good stored access" and ok: "pairs_ok (env_lower env) name_ok W"
    and "good (node w)" "holds (env_lower env) W {} A (access (node w))" "\<forall>n \<in> set ns. (n, u) \<in> W"
    and "ci = None \<or> has_keys (access (node w)) u ci"
  shows "\<exists>r w1. grant_loop (s3_backend env c) None u ns infos ci w = (r, w1) \<and>
    reaches good stored access w w1
      (holds (env_lower env) W {} (A \<union> set (takeWhile (bucket_there stored w) ns) \<times> {u})) \<and>
    loop_result (access (node w1)) u (takeWhile (bucket_there stored w) ns = ns) ns infos ci r"
  using assms(3-6)
proof (induction ns arbitrary: infos ci w A)
  case Nil
  then show ?case by (auto simp: io_simps reaches_def loop_result_def)
next
  case (Cons n ns)
  have W: "(n, u) \<in> W" using Cons.prems(3) by simp
  note one = ontap_grant_bucket [OF doc ok Cons.prems(1,2) W]
  show ?case
  proof (cases "bucket_there stored w n")
    case False
    with one obtain w1 where "grant_bucket (s3_backend env c) None u n w = (Err (StatusErrf NotFound ErrBucketNotFound), w1)"
      "reaches good stored access w w1 (holds (env_lower env) W {} A)" by auto
    with False show ?thesis by (simp add: io_simps loop_result_def)
  next
    case True
    with one obtain info ci1 w1 where
      1: "grant_bucket (s3_backend env c) None u n w = (Ok (info, ci1), w1)" "bi_BucketId info = n"
        "reaches good stored access w w1 (\<lambda>a. holds (env_lower env) W {} (insert (n, u) A) a \<and>
          (\<exists>k. oa_users a u = Some k \<and> ci1 = s3_keys k))" by auto
    then have pre: "good (node w1)" "holds (env_lower env) W {} (insert (n, u) A) (access (node w1))" "\<forall>n \<in> set ns. (n, u) \<in> W"
      "Some ci1 = None \<or> has_keys (access (node w1)) u (Some ci1)"
      using Cons.prems(3) by (simp_all add: reaches_def has_keys_def)
    note there = reaches_there [OF 1(3)]
    have union: "insert (n, u) A \<union> B \<times> {u} = A \<union> insert n B \<times> {u}" for B by auto
    from Cons.IH [OF pre, of "infos @ [info]"] obtain r w2 where
      2: "grant_loop (s3_backend env c) None u ns (infos @ [info]) (Some ci1) w1 = (r, w2)"
        "reaches good stored access w1 w2 (holds (env_lower env) W {} (A \<union> insert n (set (takeWhile (bucket_there stored w) ns)) \<times> {u}))"
        "loop_result (access (node w2)) u (takeWhile (bucket_there stored w) ns = ns) ns (infos @ [info]) (Some ci1) r"
      unfolding there union by blast
    have run: "grant_loop (s3_backend env c) None u (n # ns) infos ci w = (r, w2)"
      using 1(1) 2(1) by (simp add: io_simps)
    with True reaches_trans [OF 1(3) 2(2)] loop_result_Cons [OF 2(3) 1(2)] show ?thesis by simp
  qed
qed

lemma ontap_revoke_loop:
  assumes doc: "documented_access env c lim name_ok good stored access" and ok: "pairs_ok (env_lower env) name_ok W"
    and cfg: "plain_config cfg"
    and "good (node w)" "holds (env_lower env) W X A (access (node w))" "\<forall>n \<in> set ns. (n, u) \<in> W"
  shows "\<exists>w1. revoke_loop (s3_server env order cfg (SetupS3 c None)) (s3_backend env c) None u ns w = (Ok (), w1) \<and>
    reaches good stored access w w1 (holds (env_lower env) W (if ns = [] then X else insert u X) (A - set ns \<times> {u}))"
  using assms(4-6)
proof (induction ns arbitrary: w X A)
  case Nil
  then show ?case by (simp add: io_simps reaches_def)
next
  case (Cons n ns)
  have W: "(n, u) \<in> W" using Cons.prems(3) by simp
  from ontap_revoke [OF doc ok Cons.prems(1,2) W] obtain w1 where
    1: "DeleteBucketAccess env c None n u w = (Ok (), w1)"
      "reaches good stored access w w1 (holds (env_lower env) W (insert u X) (A - {(n, u)}))" by blast
  have pre: "good (node w1)" "holds (env_lower env) W (insert u X) (A - {(n, u)}) (access (node w1))" "\<forall>n \<in> set ns. (n, u) \<in> W"
    using 1(2) Cons.prems(3) by (simp_all add: reaches_def)
  have minus: "A - {(n, u)} - set ns \<times> {u} = A - set (n # ns) \<times> {u}" by auto
  from Cons.IH [OF pre] obtain w2 where
    2: "revoke_loop (s3_server env order cfg (SetupS3 c None)) (s3_backend env c) None u ns w1 = (Ok (), w2)"
      "reaches good stored access w1 w2 (holds (env_lower env) W (insert u X) (A - set (n # ns) \<times> {u}))"
    unfolding minus by (auto split: if_splits)
  have "revoke_loop (s3_server env order cfg (SetupS3 c None)) (s3_backend env c) None u (n # ns) w = (Ok (), w2)"
    using 1(1) 2(1) by (simp add: io_simps plain_s3_server [OF cfg] s3_backend_def)
  with reaches_trans [OF 1(2) 2(2)] show ?case by simp
qed

section \<open>The abstract machine\<close>

record ontap_store =
  os_sizes :: "string \<Rightarrow> 64 word option"
  os_accesses :: pairs

text \<open>
  A grant stops at the first missing bucket and keeps the accesses made before it. A revocation ends the
  accesses to the listed buckets.
\<close>

fun ontap_cosi_step :: "limits \<Rightarrow> cosi_call \<Rightarrow> ontap_store \<Rightarrow> cosi_answer \<times> ontap_store" where
  "ontap_cosi_step lim (CallGrant u ns) st =
     (if ns = [] then (Refused InvalidArgument, st)
      else
        let present = takeWhile (\<lambda>n. os_sizes st n \<noteq> None) ns in
        (if present = ns then Granted u ns else Refused NotFound,
         st\<lparr>os_accesses := os_accesses st \<union> set present \<times> {u}\<rparr>))"
| "ontap_cosi_step lim (CallRevoke u ns) st =
     (if ns = [] then (Refused InvalidArgument, st)
      else (Revoked, st\<lparr>os_accesses := os_accesses st - set ns \<times> {u}\<rparr>))"
| "ontap_cosi_step lim rpc st =
     (case size_step lim rpc (os_sizes st) of (a, sz) \<Rightarrow> (a, st\<lparr>os_sizes := sz\<rparr>))"

fun ontap_cosi_run :: "limits \<Rightarrow> cosi_call list \<Rightarrow> ontap_store \<Rightarrow> cosi_answer list \<times> ontap_store" where
  "ontap_cosi_run lim [] st = ([], st)"
| "ontap_cosi_run lim (rpc # rpcs) st =
     (case ontap_cosi_step lim rpc st of (a, st1) \<Rightarrow>
        (case ontap_cosi_run lim rpcs st1 of (as, st2) \<Rightarrow> (a # as, st2)))"

text \<open>
  The calls that the store is for: with names that ONTAP takes, a creation of an existing bucket without a size or
  with the size that it has, and a revocation for all the buckets to which the account has access, since the
  account's user is deleted with the first one.
\<close>

fun proper_call :: "(string \<Rightarrow> bool) \<Rightarrow> pairs \<Rightarrow> ontap_store \<Rightarrow> cosi_call \<Rightarrow> bool" where
  "proper_call name_ok W st (CallGrant u ns) \<longleftrightarrow> set ns \<times> {u} \<subseteq> W"
| "proper_call name_ok W st (CallRevoke u ns) \<longleftrightarrow>
     set ns \<times> {u} \<subseteq> W \<and> (ns = [] \<or> (\<forall>(b, v) \<in> os_accesses st. v = u \<longrightarrow> b \<in> set ns))"
| "proper_call name_ok W st rpc \<longleftrightarrow> bucket_call name_ok (os_sizes st) rpc"

fun proper_calls :: "limits \<Rightarrow> (string \<Rightarrow> bool) \<Rightarrow> pairs \<Rightarrow> cosi_call list \<Rightarrow> ontap_store \<Rightarrow> bool" where
  "proper_calls lim name_ok W [] st \<longleftrightarrow> True"
| "proper_calls lim name_ok W (rpc # rpcs) st \<longleftrightarrow>
     proper_call name_ok W st rpc \<and> proper_calls lim name_ok W rpcs (snd (ontap_cosi_step lim rpc st))"

definition ontap_view :: "'o stored_view \<Rightarrow> ('o \<Rightarrow> ontap_access) \<Rightarrow> pairs \<Rightarrow> 'o world \<Rightarrow> ontap_store" where
  "ontap_view stored access W w =
     \<lparr>os_sizes = sizes stored (node w), os_accesses = accesses W (access (node w))\<rparr>"

lemma view_there: "(\<lambda>n. os_sizes (ontap_view stored access W w) n \<noteq> None) = bucket_there stored w"
  by (simp add: ontap_view_def sizes_def bucket_there_def fun_eq_iff)

lemma reaches_view:
  assumes "pairs_ok uni name_ok W" "reaches good stored access w w1 (holds uni W {} A)"
  shows "ontap_view stored access W w1 = (ontap_view stored access W w)\<lparr>os_accesses := A\<rparr>"
    "good (node w1)" "tidy uni W (access (node w1))"
proof -
  have "holds uni W {} A (access (node w1))" and *: "good (node w1)" "stored (node w1) = stored (node w)"
    using assms(2) by (simp_all add: reaches_def)
  moreover from holds_accesses [OF assms(1) this(1)] have "accesses W (access (node w1)) = A" .
  ultimately show "ontap_view stored access W w1 = (ontap_view stored access W w)\<lparr>os_accesses := A\<rparr>"
    "good (node w1)" "tidy uni W (access (node w1))"
    by (simp_all add: ontap_view_def sizes_def tidy_def fun_eq_iff)
qed

lemma ontap_grant_step:
  assumes doc: "documented_access env c lim name_ok good stored access" and ok: "pairs_ok (env_lower env) name_ok W"
    and good: "good (node w)" and tidy: "tidy (env_lower env) W (access (node w))" and cfg: "plain_config cfg"
    and proper: "set ns \<times> {u} \<subseteq> W"
    and h: "handle (s3_server env order cfg (SetupS3 c None)) None extra (CallGrant u ns) w = (a, w1)"
  shows "good (node w1) \<and> tidy (env_lower env) W (access (node w1)) \<and>
    ontap_cosi_step lim (CallGrant u ns) (ontap_view stored access W w) = (a, ontap_view stored access W w1)"
proof (cases "ns = []")
  case True
  with h good tidy show ?thesis
    by (auto simp: DriverGrantBucketAccess_def plain_s3_server [OF cfg] io_simps)
next
  case False
  let ?A = "accesses W (access (node w))" and ?there = "takeWhile (bucket_there stored w) ns"
  have "holds (env_lower env) W {} ?A (access (node w))" "\<forall>n \<in> set ns. (n, u) \<in> W"
    using tidy proper by (auto simp: tidy_def)
  from ontap_grant_loop [OF doc ok good this, of None "[]"] obtain r w2 where
    loop: "grant_loop (s3_backend env c) None u ns [] None w = (r, w2)"
    and w2: "reaches good stored access w w2 (holds (env_lower env) W {} (?A \<union> set ?there \<times> {u}))"
    and r: "loop_result (access (node w2)) u (?there = ns) ns [] None r"
    by auto
  have "er_GrantBucketAccess (dc_Errors (ps_Config (s3_server env order cfg (SetupS3 c None)))) = None"
    using cfg by (simp add: plain_config_def s3_server_def zero_Config_def)
  with h False loop r have "a = (if ?there = ns then Granted u ns else Refused NotFound) \<and> w1 = w2"
    by (cases "?there = ns")
      (auto simp: loop_result_def DriverGrantBucketAccess_def plain_s3_server [OF cfg] io_simps call_def)
  moreover have "ontap_cosi_step lim (CallGrant u ns) (ontap_view stored access W w) =
      (if ?there = ns then Granted u ns else Refused NotFound,
       (ontap_view stored access W w)\<lparr>os_accesses := ?A \<union> set ?there \<times> {u}\<rparr>)"
    using False unfolding ontap_cosi_step.simps view_there Let_def by (simp add: ontap_view_def)
  ultimately show ?thesis using reaches_view [OF ok w2] by simp
qed

lemma ontap_revoke_step:
  assumes doc: "documented_access env c lim name_ok good stored access" and ok: "pairs_ok (env_lower env) name_ok W"
    and good: "good (node w)" and tidy: "tidy (env_lower env) W (access (node w))" and cfg: "plain_config cfg"
    and proper: "proper_call name_ok W (ontap_view stored access W w) (CallRevoke u ns)"
    and h: "handle (s3_server env order cfg (SetupS3 c None)) None extra (CallRevoke u ns) w = (a, w1)"
  shows "good (node w1) \<and> tidy (env_lower env) W (access (node w1)) \<and>
    ontap_cosi_step lim (CallRevoke u ns) (ontap_view stored access W w) = (a, ontap_view stored access W w1)"
proof (cases "ns = []")
  case True
  with h good tidy show ?thesis
    by (auto simp: DriverRevokeBucketAccess_def plain_s3_server [OF cfg] io_simps)
next
  case False
  let ?A = "accesses W (access (node w))"
  have "holds (env_lower env) W {} ?A (access (node w))" "\<forall>n \<in> set ns. (n, u) \<in> W"
    using tidy proper by (auto simp: tidy_def)
  from ontap_revoke_loop [OF doc ok cfg good this] False obtain w2 where
    loop: "revoke_loop (s3_server env order cfg (SetupS3 c None)) (s3_backend env c) None u ns w = (Ok (), w2)"
    and w2: "reaches good stored access w w2 (holds (env_lower env) W {u} (?A - set ns \<times> {u}))"
    by auto
  have "\<forall>b. (b, u) \<notin> ?A - set ns \<times> {u}" using proper False by (auto simp: ontap_view_def)
  with w2 have w2: "reaches good stored access w w2 (holds (env_lower env) W {} (?A - set ns \<times> {u}))"
    by (auto simp: reaches_def intro: holds_revoked)
  have "er_RevokeBucketAccess (dc_Errors (ps_Config (s3_server env order cfg (SetupS3 c None)))) = None"
    using cfg by (simp add: plain_config_def s3_server_def zero_Config_def)
  with h False loop have "a = Revoked \<and> w1 = w2"
    by (auto simp: DriverRevokeBucketAccess_def plain_s3_server [OF cfg] io_simps call_def)
  with False reaches_view [OF ok w2] show ?thesis by (simp add: ontap_view_def)
qed

lemma ontap_cosi_step_refined:
  assumes doc: "documented_access env c lim name_ok good stored access" and ok: "pairs_ok (env_lower env) name_ok W"
    and good: "good (node w)" and tidy: "tidy (env_lower env) W (access (node w))" and cfg: "plain_config cfg"
    and proper: "proper_call name_ok W (ontap_view stored access W w) rpc"
    and h: "handle (s3_server env order cfg (SetupS3 c None)) None extra rpc w = (a, w1)"
  shows "good (node w1) \<and> tidy (env_lower env) W (access (node w1)) \<and>
    ontap_cosi_step lim rpc (ontap_view stored access W w) = (a, ontap_view stored access W w1)"
proof -
  have same: "good (node w) \<and> access (node w) = access (node w)" using good by simp
  note bucket = ontap_step [OF documented_accessD(1) [OF doc] same _ cfg h]
  show ?thesis
  proof (cases rpc)
    case (CallGrant u ns)
    with proper ontap_grant_step [OF doc ok good tidy cfg _ h [unfolded CallGrant]] show ?thesis by simp
  next
    case (CallRevoke u ns)
    with ontap_revoke_step [OF doc ok good tidy cfg proper [unfolded CallRevoke] h [unfolded CallRevoke]] show ?thesis by simp
  next
    case (CallCreate n ps)
    with bucket proper tidy show ?thesis by (auto simp: ontap_view_def split: prod.split simp del: size_step.simps bucket_call.simps)
  next
    case (CallDelete n)
    with bucket proper tidy show ?thesis by (auto simp: ontap_view_def split: prod.split simp del: size_step.simps bucket_call.simps)
  qed
qed

text \<open>
  C1: The provisioner service over an ONTAP system that behaves as documented, with its
  refusals: the deletion of a bucket with objects fails, and creations fail while the quota is
  used up (which buckets are full and whether the quota is used up does not change during the
  run). For every sequence of create, delete, grant and revoke calls, the driver's answers are
  those of the abstract store, ONTAP then has the store's buckets with their sizes and gives,
  among the pairs of bucket and account at hand, exactly the store's accesses, and it is again
  in a state from which the next sequence can start. Assumed: a single-tenant driver without
  bucket override and without injected errors; calls without a deadline; grants and revocations
  for the pairs at hand, with names that ONTAP takes and derived names that are distinct; a
  start at which ONTAP's policies, users and groups for these pairs are complete or absent and
  no other group lists these accounts or policies; creations of a bucket that exists ask for no
  size or for the one that it has; revocations list all the buckets of these pairs to which the
  account has access.
\<close>

theorem ontap_refines_cosi:
  assumes "documented_access env c lim name_ok good stored access" "pairs_ok (env_lower env) name_ok W" "plain_config cfg"
    and "good (node w)" "tidy (env_lower env) W (access (node w))"
    and "proper_calls lim name_ok W rpcs (ontap_view stored access W w)"
    and "handle_run (s3_server env order cfg (SetupS3 c None)) None extra rpcs w = (answers, w1)"
  shows "ontap_cosi_run lim rpcs (ontap_view stored access W w) = (answers, ontap_view stored access W w1) \<and>
    good (node w1) \<and> tidy (env_lower env) W (access (node w1))"
  using assms(4-)
proof (induction rpcs arbitrary: w w1 answers)
  case (Cons rpc rpcs)
  let ?s = "s3_server env order cfg (SetupS3 c None)"
  obtain a w2 where one: "handle ?s None extra rpc w = (a, w2)" by fastforce
  obtain as w3 where rest: "handle_run ?s None extra rpcs w2 = (as, w3)" by fastforce
  have "proper_call name_ok W (ontap_view stored access W w) rpc" using Cons.prems(3) by simp
  from ontap_cosi_step_refined [OF assms(1,2) Cons.prems(1,2) assms(3) this one]
  have step: "good (node w2)" "tidy (env_lower env) W (access (node w2))"
    "ontap_cosi_step lim rpc (ontap_view stored access W w) = (a, ontap_view stored access W w2)" by simp_all
  have "proper_calls lim name_ok W rpcs (ontap_view stored access W w2)" using Cons.prems(3) step(3) by simp
  from Cons.IH [OF step(1,2) this rest] step(3) one rest Cons.prems(4) show ?case by auto
qed simp

text \<open>
  C11: The credentials in the response of a successful grant, also of one for several buckets,
  are the keys that ONTAP then has for the account, although the keys are generated anew for
  every bucket, and the account has access to every requested bucket. Assumed: ONTAP behaves as
  documented; a single-tenant driver without bucket override and without injected errors; a call
  without a deadline; for the pairs of bucket and account at hand, among them the requested
  ones, names that ONTAP takes and derived names that are distinct; before the call ONTAP's
  policies, users and groups for these pairs are complete or absent, and no other group lists
  these accounts or policies.
\<close>

theorem grant_credentials_current:
  assumes "documented_access env c lim name_ok good stored access" "pairs_ok (env_lower env) name_ok W" "plain_config cfg"
    and "good (node w)" "tidy (env_lower env) W (access (node w))" "set ns \<times> {u} \<subseteq> W"
    and "DriverGrantBucketAccess (s3_server env order cfg (SetupS3 c None)) None
      \<lparr>gb_AccountName = u, gb_Buckets = ns, gb_Parameters = extra\<rparr> w = (Ok (Some resp), w1)"
  shows "\<exists>k. oa_users (access (node w1)) u = Some k \<and> gr_Credentials resp = Some (s3_keys k) \<and>
    (\<forall>n \<in> set ns. has_access (access (node w1)) u n)"
proof -
  let ?s = "s3_server env order cfg (SetupS3 c None)" and ?A = "accesses W (access (node w))"
    and ?there = "takeWhile (bucket_there stored w) ns"
  note server = plain_s3_server [OF assms(3)]
  have ne: "ns \<noteq> []" using assms(7) by (auto simp: DriverGrantBucketAccess_def server io_simps)
  have "holds (env_lower env) W {} ?A (access (node w))" "\<forall>n \<in> set ns. (n, u) \<in> W"
    using assms(5,6) by (auto simp: tidy_def)
  from ontap_grant_loop [OF assms(1,2,4) this, of None "[]"] obtain r w2 where
    loop: "grant_loop (s3_backend env c) None u ns [] None w = (r, w2)"
    and w2: "reaches good stored access w w2 (holds (env_lower env) W {} (?A \<union> set ?there \<times> {u}))"
    and r: "loop_result (access (node w2)) u (?there = ns) ns [] None r"
    by auto
  have "er_GrantBucketAccess (dc_Errors (ps_Config ?s)) = None"
    using assms(3) by (simp add: plain_config_def s3_server_def zero_Config_def)
  with assms(7) ne loop r have same: "w2 = w1" and all: "?there = ns" and keys: "has_keys (access (node w1)) u (gr_Credentials resp)"
    by (cases "?there = ns"; auto simp: loop_result_def DriverGrantBucketAccess_def server io_simps call_def)+
  have "accesses W (access (node w1)) = ?A \<union> set ns \<times> {u}"
    using reaches_view(1) [OF assms(2) w2] unfolding same all by (simp add: ontap_view_def)
  then have "\<forall>n \<in> set ns. has_access (access (node w1)) u n" by (auto simp: accesses_def)
  with keys show ?thesis by (auto simp: has_keys_def)
qed

end
