(* ===== verification/OntapRetry.thy ===== *)
theory OntapRetry
  imports OntapCosi
begin

text \<open>
  Failures between the driver and ONTAP: a request or its reply may be lost, or ONTAP may refuse it, at any
  point of an RPC, which then ends half done. What the half-done RPCs leave behind never stands in the way
  of the retry: the first grant or revocation that is served without a failure does its whole job.
\<close>

section \<open>An unreliable system\<close>

text \<open>
  Whatever the reply is, a request of the driver has left the access objects as they were, or done what it
  is documented to do.
\<close>

definition tries where
  "tries env c good stored access rq s res =
     serves env c good stored access rq s (\<lambda>_. True) (\<lambda>a1. a1 = access s \<or> res a1)"

definition unreliable_access where
  "unreliable_access env c name_ok good stored access \<longleftrightarrow>
     (\<forall>s. good s \<longrightarrow>
        (let a = access s; try_rq = (\<lambda>rq. tries env c good stored access rq s) in
         (\<forall>n. name_ok n \<longrightarrow> try_rq (list_request c n) (\<lambda>a1. False)) \<and>
         (\<forall>g. name_ok g \<longrightarrow> serves env c good stored access (list_groups_request c g) s
            (\<lambda>rep. \<forall>rs. group_records rep = Ok rs \<longrightarrow> (\<forall>r \<in> set rs. name_ok (gr_ID r))) (\<lambda>a1. a1 = a)) \<and>
         (\<forall>p b. name_ok p \<and> name_ok b \<longrightarrow>
            try_rq (policy_post c p b) (\<lambda>a1. a1 = a\<lparr>oa_policies := (oa_policies a)(p \<mapsto> b)\<rparr>) \<and>
            try_rq (policy_patch c p b) (\<lambda>a1. a1 = a\<lparr>oa_policies := (oa_policies a)(p \<mapsto> b)\<rparr>)) \<and>
         (\<forall>u. name_ok u \<longrightarrow>
            try_rq (user_post c u) (\<lambda>a1. \<exists>k. a1 = a\<lparr>oa_users := (oa_users a)(u \<mapsto> k)\<rparr>) \<and>
            try_rq (user_patch c u) (\<lambda>a1. \<exists>k. a1 = a\<lparr>oa_users := (oa_users a)(u \<mapsto> k)\<rparr>)) \<and>
         (\<forall>g u p. name_ok g \<and> name_ok u \<and> name_ok p \<longrightarrow> try_rq (group_post c g u p) (\<lambda>a1. oa_groups a g = None \<and>
            (\<exists>i. a1 = a\<lparr>oa_groups := (oa_groups a)(g \<mapsto> \<lparr>og_id = i, og_users = {u}, og_policies = {p}\<rparr>)\<rparr>))) \<and>
         (\<forall>i. name_ok i \<longrightarrow> try_rq (delete_path_request c (servicesPath c [''groups'', i]))
            (\<lambda>a1. \<exists>g. a1 = a\<lparr>oa_groups := (oa_groups a)(g := None)\<rparr>)) \<and>
         (\<forall>p. name_ok p \<longrightarrow> try_rq (delete_path_request c (servicesPath c [''policies'', p]))
            (\<lambda>a1. a1 = a\<lparr>oa_policies := (oa_policies a)(p := None)\<rparr>)) \<and>
         (\<forall>u. name_ok u \<longrightarrow> try_rq (delete_path_request c (servicesPath c [''users'', u]))
            (\<lambda>a1. \<exists>gs. user_dropped u (oa_groups a) gs \<and> a1 = a\<lparr>oa_users := (oa_users a)(u := None), oa_groups := gs\<rparr>))))"

section \<open>Computations that keep an invariant of the system\<close>

text \<open>Every run of \<open>m\<close>, successful or not, leads from a system state with \<open>I\<close> to one with \<open>I\<close>.\<close>

definition keeps :: "('o \<Rightarrow> bool) \<Rightarrow> ('o world \<Rightarrow> 'r \<times> 'o world) \<Rightarrow> bool" where
  "keeps I m \<longleftrightarrow> (\<forall>w r w1. I (node w) \<and> m w = (r, w1) \<longrightarrow> I (node w1))"

named_theorems keeps_intros "computations that keep an invariant of the system"

lemma keeps_ok [keeps_intros]: "keeps I (io_ok x)" and keeps_err [keeps_intros]: "keeps I (io_err e)"
  by (auto simp: keeps_def io_ok_def io_err_def)

lemma keepsD: "keeps I m \<Longrightarrow> I (node w) \<Longrightarrow> m w = (r, w1) \<Longrightarrow> I (node w1)"
  by (auto simp: keeps_def)

lemma keepsI: "(\<And>w r w1. I (node w) \<Longrightarrow> m w = (r, w1) \<Longrightarrow> I (node w1)) \<Longrightarrow> keeps I m"
  by (auto simp: keeps_def)

lemma keeps_handle [keeps_intros]:
  assumes "keeps I m" "\<And>e. keeps I (h e)" "\<And>x. keeps I (f x)"
  shows "keeps I (io_handle m h f)"
proof (rule keepsI)
  fix w r w1
  assume "I (node w)" and run: "io_handle m h f w = (r, w1)"
  obtain x w0 where m: "m w = (x, w0)" by fastforce
  from keepsD [OF assms(1) \<open>I (node w)\<close> m] have I: "I (node w0)" .
  show "I (node w1)"
  proof (cases x)
    case (Ok y)
    with run m have "f y w0 = (r, w1)" by (simp add: io_handle_def)
    from keepsD [OF assms(3) I this] show ?thesis .
  next
    case (Err e)
    with run m have "h e w0 = (r, w1)" by (simp add: io_handle_def)
    from keepsD [OF assms(2) I this] show ?thesis .
  next
    case (Panic p)
    with run m I show ?thesis by (simp add: io_handle_def)
  qed
qed

lemma io_bind_handle: "io_bind m f = io_handle m io_err f"
  by (rule ext) (simp add: io_bind_def io_handle_def io_err_def split: prod.split outcome.split)

lemma keeps_bind [keeps_intros]:
  assumes "keeps I m" "\<And>x. keeps I (f x)"
  shows "keeps I (io_bind m f)"
  unfolding io_bind_handle by (rule keeps_handle [OF assms(1) keeps_err assms(2)])

lemma keeps_if [keeps_intros]: "keeps I m \<Longrightarrow> keeps I m1 \<Longrightarrow> keeps I (if b then m else m1)"
  by simp

text \<open>An exchange under a context: its request is not sent at all, or it is, and its reply may come too late.\<close>

lemma http_do_sent:
  assumes "http_do env hc cx rq w = (rep, w1)"
  shows "w1 = w \<and> (\<exists>e. rep = NoReply e) \<or>
    (\<exists>rep0 d. env_send env hc rq (node w) = (rep0, d, node w1) \<and> (rep = rep0 \<or> (\<exists>e. rep = NoReply e)))"
  using assms by (cases "env_send env hc rq (node w)") (auto simp: http_do_def split: option.splits prod.splits if_splits)

lemma keeps_doJSON:
  assumes "\<And>s rep d s1. I s \<Longrightarrow> env_send env (c_httpClient c) (build_request c m p q b) s = (rep, d, s1) \<Longrightarrow> I s1"
  shows "keeps I (doJSON env c cx m p q b dec old)"
proof (rule keepsI)
  fix w r w1
  assume I: "I (node w)" and run: "doJSON env c cx m p q b dec old w = (r, w1)"
  then obtain rep where "http_do env (c_httpClient c) cx (build_request c m p q b) w = (rep, w1)"
    by (auto simp: doJSON_def split: prod.splits)
  from http_do_sent [OF this] I assms show "I (node w1)" by blast
qed

lemma keeps_request:
  assumes "\<And>s. I s \<Longrightarrow> tries env c good stored access (build_request c m p q b) s (res s)"
    and "\<And>s s1. I s \<Longrightarrow> good s1 \<Longrightarrow> stored s1 = stored s \<Longrightarrow> access s1 = access s \<or> res s (access s1) \<Longrightarrow> I s1"
  shows "keeps I (doJSON env c cx m p q b dec old)"
proof (rule keeps_doJSON)
  fix s rep d s1
  assume I: "I s" and send: "env_send env (c_httpClient c) (build_request c m p q b) s = (rep, d, s1)"
  from assms(1) [OF I] send have "good s1" "stored s1 = stored s" "access s1 = access s \<or> res s (access s1)"
    by (auto simp: tries_def serves_def)
  with assms(2) [OF I] show "I s1" by blast
qed

lemma unreliableD:
  assumes "unreliable_access env c name_ok good stored access" "good s"
  shows "name_ok n \<Longrightarrow> tries env c good stored access (list_request c n) s (\<lambda>a1. False)"
    "name_ok g \<Longrightarrow> serves env c good stored access (list_groups_request c g) s
       (\<lambda>rep. \<forall>rs. group_records rep = Ok rs \<longrightarrow> (\<forall>r \<in> set rs. name_ok (gr_ID r))) (\<lambda>a1. a1 = access s)"
    "name_ok p \<Longrightarrow> name_ok b \<Longrightarrow> tries env c good stored access (policy_post c p b) s
       (\<lambda>a1. a1 = (access s)\<lparr>oa_policies := (oa_policies (access s))(p \<mapsto> b)\<rparr>)"
    "name_ok p \<Longrightarrow> name_ok b \<Longrightarrow> tries env c good stored access (policy_patch c p b) s
       (\<lambda>a1. a1 = (access s)\<lparr>oa_policies := (oa_policies (access s))(p \<mapsto> b)\<rparr>)"
    "name_ok u \<Longrightarrow> tries env c good stored access (user_post c u) s
       (\<lambda>a1. \<exists>k. a1 = (access s)\<lparr>oa_users := (oa_users (access s))(u \<mapsto> k)\<rparr>)"
    "name_ok u \<Longrightarrow> tries env c good stored access (user_patch c u) s
       (\<lambda>a1. \<exists>k. a1 = (access s)\<lparr>oa_users := (oa_users (access s))(u \<mapsto> k)\<rparr>)"
    "name_ok g \<Longrightarrow> name_ok u \<Longrightarrow> name_ok p \<Longrightarrow> tries env c good stored access (group_post c g u p) s (\<lambda>a1. oa_groups (access s) g = None \<and>
       (\<exists>i. a1 = (access s)\<lparr>oa_groups := (oa_groups (access s))(g \<mapsto> \<lparr>og_id = i, og_users = {u}, og_policies = {p}\<rparr>)\<rparr>))"
    "name_ok i \<Longrightarrow> tries env c good stored access (delete_path_request c (servicesPath c [''groups'', i])) s
       (\<lambda>a1. \<exists>g. a1 = (access s)\<lparr>oa_groups := (oa_groups (access s))(g := None)\<rparr>)"
    "name_ok p \<Longrightarrow> tries env c good stored access (delete_path_request c (servicesPath c [''policies'', p])) s
       (\<lambda>a1. a1 = (access s)\<lparr>oa_policies := (oa_policies (access s))(p := None)\<rparr>)"
    "name_ok u \<Longrightarrow> tries env c good stored access (delete_path_request c (servicesPath c [''users'', u])) s
       (\<lambda>a1. \<exists>gs. user_dropped u (oa_groups (access s)) gs \<and>
          a1 = (access s)\<lparr>oa_users := (oa_users (access s))(u := None), oa_groups := gs\<rparr>)"
  using assms by (simp_all add: unreliable_access_def Let_def)

section \<open>What half-done grants leave behind\<close>

text \<open>Groups of the pairs are bound as intended where they exist; users and policies may be anything.\<close>

definition bound :: "(string \<Rightarrow> string) \<Rightarrow> pairs \<Rightarrow> ontap_access \<Rightarrow> bool" where
  "bound uni W a \<longleftrightarrow> (\<forall>(b, u) \<in> W. \<forall>r. oa_groups a (group_name uni b u) = Some r \<longrightarrow>
     og_users r = {u} \<and> og_policies r = {policy_name uni b u})"

lemma boundD:
  "bound uni W a \<Longrightarrow> (b, u) \<in> W \<Longrightarrow> oa_groups a (group_name uni b u) = Some r \<Longrightarrow>
     og_users r = {u} \<and> og_policies r = {policy_name uni b u}"
  by (auto simp: bound_def)

lemma bound_frame [simp]:
  "bound uni W (a\<lparr>oa_policies := ps\<rparr>) = bound uni W a" "bound uni W (a\<lparr>oa_users := us\<rparr>) = bound uni W a"
  by (simp_all add: bound_def)

lemma bound_group:
  assumes "bound uni W a" "pairs_ok uni name_ok W" "(b, u) \<in> W"
  shows "bound uni W (a\<lparr>oa_groups := (oa_groups a)(group_name uni b u \<mapsto>
    \<lparr>og_id = i, og_users = {u}, og_policies = {policy_name uni b u}\<rparr>)\<rparr>)"
  unfolding bound_def
proof (clarify, intro conjI)
  fix b' u' r
  assume W: "(b', u') \<in> W" and r: "oa_groups (a\<lparr>oa_groups := (oa_groups a)(group_name uni b u \<mapsto>
    \<lparr>og_id = i, og_users = {u}, og_policies = {policy_name uni b u}\<rparr>)\<rparr>) (group_name uni b' u') = Some r"
  have "og_users r = {u'} \<and> og_policies r = {policy_name uni b' u'}"
  proof (cases "b' = b \<and> u' = u")
    case False
    with pairs_okD(6) [OF assms(2,3) W] r have "oa_groups a (group_name uni b' u') = Some r" by simp
    with boundD [OF assms(1) W] show ?thesis by blast
  qed (use r in auto)
  then show "og_users r = {u'}" "og_policies r = {policy_name uni b' u'}" by simp_all
qed

section \<open>Grants over an unreliable system\<close>

text \<open>The invariant of the system's state: good, the buckets of \<open>st\<close>, and bound groups.\<close>

definition sound :: "('o \<Rightarrow> bool) \<Rightarrow> 'o stored_view \<Rightarrow> ('o \<Rightarrow> ontap_access) \<Rightarrow> (string \<Rightarrow> (string \<times> 64 word) option) \<Rightarrow>
  (ontap_access \<Rightarrow> bool) \<Rightarrow> 'o \<Rightarrow> bool" where
  "sound good stored access st I s \<longleftrightarrow> good s \<and> stored s = st \<and> I (access s)"

lemma keeps_sound:
  assumes "\<And>s. good s \<Longrightarrow> tries env c good stored access (build_request c m p q b) s (res s)"
    and "\<And>s a1. I (access s) \<Longrightarrow> res s a1 \<Longrightarrow> I a1"
  shows "keeps (sound good stored access st I) (doJSON env c cx m p q b dec old)"
  by (rule keeps_request [where res = res and good = good and stored = stored and access = access]) (use assms in \<open>auto simp: sound_def\<close>)

text \<open>An invariant of the access objects that the grants of \<open>W\<close> cannot break.\<close>

definition grant_closed :: "(string \<Rightarrow> string) \<Rightarrow> pairs \<Rightarrow> (ontap_access \<Rightarrow> bool) \<Rightarrow> bool" where
  "grant_closed uni W I \<longleftrightarrow>
     (\<forall>a. I a \<longrightarrow>
        (\<forall>ps. I (a\<lparr>oa_policies := ps\<rparr>)) \<and> (\<forall>us. I (a\<lparr>oa_users := us\<rparr>)) \<and>
        (\<forall>(b, u) \<in> W. \<forall>i. I (a\<lparr>oa_groups := (oa_groups a)(group_name uni b u \<mapsto>
           \<lparr>og_id = i, og_users = {u}, og_policies = {policy_name uni b u}\<rparr>)\<rparr>)))"

lemma grant_closedD:
  assumes "grant_closed uni W I" "I a"
  shows "I (a\<lparr>oa_policies := ps\<rparr>)" "I (a\<lparr>oa_users := us\<rparr>)"
    "(b, u) \<in> W \<Longrightarrow> I (a\<lparr>oa_groups := (oa_groups a)(group_name uni b u \<mapsto>
       \<lparr>og_id = i, og_users = {u}, og_policies = {policy_name uni b u}\<rparr>)\<rparr>)"
  using spec [OF assms(1) [unfolded grant_closed_def], of a] assms(2) by (simp, simp, blast)

lemma grant_closed_bound: "pairs_ok uni name_ok W \<Longrightarrow> grant_closed uni W (bound uni W)"
  by (auto simp: grant_closed_def bound_group)

lemma keeps_grant:
  assumes un: "unreliable_access env c name_ok good stored access" and ok: "pairs_ok (env_lower env) name_ok W"
    and I: "grant_closed (env_lower env) W I" and W: "(b, u) \<in> W"
  shows "keeps (sound good stored access st I) (CreateBucketAccess env c cx b u)"
proof -
  let ?I = "sound good stored access st I"
  note closed = grant_closedD [OF I] and names = pairs_okD(1-4) [OF ok W]
  have policy: "keeps ?I (createOrUpdatePolicy env c cx (policy_name (env_lower env) b u) b)"
    unfolding createOrUpdatePolicy_def
    by (intro keeps_intros keeps_sound [OF unreliableD(3) [OF un _ names(3,1), unfolded policy_post_def]]
        keeps_sound [OF unreliableD(4) [OF un _ names(3,1), unfolded policy_patch_def]]) (auto intro: closed(1))
  have user: "keeps ?I (createOrRotateUser env c cx u)"
  proof -
    have first: "keeps ?I (case records of [] \<Rightarrow> io_err e | r # _ \<Rightarrow> io_ok (f r))"
      for records :: "ontapUserRecord list" and e :: gerror and f :: "ontapUserRecord \<Rightarrow> S3Credentials"
      by (cases records) (simp_all add: keeps_intros)
    show ?thesis
      unfolding createOrRotateUser_def Let_def
      by (intro keeps_intros first keeps_sound [OF unreliableD(5) [OF un _ names(2), unfolded user_post_def]]
          keeps_sound [OF unreliableD(6) [OF un _ names(2), unfolded user_patch_def]]) (auto intro: closed(2))
  qed
  have group: "keeps ?I (createGroupIfNeeded env c cx (group_name (env_lower env) b u) u (policy_name (env_lower env) b u))"
    unfolding createGroupIfNeeded_def
    by (intro keeps_intros keeps_sound [OF unreliableD(7) [OF un _ names(4,2,3), unfolded group_post_def]]) (auto intro: closed(3) [OF _ W])
  show ?thesis
    unfolding CreateBucketAccess_def Let_def by (intro keeps_intros policy user group)
qed

lemma grant_bucket_s3:
  "grant_bucket (s3_backend env c) cx u n =
     io_handle (BucketExists env c cx n) (\<lambda>e. io_err (StatusErrf Internal e))
       (\<lambda>exists. if \<not> exists then io_err (StatusErrf NotFound ErrBucketNotFound)
          else io_handle (CreateBucketAccess env c cx n u)
            (\<lambda>e. if is_quota e then io_err (StatusErrf ResourceExhausted e) else io_err (StatusErrf Internal e))
            (\<lambda>x. io_ok (\<lparr>bi_BucketId = n,
               bi_BucketInfo = \<lparr>pi_S3 = Some (s3_bucket_info (s3_backend env c) n), pi_Azure = None\<rparr>\<rparr>,
               s3_keys (us_S3Credentials x))))"
  by (rule ext) (auto simp: grant_bucket_def s3_backend_def io_simps user_credential_info split: prod.split outcome.split)

lemma keeps_BucketExists:
  assumes un: "unreliable_access env c name_ok good stored access" and n: "name_ok n"
  shows "keeps (sound good stored access st I) (BucketExists env c cx n)"
  unfolding BucketExists_def listBucketsByName_def
  by (intro keeps_intros keeps_sound [OF unreliableD(1) [OF un _ n, unfolded list_request_def]]) auto

lemma keeps_grant_loop:
  assumes un: "unreliable_access env c name_ok good stored access" and ok: "pairs_ok (env_lower env) name_ok W"
    and I: "grant_closed (env_lower env) W I" and W: "set ns \<times> {u} \<subseteq> W"
  shows "keeps (sound good stored access st I) (grant_loop (s3_backend env c) cx u ns infos ci)"
  using W
proof (induction ns arbitrary: infos ci)
  case (Cons n ns)
  then have "(n, u) \<in> W" and rest: "set ns \<times> {u} \<subseteq> W" by auto
  from keeps_grant [OF un ok I this(1)] pairs_okD(1) [OF ok this(1)]
  have "keeps (sound good stored access st I) (grant_bucket (s3_backend env c) cx u n)"
    unfolding grant_bucket_s3 by (intro keeps_intros keeps_BucketExists [OF un])
  with Cons.IH [OF rest] show ?case by (simp add: keeps_intros split_def)
qed (simp add: keeps_intros)

lemma keeps_injected: "keeps I (injected_error se)"
  by (auto simp: keeps_def injected_error_def io_simps split: option.splits)

text \<open>The handlers of a server with one ONTAP client resolve it without touching the world.\<close>

lemma resolve_s3: "io_bind (resolveClient (s3_server env order cfg (SetupS3 c None)) cx ps) f = f (Some (s3_backend env c))"
  by (rule ext) (simp add: s3_server_def resolveClient_def io_simps)

lemma keeps_DriverGrantBucketAccess:
  assumes "unreliable_access env c name_ok good stored access" "pairs_ok (env_lower env) name_ok W" "grant_closed (env_lower env) W I"
    and "set ns \<times> {u} \<subseteq> W"
  shows "keeps (sound good stored access st I) (DriverGrantBucketAccess (s3_server env order cfg (SetupS3 c None)) cx
    \<lparr>gb_AccountName = u, gb_Buckets = ns, gb_Parameters = extra\<rparr>)"
  unfolding DriverGrantBucketAccess_def resolve_s3
  by (simp add: call_def split_def keeps_intros keeps_grant_loop [OF assms] keeps_injected split: option.split)

lemma keeps_handle_grant:
  assumes "keeps I (DriverGrantBucketAccess s cx \<lparr>gb_AccountName = u, gb_Buckets = ns, gb_Parameters = extra\<rparr>)"
  shows "keeps I (handle s cx extra (CallGrant u ns))"
  using assms by (auto simp: keeps_def split: prod.splits)

fun grant_call :: "pairs \<Rightarrow> cosi_call \<Rightarrow> bool" where
  "grant_call W (CallGrant u ns) \<longleftrightarrow> set ns \<times> {u} \<subseteq> W"
| "grant_call W _ \<longleftrightarrow> False"

text \<open>A run of calls each of which keeps the invariant.\<close>

lemma keeps_run:
  assumes "\<forall>rpc \<in> set rpcs. keeps I (handle s cx extra rpc)" "I (node w)" "handle_run s cx extra rpcs w = (answers, w1)"
  shows "I (node w1)"
  using assms
proof (induction rpcs arbitrary: w answers)
  case (Cons rpc rpcs)
  obtain a w2 where one: "handle s cx extra rpc w = (a, w2)" by fastforce
  obtain as w3 where rest: "handle_run s cx extra rpcs w2 = (as, w3)" by fastforce
  have "w3 = w1" using Cons.prems(3) one rest by simp
  have "I (node w2)" using Cons.prems(1,2) one by (auto simp: keeps_def)
  with Cons.IH [of w2 as] Cons.prems(1) rest \<open>w3 = w1\<close> show ?case by simp
qed simp

section \<open>The retry\<close>

definition complete :: "(string \<Rightarrow> string) \<Rightarrow> ontap_access \<Rightarrow> string \<Rightarrow> string \<Rightarrow> bool" where
  "complete uni a b u \<longleftrightarrow> oa_users a u \<noteq> None \<and> oa_policies a (policy_name uni b u) = Some b \<and>
     (\<exists>r. oa_groups a (group_name uni b u) = Some r \<and> og_users r = {u} \<and> og_policies r = {policy_name uni b u})"

lemma complete_access:
  assumes "complete uni a b u"
  shows "has_access a u b"
proof -
  from assms obtain r where "oa_groups a (group_name uni b u) = Some r" "og_users r = {u}" "og_policies r = {policy_name uni b u}"
    by (auto simp: complete_def)
  with assms show ?thesis
    by (intro has_accessI [where g = "group_name uni b u" and p = "policy_name uni b u" and r = r]) (simp_all add: complete_def)
qed

lemma grant_effect_bound:
  assumes ok: "pairs_ok uni name_ok W" and "bound uni W a" and W: "(b, u) \<in> W" and eff: "grant_effect uni b u k a a1"
  shows "bound uni W a1" "complete uni a1 b u" "oa_users a1 u = Some k"
    "\<forall>b'. (b', u) \<in> W \<and> complete uni a b' u \<longrightarrow> complete uni a1 b' u"
proof -
  have group: "oa_groups a1 (group_name uni b' u') = oa_groups a (group_name uni b' u')"
    if "(b', u') \<in> W" "\<not> (b' = b \<and> u' = u)" for b' u'
    using eff pairs_okD(6) [OF ok W that(1)] that(2) by (auto simp: grant_effect_def split: if_splits)
  have own: "\<exists>r. oa_groups a1 (group_name uni b u) = Some r \<and> og_users r = {u} \<and> og_policies r = {policy_name uni b u}"
    using eff boundD [OF assms(2) W] by (auto simp: grant_effect_def split: if_splits)
  show "bound uni W a1"
    unfolding bound_def
  proof (clarify, intro conjI)
    fix b' u' r
    assume W': "(b', u') \<in> W" and r: "oa_groups a1 (group_name uni b' u') = Some r"
    have "og_users r = {u'} \<and> og_policies r = {policy_name uni b' u'}"
    proof (cases "b' = b \<and> u' = u")
      case True
      with own r show ?thesis by auto
    next
      case False
      with group [OF W'] r boundD [OF assms(2) W'] show ?thesis by simp
    qed
    then show "og_users r = {u'}" "og_policies r = {policy_name uni b' u'}" by simp_all
  qed
  show "complete uni a1 b u" using own eff by (auto simp: complete_def grant_effect_def)
  show "oa_users a1 u = Some k" using eff by (simp add: grant_effect_def)
  show "\<forall>b'. (b', u) \<in> W \<and> complete uni a b' u \<longrightarrow> complete uni a1 b' u"
  proof (intro allI impI)
    fix b'
    assume *: "(b', u) \<in> W \<and> complete uni a b' u"
    show "complete uni a1 b' u"
    proof (cases "b' = b")
      case False
      with * pairs_okD(5) [OF ok W] have "policy_name uni b' u \<noteq> policy_name uni b u" by blast
      with * False group [of b' u] eff show ?thesis by (auto simp: complete_def grant_effect_def)
    qed (use \<open>complete uni a1 b u\<close> in simp)
  qed
qed

lemma retry_bucket:
  assumes doc: "documented_access env c lim name_ok good stored access" and ok: "pairs_ok (env_lower env) name_ok W"
    and good: "good (node w)" and bound: "bound (env_lower env) W (access (node w))" and W: "(n, u) \<in> W"
    and there: "stored (node w) n \<noteq> None"
  shows "\<exists>info k w1. grant_bucket (s3_backend env c) None u n w = (Ok (info, s3_keys k), w1) \<and> bi_BucketId info = n \<and>
    good (node w1) \<and> stored (node w1) = stored (node w) \<and> bound (env_lower env) W (access (node w1)) \<and>
    complete (env_lower env) (access (node w1)) n u \<and> oa_users (access (node w1)) u = Some k \<and>
    (\<forall>b. (b, u) \<in> W \<and> complete (env_lower env) (access (node w)) b u \<longrightarrow> complete (env_lower env) (access (node w1)) b u)"
proof -
  from ontap_exists [OF doc good pairs_okD(1) [OF ok W]] there obtain w0 where
    0: "BucketExists env c None n w = (Ok True, w0)" "good (node w0)" "stored (node w0) = stored (node w)"
      "access (node w0) = access (node w)"
    by (auto simp: reaches_def)
  have "pair_names (env_lower env) name_ok n u" using pairs_okD(1-4) [OF ok W] by (simp add: pair_names_def)
  from ontap_grant_effect [OF doc this 0(2)] obtain x w1 where
    1: "CreateBucketAccess env c None n u w0 = (Ok x, w1)" "good (node w1)" "stored (node w1) = stored (node w)"
      "grant_effect (env_lower env) n u (us_S3Credentials x) (access (node w)) (access (node w1))"
    unfolding reaches_def 0(3,4) by blast
  from grant_effect_bound [OF ok bound W 1(4)] 0(1) 1(1-3) show ?thesis
    by (simp add: grant_bucket_s3 io_simps)
qed

lemma retry_loop:
  assumes doc: "documented_access env c lim name_ok good stored access" and ok: "pairs_ok (env_lower env) name_ok W"
    and "good (node w)" "bound (env_lower env) W (access (node w))" "set ns \<times> {u} \<subseteq> W"
    and "\<forall>n \<in> set ns. stored (node w) n \<noteq> None" "ci = None \<or> has_keys (access (node w)) u ci"
  shows "\<exists>more ci1 w1. grant_loop (s3_backend env c) None u ns infos ci w = (Ok (infos @ more, ci1), w1) \<and>
    map bi_BucketId more = ns \<and> (ci = None \<and> ns = [] \<or> has_keys (access (node w1)) u ci1) \<and>
    (\<forall>n \<in> set ns. complete (env_lower env) (access (node w1)) n u) \<and>
    (\<forall>b. (b, u) \<in> W \<and> complete (env_lower env) (access (node w)) b u \<longrightarrow> complete (env_lower env) (access (node w1)) b u)"
  using assms(3-7)
proof (induction ns arbitrary: infos ci w)
  case Nil
  then show ?case by (auto simp: io_simps)
next
  case (Cons n ns)
  from Cons.prems(3) have W: "(n, u) \<in> W" and rest: "set ns \<times> {u} \<subseteq> W" by auto
  from retry_bucket [OF doc ok Cons.prems(1,2) W] Cons.prems(4) obtain info k w1 where
    1: "grant_bucket (s3_backend env c) None u n w = (Ok (info, s3_keys k), w1)" "bi_BucketId info = n"
      "good (node w1)" "stored (node w1) = stored (node w)" "bound (env_lower env) W (access (node w1))"
      "complete (env_lower env) (access (node w1)) n u" "oa_users (access (node w1)) u = Some k"
      "\<forall>b. (b, u) \<in> W \<and> complete (env_lower env) (access (node w)) b u \<longrightarrow> complete (env_lower env) (access (node w1)) b u"
    by auto
  have "\<forall>n \<in> set ns. stored (node w1) n \<noteq> None" "Some (s3_keys k) = None \<or> has_keys (access (node w1)) u (Some (s3_keys k))"
    using Cons.prems(4) 1(4,7) by (simp_all add: has_keys_def)
  from Cons.IH [OF 1(3,5) rest this, of "infos @ [info]"] obtain more ci1 w2 where
    2: "grant_loop (s3_backend env c) None u ns (infos @ [info]) (Some (s3_keys k)) w1 = (Ok ((infos @ [info]) @ more, ci1), w2)"
      "map bi_BucketId more = ns" "has_keys (access (node w2)) u ci1"
      "\<forall>n \<in> set ns. complete (env_lower env) (access (node w2)) n u"
      "\<forall>b. (b, u) \<in> W \<and> complete (env_lower env) (access (node w1)) b u \<longrightarrow> complete (env_lower env) (access (node w2)) b u"
    by blast
  have "grant_loop (s3_backend env c) None u (n # ns) infos ci w = (Ok (infos @ (info # more), ci1), w2)"
    using 1(1) 2(1) by (simp add: io_simps)
  moreover have "complete (env_lower env) (access (node w2)) n u" using 2(5) W 1(6) by blast
  moreover have "\<forall>b. (b, u) \<in> W \<and> complete (env_lower env) (access (node w)) b u \<longrightarrow> complete (env_lower env) (access (node w2)) b u"
    using 1(8) 2(5) by blast
  ultimately show ?case using 1(2) 2(2-4) by (intro exI [of _ "info # more"] exI [of _ ci1] exI [of _ w2]) simp
qed

text \<open>
  C13: After any number of grants that were cut short by lost requests, lost replies, refusals
  or their deadline, the first grant, without a deadline, that ONTAP serves without a failure
  succeeds: it answers for the requested buckets, the account has access to all of them, and the
  returned credentials are the account's keys in ONTAP. Assumed: names that ONTAP takes and
  distinct derived names for the pairs of bucket and account at hand, which all these grants are
  about; ONTAP, whatever it loses or refuses, changes policies, users and groups only as it was
  asked to; at first every group of such a derived name lists exactly the pair's account and
  policy; the requested buckets exist and no bucket is created or deleted meanwhile; a
  single-tenant driver without bucket override and without injected errors.
\<close>

theorem grant_retry_converges:
  assumes "unreliable_access env c name_ok good stored access" "documented_access env1 c lim name_ok good stored access"
    and "env_lower env1 = env_lower env" "pairs_ok (env_lower env) name_ok W" "plain_config cfg"
    and "good (node w)" "bound (env_lower env) W (access (node w))"
    and "\<forall>rpc \<in> set rpcs. grant_call W rpc"
    and "handle_run (s3_server env order cfg (SetupS3 c None)) cx extra rpcs w = (answers, w1)"
    and "ns \<noteq> []" "set ns \<times> {u} \<subseteq> W" "\<forall>n \<in> set ns. stored (node w) n \<noteq> None"
  shows "\<exists>resp w2 k. DriverGrantBucketAccess (s3_server env1 order cfg (SetupS3 c None)) None
      \<lparr>gb_AccountName = u, gb_Buckets = ns, gb_Parameters = extra\<rparr> w1 = (Ok (Some resp), w2) \<and>
    map bi_BucketId (gr_Buckets resp) = ns \<and> gr_Credentials resp = Some (s3_keys k) \<and>
    oa_users (access (node w2)) u = Some k \<and> (\<forall>n \<in> set ns. has_access (access (node w2)) u n)"
proof -
  let ?I = "sound good stored access (stored (node w)) (bound (env_lower env) W)"
  have "keeps ?I (handle (s3_server env order cfg (SetupS3 c None)) cx extra rpc)" if "rpc \<in> set rpcs" for rpc
  proof -
    from assms(8) that obtain v ms where "rpc = CallGrant v ms" "set ms \<times> {v} \<subseteq> W" by (cases rpc) auto
    with keeps_handle_grant [OF keeps_DriverGrantBucketAccess [OF assms(1,4) grant_closed_bound [OF assms(4)]]] show ?thesis by blast
  qed
  with keeps_run [of rpcs ?I, OF _ _ assms(9)] assms(6,7) have "?I (node w1)" by (simp add: sound_def)
  then have sound: "good (node w1)" "stored (node w1) = stored (node w)" "bound (env_lower env) W (access (node w1))"
    by (simp_all add: sound_def)
  have ok: "pairs_ok (env_lower env1) name_ok W" and bound: "bound (env_lower env1) W (access (node w1))"
    using assms(3,4) sound(3) by simp_all
  have "\<forall>n \<in> set ns. stored (node w1) n \<noteq> None" using assms(12) sound(2) by simp
  from retry_loop [OF assms(2) ok sound(1) bound assms(11) this, of None "[]"] assms(10) obtain more ci1 w2 where
    loop: "grant_loop (s3_backend env1 c) None u ns [] None w1 = (Ok (more, ci1), w2)"
      "map bi_BucketId more = ns" "has_keys (access (node w2)) u ci1"
      "\<forall>n \<in> set ns. complete (env_lower env1) (access (node w2)) n u"
    by auto
  have "er_GrantBucketAccess (dc_Errors (ps_Config (s3_server env1 order cfg (SetupS3 c None)))) = None"
    using assms(5) by (simp add: plain_config_def s3_server_def zero_Config_def)
  with loop assms(10) have "DriverGrantBucketAccess (s3_server env1 order cfg (SetupS3 c None)) None
      \<lparr>gb_AccountName = u, gb_Buckets = ns, gb_Parameters = extra\<rparr> w1 =
      (Ok (Some \<lparr>gr_AccountId = u, gr_Buckets = more, gr_Credentials = ci1\<rparr>), w2)"
    by (simp add: DriverGrantBucketAccess_def plain_s3_server [OF assms(5)] io_simps call_def)
  with loop show ?thesis by (auto simp: has_keys_def intro: complete_access)
qed

section \<open>Revocations over an unreliable system\<close>

text \<open>Groups of the pairs list nothing but their own user and policy, and no other group lists their policies.\<close>

definition owned :: "(string \<Rightarrow> string) \<Rightarrow> pairs \<Rightarrow> ontap_access \<Rightarrow> bool" where
  "owned uni W a \<longleftrightarrow> (\<forall>(b, u) \<in> W. \<forall>g r. oa_groups a g = Some r \<longrightarrow>
     (if g = group_name uni b u then og_users r \<subseteq> {u} \<and> og_policies r \<subseteq> {policy_name uni b u}
      else policy_name uni b u \<notin> og_policies r))"

lemma ownedD:
  assumes "owned uni W a" "(b, u) \<in> W" "oa_groups a g = Some r"
  shows "g = group_name uni b u \<Longrightarrow> og_users r \<subseteq> {u} \<and> og_policies r \<subseteq> {policy_name uni b u}"
    "g \<noteq> group_name uni b u \<Longrightarrow> policy_name uni b u \<notin> og_policies r"
  using bspec [OF assms(1) [unfolded owned_def] assms(2)] assms(3) by (auto split: if_splits)

lemma owned_frame [simp]:
  "owned uni W (a\<lparr>oa_policies := ps\<rparr>) = owned uni W a" "owned uni W (a\<lparr>oa_users := us\<rparr>) = owned uni W a"
  by (simp_all add: owned_def)

text \<open>Groups that lose members or disappear do no harm, nor does a new group of a pair.\<close>

lemma owned_shrink:
  assumes "owned uni W a"
    and "\<And>g r. oa_groups a1 g = Some r \<Longrightarrow> \<exists>r0. oa_groups a g = Some r0 \<and> og_users r \<subseteq> og_users r0 \<and> og_policies r \<subseteq> og_policies r0"
  shows "owned uni W a1"
  unfolding owned_def
proof (clarify)
  fix b u g r
  assume W: "(b, u) \<in> W" and "oa_groups a1 g = Some r"
  with assms(2) obtain r0 where r0: "oa_groups a g = Some r0" and sub: "og_users r \<subseteq> og_users r0" "og_policies r \<subseteq> og_policies r0"
    by blast
  note own = ownedD [OF assms(1) W r0]
  show "if g = group_name uni b u then og_users r \<subseteq> {u} \<and> og_policies r \<subseteq> {policy_name uni b u}
      else policy_name uni b u \<notin> og_policies r"
  proof (cases "g = group_name uni b u")
    case True
    from own(1) [OF this] sub have "og_users r \<subseteq> {u}" "og_policies r \<subseteq> {policy_name uni b u}" by blast+
    with True show ?thesis by simp
  next
    case False
    from own(2) [OF this] sub False show ?thesis by auto
  qed
qed

lemma owned_group:
  assumes "owned uni W a" "pairs_ok uni name_ok W" "(b, u) \<in> W"
  shows "owned uni W (a\<lparr>oa_groups := (oa_groups a)(group_name uni b u \<mapsto>
    \<lparr>og_id = i, og_users = {u}, og_policies = {policy_name uni b u}\<rparr>)\<rparr>)"
  unfolding owned_def
proof (clarify)
  fix b' u' g r
  assume W: "(b', u') \<in> W" and r: "oa_groups (a\<lparr>oa_groups := (oa_groups a)(group_name uni b u \<mapsto>
    \<lparr>og_id = i, og_users = {u}, og_policies = {policy_name uni b u}\<rparr>)\<rparr>) g = Some r"
  note inj = pairs_okD(5,6) [OF assms(2,3) W]
  show "if g = group_name uni b' u' then og_users r \<subseteq> {u'} \<and> og_policies r \<subseteq> {policy_name uni b' u'}
      else policy_name uni b' u' \<notin> og_policies r"
  proof (cases "g = group_name uni b u")
    case True
    with r inj show ?thesis by auto
  next
    case False
    with r have "oa_groups a g = Some r" by simp
    from ownedD [OF assms(1) W this] show ?thesis by auto
  qed
qed

lemma user_dropped_shrink:
  assumes "user_dropped u gs gs1" "gs1 g = Some r"
  shows "\<exists>r0. gs g = Some r0 \<and> og_users r \<subseteq> og_users r0 \<and> og_policies r \<subseteq> og_policies r0"
  using assms unfolding user_dropped_def by (metis (no_types, lifting) Diff_subset ontap_group.select_convs(2,3) ontap_group.surjective ontap_group.update_convs(2) option.inject subset_refl)

lemma owned_revoke:
  assumes "owned uni W a" "revoke_effect uni b u a a1"
  shows "owned uni W a1"
proof (rule owned_shrink [OF assms(1)])
  fix g r
  assume "oa_groups a1 g = Some r"
  with assms(2) obtain r0 where "((oa_groups a)(group_name uni b u := None)) g = Some r0" "og_users r \<subseteq> og_users r0"
    "og_policies r \<subseteq> og_policies r0"
    unfolding revoke_effect_def by (blast dest: user_dropped_shrink)
  then show "\<exists>r0. oa_groups a g = Some r0 \<and> og_users r \<subseteq> og_users r0 \<and> og_policies r \<subseteq> og_policies r0"
    by (auto split: if_splits)
qed

text \<open>A revocation ends every access of its account and leaves the accesses of all others as they are.\<close>

lemma revoke_effect_access:
  assumes own: "owned uni W a" and W: "(b, u) \<in> W" and eff: "revoke_effect uni b u a a1"
  shows "\<not> has_access a1 u b'" "v \<noteq> u \<Longrightarrow> has_access a1 v b' \<longleftrightarrow> has_access a v b'"
proof -
  let ?p = "policy_name uni b u" and ?g = "group_name uni b u"
  have users: "oa_users a1 = (oa_users a)(u := None)" and policies: "oa_policies a1 = (oa_policies a)(?p := None)"
    and groups: "user_dropped u ((oa_groups a)(?g := None)) (oa_groups a1)"
    using eff by (simp_all add: revoke_effect_def)
  show "\<not> has_access a1 u b'" by (simp add: has_access_def users)
  assume v: "v \<noteq> u"
  show "has_access a1 v b' \<longleftrightarrow> has_access a v b'"
  proof
    assume "has_access a1 v b'"
    then obtain g r p where 1: "oa_users a v \<noteq> None" "oa_groups a1 g = Some r" "v \<in> og_users r" "p \<in> og_policies r" "oa_policies a1 p = Some b'"
      using v by (auto simp: has_access_def users)
    from user_dropped_shrink [OF groups 1(2)] obtain r0 where "oa_groups a g = Some r0" "og_users r \<subseteq> og_users r0" "og_policies r \<subseteq> og_policies r0"
      by (auto split: if_splits)
    moreover have "oa_policies a p = Some b'" using 1(5) by (simp add: policies split: if_splits)
    ultimately show "has_access a v b'" using 1(1,3,4) by (intro has_accessI [where g = g and r = r0 and p = p]) auto
  next
    assume "has_access a v b'"
    then obtain g r p where 1: "oa_users a v \<noteq> None" "oa_groups a g = Some r" "v \<in> og_users r" "p \<in> og_policies r" "oa_policies a p = Some b'"
      by (auto simp: has_access_def)
    have g: "g \<noteq> ?g" using ownedD(1) [OF own W 1(2)] 1(3) v by auto
    with ownedD(2) [OF own W 1(2)] 1(4) have p: "p \<noteq> ?p" by auto
    from groups g 1(2) have "oa_groups a1 g = Some r \<or> oa_groups a1 g = Some (r\<lparr>og_users := og_users r - {u}\<rparr>)"
      unfolding user_dropped_def by (metis fun_upd_other option.inject)
    then obtain r1 where r1: "oa_groups a1 g = Some r1" "v \<in> og_users r1" "p \<in> og_policies r1" using 1(3,4) v by auto
    show "has_access a1 v b'"
      by (rule has_accessI [OF _ r1]) (use v 1 p in \<open>simp_all add: users policies\<close>)
  qed
qed

lemma keeps_list_groups:
  assumes un: "unreliable_access env c name_ok good stored access" and g: "name_ok g"
    and I: "sound good stored access st I (node w)" and run: "listGroupsByName env c cx g w = (r, w1)"
  shows "sound good stored access st I (node w1)" "r = Ok rs \<Longrightarrow> \<forall>x \<in> set rs. name_ok (gr_ID x)"
proof -
  have "good (node w)" using I by (simp add: sound_def)
  note listed = unreliableD(2) [OF un this g, unfolded serves_def group_records_def]
  obtain rep where http: "http_do env (c_httpClient c) cx (list_groups_request c g) w = (rep, w1)"
    and r: "r = read_reply (Some (dec_records dec_group_record zero_group_record)) [] rep"
    using run by (auto simp: listGroupsByName_def list_groups_request_def doJSON_def split: prod.splits)
  from http_do_sent [OF http] listed I show "sound good stored access st I (node w1)" by (auto simp: sound_def)
  from http_do_sent [OF http] listed r show "r = Ok rs \<Longrightarrow> \<forall>x \<in> set rs. name_ok (gr_ID x)"
    by (auto simp: read_reply_def)
qed

lemma keeps_revoke:
  assumes un: "unreliable_access env c name_ok good stored access" and names: "pair_names (env_lower env) name_ok b u"
  shows "keeps (sound good stored access st (owned uni W)) (DeleteBucketAccess env c cx b u)"
proof -
  let ?I = "sound good stored access st (owned uni W)"
  have names: "name_ok u" "name_ok (policy_name (env_lower env) b u)" "name_ok (group_name (env_lower env) b u)"
    using names by (simp_all add: pair_names_def)
  have shrink: "owned uni W (a\<lparr>oa_groups := (oa_groups a)(g := None)\<rparr>)" if "owned uni W a" for a g
    by (rule owned_shrink [OF that]) (auto split: if_splits)
  have drop: "owned uni W (a\<lparr>oa_users := us, oa_groups := gs\<rparr>)" if "owned uni W a" "user_dropped v (oa_groups a) gs" for a v us gs
    by (rule owned_shrink [OF that(1)]) (use user_dropped_shrink [OF that(2)] in simp)
  have tolerant: "keeps ?I (delete_tolerant env c cx path)"
    if "keeps ?I (doJSON env c cx ''DELETE'' path [] None None ())" for path
    unfolding delete_tolerant_def by (intro keeps_intros that)
  have groups: "keeps ?I (delete_groups env c cx g records)" if "\<forall>r \<in> set records. name_ok (gr_ID r)" for g records
    using that
    by (induction records)
      (auto intro!: keeps_intros tolerant keeps_sound [OF unreliableD(8) [OF un, unfolded delete_path_request_def]] shrink)
  have group: "keeps ?I (deleteGroupIfExists env c cx (group_name (env_lower env) b u))"
  proof (rule keepsI)
    fix w r w1
    assume I: "?I (node w)" and run: "deleteGroupIfExists env c cx (group_name (env_lower env) b u) w = (r, w1)"
    obtain x w0 where list: "listGroupsByName env c cx (group_name (env_lower env) b u) w = (x, w0)" by fastforce
    note w0 = keeps_list_groups [OF un names(3) I list]
    show "?I (node w1)"
    proof (cases x)
      case (Ok rs)
      with run list have "delete_groups env c cx (group_name (env_lower env) b u) rs w0 = (r, w1)"
        by (simp add: deleteGroupIfExists_def io_bind_def)
      from keepsD [OF groups [OF w0(2) [OF Ok]] w0(1) this] show ?thesis .
    qed (use run list w0(1) in \<open>auto simp: deleteGroupIfExists_def io_bind_def\<close>)
  qed
  have policy: "keeps ?I (deletePolicyIfExists env c cx (policy_name (env_lower env) b u))"
    unfolding deletePolicyIfExists_def
    by (intro tolerant keeps_sound [OF unreliableD(9) [OF un _ names(2), unfolded delete_path_request_def]]) auto
  have user: "keeps ?I (deleteUserIfExists env c cx u)"
    unfolding deleteUserIfExists_def
    by (intro tolerant keeps_sound [OF unreliableD(10) [OF un _ names(1), unfolded delete_path_request_def]]) (auto intro: drop)
  show ?thesis
    unfolding DeleteBucketAccess_def Let_def by (intro keeps_intros group policy user)
qed

lemma grant_closed_owned: "pairs_ok uni name_ok W \<Longrightarrow> grant_closed uni W (owned uni W)"
  by (auto simp: grant_closed_def owned_group)

lemma keeps_DriverRevokeBucketAccess:
  assumes un: "unreliable_access env c name_ok good stored access" and ok: "pairs_ok (env_lower env) name_ok W"
    and cfg: "plain_config cfg" and W: "set ns \<times> {u} \<subseteq> W"
  shows "keeps (sound good stored access st (owned uni V)) (DriverRevokeBucketAccess (s3_server env order cfg (SetupS3 c None)) cx
    \<lparr>rb_AccountId = u, rb_Buckets = ns, rb_Parameters = extra\<rparr>)"
proof -
  have "keeps (sound good stored access st (owned uni V))
      (revoke_loop (s3_server env order cfg (SetupS3 c None)) (s3_backend env c) cx u ns)"
    using W
  proof (induction ns)
    case (Cons n ns)
    then have "(n, u) \<in> W" by simp
    then have "pair_names (env_lower env) name_ok n u" using pairs_okD(1-4) [OF ok] by (simp add: pair_names_def)
    with Cons keeps_revoke [OF un this] show ?case
      by (auto simp: s3_backend_def plain_s3_server [OF cfg] intro!: keeps_intros)
  qed (simp add: keeps_intros)
  then show ?thesis
    unfolding DriverRevokeBucketAccess_def resolve_s3
    by (simp add: call_def keeps_intros keeps_injected split: option.split)
qed

lemma keeps_handle_revoke:
  assumes "keeps I (DriverRevokeBucketAccess s cx \<lparr>rb_AccountId = u, rb_Buckets = ns, rb_Parameters = extra\<rparr>)"
  shows "keeps I (handle s cx extra (CallRevoke u ns))"
  using assms by (auto simp: keeps_def split: prod.splits)

fun access_call :: "pairs \<Rightarrow> cosi_call \<Rightarrow> bool" where
  "access_call W (CallGrant u ns) \<longleftrightarrow> set ns \<times> {u} \<subseteq> W"
| "access_call W (CallRevoke u ns) \<longleftrightarrow> set ns \<times> {u} \<subseteq> W"
| "access_call W _ \<longleftrightarrow> False"

definition removed :: "(string \<Rightarrow> string) \<Rightarrow> ontap_access \<Rightarrow> string \<Rightarrow> string \<Rightarrow> bool" where
  "removed uni a b u \<longleftrightarrow> oa_policies a (policy_name uni b u) = None \<and> oa_groups a (group_name uni b u) = None"

lemma removed_stays:
  assumes "revoke_effect uni b u a a1" "removed uni a b' u'"
  shows "removed uni a1 b' u'"
proof -
  have "oa_groups a1 g = None" if "oa_groups a g = None" for g
    using assms(1) that unfolding revoke_effect_def user_dropped_def
    by (metis fun_upd_apply option.distinct(1))
  with assms show ?thesis by (simp add: removed_def revoke_effect_def)
qed

lemma revoke_retry_loop:
  assumes doc: "documented_access env c lim name_ok good stored access" and ok: "pairs_ok (env_lower env) name_ok W"
    and cfg: "plain_config cfg"
    and "good (node w)" "owned (env_lower env) W (access (node w))" "set ns \<times> {u} \<subseteq> W"
  shows "\<exists>w1. revoke_loop (s3_server env order cfg (SetupS3 c None)) (s3_backend env c) None u ns w = (Ok (), w1) \<and>
    (ns \<noteq> [] \<longrightarrow> (\<forall>b. \<not> has_access (access (node w1)) u b)) \<and>
    (\<forall>n. removed (env_lower env) (access (node w)) n u \<or> n \<in> set ns \<longrightarrow> removed (env_lower env) (access (node w1)) n u) \<and>
    (\<forall>v b. v \<noteq> u \<longrightarrow> has_access (access (node w1)) v b = has_access (access (node w)) v b)"
  using assms(4-6)
proof (induction ns arbitrary: w)
  case Nil
  then show ?case by (simp add: io_simps)
next
  case (Cons n ns)
  let ?s = "s3_server env order cfg (SetupS3 c None)"
  from Cons.prems(3) have W: "(n, u) \<in> W" and rest: "set ns \<times> {u} \<subseteq> W" by auto
  have names: "pair_names (env_lower env) name_ok n u" using pairs_okD(1-4) [OF ok W] by (simp add: pair_names_def)
  have own: "\<forall>g r. oa_groups (access (node w)) g = Some r \<and> g \<noteq> group_name (env_lower env) n u \<longrightarrow>
      policy_name (env_lower env) n u \<notin> og_policies r"
    using ownedD(2) [OF Cons.prems(2) W] by blast
  from ontap_revoke_effect [OF doc names Cons.prems(1) own] obtain w1 where
    1: "DeleteBucketAccess env c None n u w = (Ok (), w1)" "good (node w1)"
      "revoke_effect (env_lower env) n u (access (node w)) (access (node w1))"
    by (auto simp: reaches_def)
  note after = revoke_effect_access [OF Cons.prems(2) W 1(3)]
  have gone: "removed (env_lower env) (access (node w1)) n u"
    using 1(3) unfolding removed_def revoke_effect_def user_dropped_def by (metis fun_upd_same option.distinct(1))
  from Cons.IH [OF 1(2) owned_revoke [OF Cons.prems(2) 1(3)] rest] obtain w2 where
    2: "revoke_loop ?s (s3_backend env c) None u ns w1 = (Ok (), w2)"
      "ns \<noteq> [] \<longrightarrow> (\<forall>b. \<not> has_access (access (node w2)) u b)"
      "\<forall>m. removed (env_lower env) (access (node w1)) m u \<or> m \<in> set ns \<longrightarrow> removed (env_lower env) (access (node w2)) m u"
      "\<forall>v b. v \<noteq> u \<longrightarrow> has_access (access (node w2)) v b = has_access (access (node w1)) v b"
    by blast
  have "w2 = w1" if "ns = []" using 2(1) that by (simp add: io_simps)
  with 2(2) after(1) have "\<forall>b. \<not> has_access (access (node w2)) u b" by (cases "ns = []") auto
  moreover have "\<forall>m. removed (env_lower env) (access (node w)) m u \<or> m \<in> set (n # ns) \<longrightarrow> removed (env_lower env) (access (node w2)) m u"
    using 2(3) gone removed_stays [OF 1(3)] by auto
  moreover have "revoke_loop ?s (s3_backend env c) None u (n # ns) w = (Ok (), w2)"
    using 1(1) 2(1) by (simp add: io_simps plain_s3_server [OF cfg] s3_backend_def)
  ultimately show ?case using 2(4) after(2) by auto
qed

text \<open>
  C14: After any number of grants and revocations that were cut short by lost requests, lost
  replies, refusals or their deadline, the first revocation, without a deadline, that ONTAP
  serves without a failure succeeds: the account has no access to any bucket, its policies and
  groups for the listed buckets are gone, and the accesses of all other accounts are as before
  that revocation. Assumed: names that ONTAP takes and distinct derived names for the pairs of
  bucket and account at hand, which all these calls are about; ONTAP, whatever it loses or
  refuses, changes policies, users and groups only as it was asked to; at first every group of
  such a derived name lists at most the pair's account and policy, and no other group lists one
  of these policies; a single-tenant driver without bucket override and without injected errors.
\<close>

theorem revoke_retry_converges:
  assumes "unreliable_access env c name_ok good stored access" "documented_access env1 c lim name_ok good stored access"
    and "env_lower env1 = env_lower env" "pairs_ok (env_lower env) name_ok W" "plain_config cfg"
    and "good (node w)" "owned (env_lower env) W (access (node w))"
    and "\<forall>rpc \<in> set rpcs. access_call W rpc"
    and "handle_run (s3_server env order cfg (SetupS3 c None)) cx extra rpcs w = (answers, w1)"
    and "ns \<noteq> []" "set ns \<times> {u} \<subseteq> W"
  shows "\<exists>w2. DriverRevokeBucketAccess (s3_server env1 order cfg (SetupS3 c None)) None
      \<lparr>rb_AccountId = u, rb_Buckets = ns, rb_Parameters = extra\<rparr> w1 = (Ok (Some ()), w2) \<and>
    (\<forall>b. \<not> has_access (access (node w2)) u b) \<and>
    (\<forall>n \<in> set ns. removed (env_lower env) (access (node w2)) n u) \<and>
    (\<forall>v b. v \<noteq> u \<longrightarrow> has_access (access (node w2)) v b = has_access (access (node w1)) v b)"
proof -
  let ?I = "sound good stored access (stored (node w)) (owned (env_lower env) W)"
  have "keeps ?I (handle (s3_server env order cfg (SetupS3 c None)) cx extra rpc)" if "rpc \<in> set rpcs" for rpc
  proof (cases rpc)
    case (CallGrant v ms)
    with bspec [OF assms(8) that] have "set ms \<times> {v} \<subseteq> W" by simp
    with CallGrant keeps_handle_grant [OF keeps_DriverGrantBucketAccess [OF assms(1,4) grant_closed_owned [OF assms(4)]]]
    show ?thesis by blast
  next
    case (CallRevoke v ms)
    with bspec [OF assms(8) that] have "set ms \<times> {v} \<subseteq> W" by simp
    with CallRevoke keeps_handle_revoke [OF keeps_DriverRevokeBucketAccess [OF assms(1,4,5)]] show ?thesis by blast
  qed (use assms(8) that in auto)
  with keeps_run [of rpcs ?I, OF _ _ assms(9)] assms(6,7) have "?I (node w1)" by (simp add: sound_def)
  then have sound: "good (node w1)" "owned (env_lower env1) W (access (node w1))"
    using assms(3) by (simp_all add: sound_def)
  have ok: "pairs_ok (env_lower env1) name_ok W" using assms(3,4) by simp
  from revoke_retry_loop [OF assms(2) ok assms(5) sound assms(11)] assms(10) obtain w2 where
    2: "revoke_loop (s3_server env1 order cfg (SetupS3 c None)) (s3_backend env1 c) None u ns w1 = (Ok (), w2)"
      "\<forall>b. \<not> has_access (access (node w2)) u b"
      "\<forall>n \<in> set ns. removed (env_lower env1) (access (node w2)) n u"
      "\<forall>v b. v \<noteq> u \<longrightarrow> has_access (access (node w2)) v b = has_access (access (node w1)) v b"
    by blast
  have "er_RevokeBucketAccess (dc_Errors (ps_Config (s3_server env1 order cfg (SetupS3 c None)))) = None"
    using assms(5) by (simp add: plain_config_def s3_server_def zero_Config_def)
  with 2(1) assms(10) have "DriverRevokeBucketAccess (s3_server env1 order cfg (SetupS3 c None)) None
      \<lparr>rb_AccountId = u, rb_Buckets = ns, rb_Parameters = extra\<rparr> w1 = (Ok (Some ()), w2)"
    by (simp add: DriverRevokeBucketAccess_def resolve_s3 io_simps call_def)
  with 2 assms(3) show ?thesis by auto
qed

end
