(* ===== verification/OntapBuckets.thy ===== *)
theory OntapBuckets
  imports OntapRetry
begin

text \<open>
  Failures between the driver and ONTAP while buckets are created and deleted: jobs that nobody waits for
  any more may still run, or never. What such attempts leave behind never stands in the way of the retry.
\<close>

section \<open>An unreliable system\<close>

text \<open>
  \<open>W\<close> gives the buckets at hand with the sizes that are requested for them. Whatever jobs end between two
  states, a bucket at hand is as it was, or there with its size, or gone; no other bucket changes.
\<close>

definition jobs_done :: "(string \<Rightarrow> 64 word option) \<Rightarrow> (string \<Rightarrow> (string \<times> 64 word) option) \<Rightarrow>
  (string \<Rightarrow> (string \<times> 64 word) option) \<Rightarrow> bool" where
  "jobs_done W st st1 \<longleftrightarrow>
     (\<forall>n. st1 n = st n \<or> (\<exists>v sz. W n = Some sz \<and> (st1 n = None \<or> st1 n = Some (v, sz))))"

lemma jobs_done_refl [simp]: "jobs_done W st st"
  by (simp add: jobs_done_def)

lemma jobs_done_trans: "jobs_done W st st1 \<Longrightarrow> jobs_done W st1 st2 \<Longrightarrow> jobs_done W st st2"
  unfolding jobs_done_def by metis

lemma jobs_done_other: "jobs_done W st st1 \<Longrightarrow> W n = None \<Longrightarrow> st1 n = st n"
  by (auto simp: jobs_done_def)

lemma jobs_done_size:
  assumes "jobs_done W st st1" "W n = Some sz" "st n = None \<or> (\<exists>v. st n = Some (v, sz))"
  shows "st1 n = None \<or> (\<exists>v. st1 n = Some (v, sz))"
  using assms unfolding jobs_done_def by (metis option.inject)

text \<open>
  The reply to any request may be lost. A lookup that is answered lists UUIDs of buckets of that name,
  which are the ones in \<open>ids\<close>.
\<close>

definition ends_jobs where
  "ends_jobs env c good stored W rq s ok =
     (\<exists>rep d s1. env_send env (c_httpClient c) rq s = (rep, d, s1) \<and> ok rep \<and> good s1 \<and> jobs_done W (stored s) (stored s1))"

definition unreliable_buckets ::
  "'o env \<Rightarrow> client \<Rightarrow> ('o \<Rightarrow> bool) \<Rightarrow> 'o stored_view \<Rightarrow> (string \<Rightarrow> string set) \<Rightarrow> (string \<Rightarrow> 64 word option) \<Rightarrow> bool" where
  "unreliable_buckets env c good stored ids W \<longleftrightarrow>
     (\<forall>s. good s \<longrightarrow>
        (let attempt = (\<lambda>rq. ends_jobs env c good stored W rq s) in
         (\<forall>n sz. W n = Some sz \<longrightarrow>
            attempt (list_request c n)
              (\<lambda>rep. \<forall>rs. bucket_records rep = Ok rs \<longrightarrow> (\<forall>r \<in> set rs. br_Name r = n \<longrightarrow> br_UUID r \<in> ids n)) \<and>
            (\<forall>ps lock. attempt (create_request c n ps sz lock) (\<lambda>_. True)) \<and>
            (\<forall>r. br_UUID r \<in> ids n \<longrightarrow> attempt (delete_request c r) (\<lambda>_. True))) \<and>
         (\<forall>u. attempt (poll_request c u) (\<lambda>_. True)) \<and>
         good (snd (env_choose env s)) \<and> jobs_done W (stored s) (stored (snd (env_choose env s)))))"

lemma unreliable_bucketsD:
  assumes "unreliable_buckets env c good stored ids W" "good s"
  shows "W n = Some sz \<Longrightarrow> ends_jobs env c good stored W (list_request c n) s
      (\<lambda>rep. \<forall>rs. bucket_records rep = Ok rs \<longrightarrow> (\<forall>r \<in> set rs. br_Name r = n \<longrightarrow> br_UUID r \<in> ids n))"
    "W n = Some sz \<Longrightarrow> ends_jobs env c good stored W (create_request c n ps sz lock) s (\<lambda>_. True)"
    "W n = Some sz \<Longrightarrow> br_UUID r \<in> ids n \<Longrightarrow> ends_jobs env c good stored W (delete_request c r) s (\<lambda>_. True)"
    "ends_jobs env c good stored W (poll_request c u) s (\<lambda>_. True)"
    "good (snd (env_choose env s))" "jobs_done W (stored s) (stored (snd (env_choose env s)))"
  using assms by (simp_all add: unreliable_buckets_def Let_def)

section \<open>Attempts\<close>

definition settling :: "('o \<Rightarrow> bool) \<Rightarrow> 'o stored_view \<Rightarrow> (string \<Rightarrow> 64 word option) \<Rightarrow>
  (string \<Rightarrow> (string \<times> 64 word) option) \<Rightarrow> 'o \<Rightarrow> bool" where
  "settling good stored W st s \<longleftrightarrow> good s \<and> jobs_done W st (stored s)"

lemma settlingI: "settling good stored W st s \<Longrightarrow> good s1 \<Longrightarrow> jobs_done W (stored s) (stored s1) \<Longrightarrow> settling good stored W st s1"
  by (auto simp: settling_def intro: jobs_done_trans)

lemma keeps_attempt:
  assumes "\<And>s. good s \<Longrightarrow> ends_jobs env c good stored W (build_request c m p q b) s (ok s)"
  shows "keeps (settling good stored W st) (doJSON env c cx m p q b dec old)"
proof (rule keeps_doJSON)
  fix s rep d s1
  assume I: "settling good stored W st s" and send: "env_send env (c_httpClient c) (build_request c m p q b) s = (rep, d, s1)"
  then have "good s" by (simp add: settling_def)
  from assms [OF this] send show "settling good stored W st s1"
    by (auto simp: ends_jobs_def intro: settlingI [OF I])
qed

lemma keeps_select:
  assumes un: "unreliable_buckets env c good stored ids W" and I: "settling good stored W st (node w)"
    and "select_wait env cx dl start taken w = (sel, w1)"
  shows "settling good stored W st (node w1)"
proof -
  have "good (node w)" using I by (simp add: settling_def)
  from settlingI [OF I unreliable_bucketsD(5,6) [OF un this]] assms(3) show ?thesis
    by (auto simp: select_wait_def Let_def split: prod.splits)
qed

lemma keeps_waitForJob:
  assumes un: "unreliable_buckets env c good stored ids W"
  shows "keeps (settling good stored W st) (waitForJob env c cx u)"
proof (rule keepsI)
  fix w r w1
  assume I: "settling good stored W st (node w)" and run: "waitForJob env c cx u w = (r, w1)"
  have poll: "keeps (settling good stored W st) (poll_job env c dl u)" for dl
    unfolding poll_job_def by (rule keeps_attempt [OF unreliable_bucketsD(4) [OF un, unfolded poll_request_def]])
  have "settling good stored W st (node w) \<longrightarrow>
      settling good stored W st (node (snd (wait_loop env c cx dl start taken u w)))" for dl start taken
    by (rule wait_loop_rounds [where P = "\<lambda>taken w res. settling good stored W st (node w) \<longrightarrow> settling good stored W st (node (snd res))"])
      (auto dest: keepsD [OF poll] keeps_select [OF un])
  with I run show "settling good stored W st (node w1)" by (metis snd_conv waitForJob_def)
qed

lemma keeps_run_job:
  assumes un: "unreliable_buckets env c good stored ids W" and "keeps (settling good stored W st) start"
  shows "keeps (settling good stored W st) (run_job env c cx start m1 m2 failure)"
  unfolding run_job_def by (intro keeps_intros assms(2) keeps_waitForJob [OF un])

lemma keeps_create:
  assumes un: "unreliable_buckets env c good stored ids W"
    and W: "\<forall>sz. parseBucketSize (trim_space (param_get ps sizeKey)) = Ok sz \<longrightarrow> W n = Some sz"
  shows "keeps (settling good stored W st) (CreateBucket env c cx n ps)"
proof -
  have start: "keeps (settling good stored W st)
      (createBucketAsync env c cx (create_body n sz (trim_space (param_get ps commentKey)) lock))" if "W n = Some sz" for sz lock
    unfolding createBucketAsync_def
    by (intro keeps_intros keeps_attempt [OF unreliable_bucketsD(2) [OF un _ that, unfolded create_request_def]])
  have panic: "keeps I (io_panic p)" for I :: "'a \<Rightarrow> bool" and p
    by (simp add: keeps_def io_panic_def)
  show ?thesis
    unfolding CreateBucket_cases Let_def using W
    by (auto intro!: keeps_intros keeps_run_job [OF un] start panic split: outcome.split option.split)
qed

lemma keeps_listBuckets:
  assumes un: "unreliable_buckets env c good stored ids W" and W: "W n = Some sz"
    and I: "settling good stored W st (node w)" and run: "listBucketsByName env c cx n w = (r, w1)"
  shows "settling good stored W st (node w1)" "r = Ok rs \<Longrightarrow> \<forall>x \<in> set rs. br_Name x = n \<longrightarrow> br_UUID x \<in> ids n"
proof -
  have "good (node w)" using I by (simp add: settling_def)
  note listed = unreliable_bucketsD(1) [OF un this W, unfolded ends_jobs_def]
  obtain rep where http: "http_do env (c_httpClient c) cx (list_request c n) w = (rep, w1)" and r: "r = bucket_records rep"
    using run by (auto simp: listBucketsByName_def list_request_def doJSON_def split: prod.splits)
  from http_do_sent [OF http] listed I show "settling good stored W st (node w1)" by (auto intro: settlingI)
  from http_do_sent [OF http] listed r show "r = Ok rs \<Longrightarrow> \<forall>x \<in> set rs. br_Name x = n \<longrightarrow> br_UUID x \<in> ids n"
    by (auto simp: read_reply_def)
qed

lemma keeps_exists:
  assumes un: "unreliable_buckets env c good stored ids W" and W: "W n = Some sz"
  shows "keeps (settling good stored W st) (BucketExists env c cx n)"
  unfolding BucketExists_def
  by (intro keeps_intros keepsI) (rule keeps_listBuckets(1) [OF un W])

lemma keeps_delete:
  assumes un: "unreliable_buckets env c good stored ids W" and W: "W n = Some sz"
  shows "keeps (settling good stored W st) (DeleteBucket env c cx n)"
proof (rule keepsI)
  fix w r w1
  assume I: "settling good stored W st (node w)" and run: "DeleteBucket env c cx n w = (r, w1)"
  have job: "keeps (settling good stored W st) (run_job env c cx (deleteBucketAsync env c cx (br_UUID rec)) m1 m2 failure)"
    if "br_UUID rec \<in> ids n" for rec :: ontapBucketRecord and m1 m2 failure
    unfolding deleteBucketAsync_def
    by (intro keeps_run_job [OF un] keeps_intros keeps_attempt [OF unreliable_bucketsD(3) [OF un _ W that, unfolded delete_request_def]])
  obtain x w0 where list: "listBucketsByName env c cx n w = (x, w0)" by fastforce
  note w0 = keeps_listBuckets [OF un W I list]
  show "settling good stored W st (node w1)"
  proof (cases x)
    case (Ok rs)
    show ?thesis
    proof (cases "find (\<lambda>r. br_Name r = n) rs")
      case None
      with run list Ok w0(1) show ?thesis by (simp add: DeleteBucket_run_job bucketByName_def io_simps)
    next
      case (Some rec)
      then have "rec \<in> set rs" "br_Name rec = n" by (auto simp: find_Some_iff)
      with w0(2) [OF Ok] have "br_UUID rec \<in> ids n" by blast
      from keepsD [OF job [OF this] w0(1)] run list Ok Some show ?thesis
        by (simp add: DeleteBucket_run_job bucketByName_def io_bind_def io_ok_def)
    qed
  qed (use run list w0(1) in \<open>auto simp: DeleteBucket_run_job bucketByName_def io_bind_def io_simps\<close>)
qed

text \<open>Attempts to create or delete a bucket at hand; a creation asks for the size that is meant.\<close>

fun bucket_attempt :: "(string \<Rightarrow> 64 word option) \<Rightarrow> cosi_call \<Rightarrow> bool" where
  "bucket_attempt W (CallCreate n ps) \<longleftrightarrow> W n \<noteq> None \<and>
     (\<forall>sz. parseBucketSize (trim_space (param_get ps sizeKey)) = Ok sz \<longrightarrow> W n = Some sz)"
| "bucket_attempt W (CallDelete n) \<longleftrightarrow> W n \<noteq> None"
| "bucket_attempt W _ \<longleftrightarrow> False"

lemma keeps_bucket_attempt:
  assumes un: "unreliable_buckets env c good stored ids W" and cfg: "plain_config cfg" and "bucket_attempt W rpc"
  shows "keeps (settling good stored W st) (handle (s3_server env order cfg (SetupS3 c None)) cx extra rpc)"
proof -
  let ?I = "settling good stored W st" and ?s = "s3_server env order cfg (SetupS3 c None)"
  show ?thesis
  proof (cases rpc)
    case (CallCreate n ps)
    with assms(3) obtain sz where W: "W n = Some sz" by auto
    have "keeps ?I (create_or_reuse (s3_backend env c) cx n True ps)"
      using assms(3) CallCreate unfolding create_or_reuse_def
      by (auto simp: s3_backend_def intro!: keeps_intros keeps_exists [OF un W] keeps_create [OF un])
    then have "keeps ?I (DriverCreateBucket ?s cx \<lparr>cb_Name = n, cb_Parameters = ps\<rparr>)"
      unfolding DriverCreateBucket_def resolve_s3 by (simp add: plain_s3_server [OF cfg] call_def)
    with CallCreate show ?thesis by (auto simp: keeps_def split: prod.splits)
  next
    case (CallDelete n)
    with assms(3) obtain sz where W: "W n = Some sz" by auto
    have "keeps ?I (DriverDeleteBucket ?s cx \<lparr>db_BucketId = n, db_Parameters = extra\<rparr>)"
      unfolding DriverDeleteBucket_def resolve_s3
      by (simp add: plain_s3_server [OF cfg] call_def Let_def s3_backend_def keeps_intros keeps_delete [OF un W])
    with CallDelete show ?thesis by (auto simp: keeps_def split: prod.splits)
  qed (use assms(3) in simp_all)
qed

section \<open>The retry\<close>

text \<open>
  C12: A bucket that is absent at first is created after any number of attempts to create or
  delete buckets that were cut short at any request, by lost replies or by their deadline. All
  attempts to create a bucket ask for one fixed size per bucket; when the jobs that they have
  left running have ended (each of them carried out or not) and ONTAP behaves as documented with
  quota left, a creation that asks for the fixed size of its bucket, with a valid or absent lock
  flag and without a deadline, succeeds: the bucket is there with that size, and the sizes of
  all buckets that no attempt was about are as at first. Assumed: ONTAP, whatever it loses or
  refuses, changes no bucket otherwise than by the requested creations and deletions; a
  single-tenant driver without bucket override and without injected errors.
\<close>

theorem create_retry_converges:
  assumes "unreliable_buckets env c good stored ids W" "documented_ontap env1 c lim name_ok settled stored" "plain_config cfg"
    and "good (node w)" "\<forall>rpc \<in> set rpcs. bucket_attempt W rpc"
    and "handle_run (s3_server env order cfg (SetupS3 c None)) cx extra rpcs w = (answers, w1)"
    and "settled (node w2)" "jobs_done W (stored (node w1)) (stored (node w2))"
    and "name_ok n" "W n = Some sz" "stored (node w) n = None"
    and "asked_size ps = Some (Ok sz)" "object_locking ps \<noteq> None" "\<not> lim_quota lim"
  shows "\<exists>resp w3. DriverCreateBucket (s3_server env1 order cfg (SetupS3 c None)) None \<lparr>cb_Name = n, cb_Parameters = ps\<rparr> w2 =
      (Ok (Some resp), w3) \<and> cr_BucketId resp = n \<and> settled (node w3) \<and> sizes stored (node w3) n = Some sz \<and>
    (\<forall>m. W m = None \<longrightarrow> sizes stored (node w3) m = sizes stored (node w) m)"
proof -
  have "\<forall>rpc \<in> set rpcs. keeps (settling good stored W (stored (node w)))
      (handle (s3_server env order cfg (SetupS3 c None)) cx extra rpc)"
    using keeps_bucket_attempt [OF assms(1,3)] assms(5) by blast
  from keeps_run [OF this _ assms(6)] assms(4) have "jobs_done W (stored (node w)) (stored (node w1))"
    by (simp add: settling_def)
  from jobs_done_trans [OF this assms(8)] have all: "jobs_done W (stored (node w)) (stored (node w2))" .
  from jobs_done_size [OF this assms(10)] assms(11) have before: "sizes stored (node w2) n \<in> {None, Some sz}"
    by (auto simp: sizes_def)
  obtain r w3 where run: "DriverCreateBucket (s3_server env1 order cfg (SetupS3 c None)) None
      \<lparr>cb_Name = n, cb_Parameters = ps\<rparr> w2 = (r, w3)" by fastforce
  then have handled: "handle (s3_server env1 order cfg (SetupS3 c None)) None [] (CallCreate n ps) w2 =
      (answer (\<lambda>resp. Created (cr_BucketId resp)) r, w3)" by simp
  have "bucket_call name_ok (sizes stored (node w2)) (CallCreate n ps)" using before assms(9,12) by auto
  from ontap_step [OF assms(2,7) this assms(3) handled] have after: "settled (node w3)"
    "size_step lim (CallCreate n ps) (sizes stored (node w2)) =
      (answer (\<lambda>resp. Created (cr_BucketId resp)) r, sizes stored (node w3))" by simp_all
  with before assms(12-14) have created: "answer (\<lambda>resp. Created (cr_BucketId resp)) r = Created n"
    "sizes stored (node w3) = (sizes stored (node w2))(n \<mapsto> sz)"
    by (auto simp: fun_upd_idem)
  from created(1) obtain resp where "r = Ok (Some resp)" "cr_BucketId resp = n"
    by (auto simp: answer_def split: outcome.splits option.splits)
  moreover have "sizes stored (node w3) m = sizes stored (node w) m" if "W m = None" for m
    using jobs_done_other [OF all that] created(2) that assms(10) by (auto simp: sizes_def)
  ultimately show ?thesis using run after(1) created(2) by simp
qed

end
