(* ===== verification/OntapSim.thy ===== *)
theory OntapSim
  imports OntapBuckets
begin

text \<open>
  A small ONTAP system: it reads the path, the query and the body of each request, keeps buckets with
  their sizes, policies, users and groups, uses the name of an object as its UUID, and runs every job at
  once. It refuses what its limits say, and behaves as documented for names of letters, digits and dashes.
\<close>

section \<open>The simulator\<close>

text \<open>
  Policies by name with their bucket, users with the number of their keys, the number of the next keys, and
  groups by name with their user and policy.
\<close>

record sim =
  sm_buckets :: "(string \<times> 64 word) list"
  sm_policies :: "(string \<times> string) list"
  sm_users :: "(string \<times> nat) list"
  sm_next :: nat
  sm_groups :: "(string \<times> (string \<times> string)) list"

definition empty_sim :: sim where
  "empty_sim = \<lparr>sm_buckets = [], sm_policies = [], sm_users = [], sm_next = 0, sm_groups = []\<rparr>"

definition sim_name :: "string \<Rightarrow> bool" where
  "sim_name n = (n \<noteq> [] \<and> list_all (\<lambda>c. alnum c \<or> c = CHR ''-'') n)"

definition drop_key :: "string \<Rightarrow> (string \<times> 'a) list \<Rightarrow> (string \<times> 'a) list" where
  "drop_key k xs = filter (\<lambda>(m, _). m \<noteq> k) xs"

subsection \<open>Reading requests\<close>

definition request_json :: "request \<Rightarrow> json" where
  "request_json rq =
     (case rq_body rq of
        None \<Rightarrow> JNull
      | Some raw \<Rightarrow> (case json_parse raw of Some j \<Rightarrow> j | None \<Rightarrow> JNull))"

definition json_member :: "string \<Rightarrow> json \<Rightarrow> json" where
  "json_member k j = (case j of JObj kvs \<Rightarrow> (case map_of kvs k of Some v \<Rightarrow> v | None \<Rightarrow> JNull) | _ \<Rightarrow> JNull)"

definition json_first :: "json \<Rightarrow> json" where
  "json_first j = (case j of JArr (x # _) \<Rightarrow> x | _ \<Rightarrow> JNull)"

definition json_text :: "json \<Rightarrow> string" where
  "json_text j = (case j of JStr s \<Rightarrow> s | _ \<Rightarrow> [])"

definition json_int :: "json \<Rightarrow> int" where
  "json_int j = (case j of JNum s \<Rightarrow> (case parse_int s of Some n \<Rightarrow> n | None \<Rightarrow> 0) | _ \<Rightarrow> 0)"

definition name_in :: "json \<Rightarrow> string" where
  "name_in j = json_text (json_member ''name'' j)"

definition bucket_in :: "json \<Rightarrow> string" where
  "bucket_in j = json_text (json_first (json_member ''resources'' (json_first (json_member ''statements'' j))))"

definition query_value :: "request \<Rightarrow> string \<Rightarrow> string" where
  "query_value rq k =
     (case map_of (parse_query (u_RawQuery (rq_url rq))) k of Some (v # _) \<Rightarrow> v | _ \<Rightarrow> [])"

subsection \<open>Replies\<close>

definition records_json :: "json list \<Rightarrow> json" where
  "records_json js = JObj [(''records'', JArr js)]"

definition bucket_json :: "string \<Rightarrow> 64 word \<Rightarrow> json" where
  "bucket_json n sz = JObj [(''uuid'', JStr n), (''name'', JStr n), (''size'', JNum (format_int (sint sz)))]"

definition group_json :: "string \<Rightarrow> json" where
  "group_json g = JObj [(''id'', JStr g), (''name'', JStr g)]"

definition keys_of :: "nat \<Rightarrow> S3Credentials" where
  "keys_of k = \<lparr>AccessKeyID = ''AK'', AccessSecretKey = replicate (Suc k) CHR ''k''\<rparr>"

definition keys_json :: "nat \<Rightarrow> json" where
  "keys_json k = records_json
     [JObj [(''access_key'', JStr (AccessKeyID (keys_of k))), (''secret_key'', JStr (AccessSecretKey (keys_of k)))]]"

definition job_json :: "string \<Rightarrow> json" where
  "job_json u = JObj [(''job'', JObj [(''uuid'', JStr u)])]"

definition state_json :: "string \<Rightarrow> json" where
  "state_json st = JObj [(''state'', JStr st)]"

text \<open>The jobs are \<open>j\<close>, which ends with success, and \<open>f\<close>, which fails.\<close>

definition job_end :: "string \<Rightarrow> string" where
  "job_end u = (if u = ''f'' then ''failure'' else ''success'')"

definition quota_text :: string where
  "quota_text = ''object store quota exceeded''"

definition found :: "'a option \<Rightarrow> ('a \<Rightarrow> json) \<Rightarrow> reply" where
  "found x f = Reply 200 (marshal (records_json (case x of None \<Rightarrow> [] | Some v \<Rightarrow> [f v])))"

subsection \<open>The resources\<close>

definition sim_buckets :: "limits \<Rightarrow> request \<Rightarrow> sim \<Rightarrow> reply \<times> sim" where
  "sim_buckets lim rq s =
     (if rq_method rq = ''GET'' then
        (found (map_of (sm_buckets s) (query_value rq ''name'')) (bucket_json (query_value rq ''name'')), s)
      else if lim_quota lim then (Reply 403 quota_text, s)
      else
        (Reply 202 (marshal (job_json ''j'')),
         s\<lparr>sm_buckets := (name_in (request_json rq), word_of_int (json_int (json_member ''size'' (request_json rq)))) #
            sm_buckets s\<rparr>))"

definition sim_policies :: "string list \<Rightarrow> request \<Rightarrow> sim \<Rightarrow> reply \<times> sim" where
  "sim_policies item rq s =
     (let j = request_json rq; p = (if item = [] then name_in j else hd item);
          stored = s\<lparr>sm_policies := (p, bucket_in j) # sm_policies s\<rparr>
      in if item = [] then
           (if map_of (sm_policies s) p = None then (Reply 201 [], stored) else (Reply 409 [], s))
         else if map_of (sm_policies s) p = None then (Reply 404 [], s)
         else if rq_method rq = ''PATCH'' then (Reply 200 [], stored)
         else if list_ex (\<lambda>(g, _). map_option snd (map_of (sm_groups s) g) = Some p) (sm_groups s) then (Reply 409 [], s)
         else (Reply 200 [], s\<lparr>sm_policies := drop_key p (sm_policies s)\<rparr>))"

definition sim_users :: "string list \<Rightarrow> request \<Rightarrow> sim \<Rightarrow> reply \<times> sim" where
  "sim_users item rq s =
     (let u = (if item = [] then name_in (request_json rq) else hd item); known = map_of (sm_users s) u \<noteq> None;
          keyed = s\<lparr>sm_users := (u, sm_next s) # sm_users s, sm_next := Suc (sm_next s)\<rparr>
      in if item = [] then
           (if known then (Reply 409 [], s) else (Reply 201 (marshal (keys_json (sm_next s))), keyed))
         else if \<not> known then (Reply 404 [], s)
         else if rq_method rq = ''PATCH'' then (Reply 200 (marshal (keys_json (sm_next s))), keyed)
         else (Reply 200 [], s\<lparr>sm_users := drop_key u (sm_users s)\<rparr>))"

definition sim_groups :: "string list \<Rightarrow> request \<Rightarrow> sim \<Rightarrow> reply \<times> sim" where
  "sim_groups item rq s =
     (let j = request_json rq in
      if rq_method rq = ''GET'' then
        (found (map_of (sm_groups s) (query_value rq ''name'')) (\<lambda>_. group_json (query_value rq ''name'')), s)
      else if rq_method rq = ''POST'' then
        (let g = name_in j; u = name_in (json_first (json_member ''users'' j));
             p = name_in (json_first (json_member ''policies'' j))
         in if map_of (sm_groups s) g \<noteq> None then (Reply 409 [], s)
            else if map_of (sm_users s) u = None \<or> map_of (sm_policies s) p = None then (Reply 404 [], s)
            else (Reply 201 [], s\<lparr>sm_groups := (g, u, p) # sm_groups s\<rparr>))
      else (Reply 200 [], s\<lparr>sm_groups := drop_key (hd item) (sm_groups s)\<rparr>))"

definition sim_serve :: "limits \<Rightarrow> request \<Rightarrow> sim \<Rightarrow> reply \<times> sim" where
  "sim_serve lim rq s =
     (let segs = split_on CHR ''/'' (u_Path (rq_url rq)) in
      if segs ! 2 = ''cluster'' then (Reply 200 (marshal (state_json (job_end (segs ! 4)))), s)
      else if segs ! 4 = ''buckets'' then
        (if lim_full lim (segs ! 6) then (Reply 202 (marshal (job_json ''f'')), s)
         else (Reply 202 (marshal (job_json ''j'')), s\<lparr>sm_buckets := drop_key (segs ! 6) (sm_buckets s)\<rparr>))
      else if segs ! 6 = ''buckets'' then sim_buckets lim rq s
      else if segs ! 6 = ''policies'' then sim_policies (drop 7 segs) rq s
      else if segs ! 6 = ''users'' then sim_users (drop 7 segs) rq s
      else sim_groups (drop 7 segs) rq s)"

definition sim_send :: "limits \<Rightarrow> http_client \<Rightarrow> request \<Rightarrow> sim \<Rightarrow> reply \<times> nat \<times> sim" where
  "sim_send lim hc rq s = (case sim_serve lim rq s of (rep, s1) \<Rightarrow> (rep, 10, s1))"

definition sim_env :: "limits \<Rightarrow> sim env" where
  "sim_env lim =
     \<lparr>env_send = sim_send lim, env_choose = (\<lambda>s. (0, s)), env_lower = (\<lambda>s. s),
      env_read_file = (\<lambda>_. Inl (ErrText ''no such file'')), env_system_pool = None,
      env_pem_ok = (\<lambda>_. True), env_secret = (\<lambda>_ _ s. (Inl (ErrText ''not found''), 5, s))\<rparr>"

text \<open>The simulator's state as the driver's counterpart.\<close>

definition sim_stored :: "sim stored_view" where
  "sim_stored s n = map_option (\<lambda>sz. (n, sz)) (map_of (sm_buckets s) n)"

definition sim_access :: "sim \<Rightarrow> ontap_access" where
  "sim_access s =
     \<lparr>oa_policies = map_of (sm_policies s), oa_users = (\<lambda>u. map_option keys_of (map_of (sm_users s) u)),
      oa_groups = (\<lambda>g. map_option (\<lambda>(u, p). \<lparr>og_id = g, og_users = {u}, og_policies = {p}\<rparr>) (map_of (sm_groups s) g))\<rparr>"

section \<open>Names\<close>

lemma sim_char:
  assumes "alnum c \<or> c = CHR ''-''"
  shows "plain_byte c" "is_ascii c" "c \<noteq> CHR ''&''" "c \<noteq> CHR ''=''" "c \<noteq> CHR '';''" "c \<noteq> CHR ''%''" "c \<noteq> CHR ''+''"
    "c \<noteq> CHR ''/''" "c \<noteq> CHR ''.''" "\<not> should_escape EncPathSegment c" "\<not> should_escape EncQueryComponent c"
  using assms
  by (auto simp: alnum_def is_alpha_def is_digit_def plain_byte_def is_ascii_def space1_def byte_def should_escape_def)

lemma sim_name_facts:
  assumes "sim_name n"
  shows "trim_space n = n" "path_escape n = n" "query_escape n = n" "unescape EncQueryComponent n = Some n"
    "utf8_fix n = n" "CHR ''&'' \<notin> set n" "CHR ''='' \<notin> set n" "CHR '';'' \<notin> set n" "CHR ''/'' \<notin> set n" "plain_segment n" "plain_name n"
proof -
  have chars: "list_all (\<lambda>c. alnum c \<or> c = CHR ''-'') n" and ne: "n \<noteq> []"
    using assms by (simp_all add: sim_name_def)
  note all = list.pred_mono_strong [OF chars]
  show trim: "trim_space n = n" by (rule trim_space_plain, rule all, rule sim_char(1))
  have notin: "c \<noteq> CHR ''.''" "c \<noteq> CHR ''&''" "c \<noteq> CHR ''=''" "c \<noteq> CHR '';''" "c \<noteq> CHR ''/''" if "c \<in> set n" for c
    using chars that sim_char [of c] by (simp_all add: list_all_iff)
  show seg: "plain_segment n"
    using ne notin(1) notin(5) by (cases n) (auto simp: plain_segment_def)
  with trim show "plain_name n" by (simp add: plain_name_def)
  show "path_escape n = n" by (rule escape_id, rule all, rule sim_char(10))
  show "query_escape n = n" by (rule escape_id, rule all, rule sim_char(11))
  show "unescape EncQueryComponent n = Some n"
    using chars by (induction n) (auto simp: sim_char)
  show "utf8_fix n = n" by (rule utf8_fix_ascii, rule all, rule sim_char(2))
  show "CHR ''&'' \<notin> set n" by (rule notI, drule notin(2), simp)
  show "CHR ''='' \<notin> set n" by (rule notI, drule notin(3), simp)
  show "CHR '';'' \<notin> set n" by (rule notI, drule notin(4), simp)
  show "CHR ''/'' \<notin> set n" by (rule notI, drule notin(5), simp)
qed

section \<open>The requests as the simulator reads them\<close>

lemma svm_path: "path_escape (trim_space ''svm-1'') = ''svm-1''" "plain_name ''svm-1''" "c_svmUUID sample_client = ''svm-1''"
  by (code_simp, code_simp, simp add: sample_client_def)

lemma sim_path_parts: "list_all sim_name ps \<Longrightarrow> path_parts ps = ps \<and> list_all plain_name ps"
  by (induction ps) (simp_all add: sim_name_facts)

lemma split_path:
  assumes "list_all sim_name xs" "xs \<noteq> []"
  shows "split_on CHR ''/'' (CHR ''/'' # path_join xs) = [] # xs"
proof -
  have slash: "\<forall>y \<in> set xs. CHR ''/'' \<notin> set y" and "list_all plain_segment xs"
    using assms(1) sim_name_facts(9,10) by (auto simp: list_all_iff)
  with path_join_plain [OF assms(2) this(2,1)] have "path_join xs = join ''/'' xs" by simp
  then have "CHR ''/'' # path_join xs = join ''/'' ([] # xs)" using assms(2) by (cases xs) simp_all
  then show ?thesis using slash by (simp only:) (rule split_on_join, simp_all)
qed

lemma literal_names:
  "sim_name ''api''" "sim_name ''protocols''" "sim_name ''s3''" "sim_name ''services''" "sim_name ''buckets''"
  "sim_name ''svm-1''" "sim_name ''policies''" "sim_name ''users''" "sim_name ''groups''" "sim_name ''cluster''"
  "sim_name ''jobs''"
  by code_simp+

lemma service_segments:
  assumes "list_all sim_name ps"
  shows "split_on CHR ''/'' (servicesPath sample_client ps) = [[], ''api'', ''protocols'', ''s3'', ''services'', ''svm-1''] @ ps"
proof -
  let ?xs = "[''api'', ''protocols'', ''s3'', ''services'', ''svm-1''] @ ps"
  have ok: "list_all sim_name ?xs" using assms by (simp add: literal_names)
  have "servicesPath sample_client ps = CHR ''/'' # path_join ?xs"
    using sim_path_parts [OF ok] by (simp add: servicesPath_def svm_path)
  with split_path [OF ok] show ?thesis by simp
qed

lemma bucket_segments:
  assumes "sim_name n"
  shows "split_on CHR ''/'' (bucketsPath sample_client [n]) = [[], ''api'', ''protocols'', ''s3'', ''buckets'', ''svm-1'', n]"
proof -
  let ?xs = "[''api'', ''protocols'', ''s3'', ''buckets'', ''svm-1'', n]"
  have ok: "list_all sim_name ?xs" using assms by (simp add: literal_names)
  have "bucketsPath sample_client [n] = CHR ''/'' # path_join ?xs"
    using sim_path_parts [OF ok] by (simp add: bucketsPath_def svm_path)
  with split_path [OF ok] show ?thesis by simp
qed

lemma job_segments:
  "split_on CHR ''/'' (jobsPath ''j'') = [[], ''api'', ''cluster'', ''jobs'', ''j'']"
  "split_on CHR ''/'' (jobsPath ''f'') = [[], ''api'', ''cluster'', ''jobs'', ''f'']"
  by code_simp+

lemma request_line:
  "rq_method (build_request c m p q b) = m" "u_Path (rq_url (build_request c m p q b)) = p"
  "rq_body (build_request c m p q b) = map_option marshal b"
  by (simp_all add: build_request_def request_url_def)

lemma sample_query:
  assumes "sim_name n"
  shows "query_value (build_request sample_client m p [(''name'', n), (''return_records'', ''true'')] b) ''name'' = n"
proof -
  note f = sim_name_facts [OF assms]
  let ?rq = "build_request sample_client m p [(''name'', n), (''return_records'', ''true'')] b"
  have lits: "query_escape ''name'' = ''name''" "query_escape ''return_records'' = ''return_records''"
    "query_escape ''true'' = ''true''" "''name'' \<le> (''return_records'' :: string)"
    by code_simp+
  have raw: "u_RawQuery (rq_url ?rq) = (''name='' @ n) @ CHR ''&'' # ''return_records=true''"
    by (simp add: build_request_def request_url_def sample_client_def values_set_def
        values_encode_def lits f Let_def)
  have "CHR ''&'' \<notin> set (''name='' @ n)" using f(6) by simp
  then have split: "split_on CHR ''&'' ((''name='' @ n) @ CHR ''&'' # ''return_records=true'') = [''name='' @ n, ''return_records=true'']"
    using split_on_no_sep [of "CHR ''&''" "''return_records=true''"]
    by (subst split_on_append) simp_all
  have cut_name: "cut CHR ''='' (''name='' @ n) = (''name'', n, True)" by simp
  have unesc: "unescape EncQueryComponent ''name'' = Some ''name''" "unescape EncQueryComponent ''return_records'' = Some ''return_records''"
    "unescape EncQueryComponent ''true'' = Some ''true''"
    by code_simp+
  have one: "query_pair [] (''name='' @ n) = [(''name'', [n])]"
    using f(4,8) unesc cut_name by (simp add: query_pair_def values_add_def)
  have two: "query_pair [(''name'', [n])] ''return_records=true'' = [(''name'', [n]), (''return_records'', [''true''])]"
    using unesc by (simp add: query_pair_def values_add_def)
  have "parse_query (u_RawQuery (rq_url ?rq)) = [(''name'', [n]), (''return_records'', [''true''])]"
    unfolding raw parse_query_def split using one two by simp
  then show ?thesis by (simp add: query_value_def)
qed

text \<open>What the simulator finds in the bodies.\<close>

lemmas json_simps = request_json_def json_member_def json_first_def json_text_def json_int_def name_in_def bucket_in_def
  text_member_def request_line sim_name_facts(5)

lemma create_read:
  assumes "sim_name n"
  shows "name_in (request_json (create_request sample_client n ps sz lock)) = n"
    "word_of_int (json_int (json_member ''size'' (request_json (create_request sample_client n ps sz lock)))) = sz"
proof -
  have "int64_range (sint sz)"
    using sint_lt [of sz] sint_ge [of sz] by (simp add: int64_range_def)
  with assms show "name_in (request_json (create_request sample_client n ps sz lock)) = n"
    "word_of_int (json_int (json_member ''size'' (request_json (create_request sample_client n ps sz lock)))) = sz"
    by (auto simp: create_request_def create_body_parse json_simps parse_int_format_int)
qed

lemma policy_read:
  assumes "sim_name p" "sim_name b"
  shows "name_in (request_json (policy_post c p b)) = p" "bucket_in (request_json (policy_post c p b)) = b"
    "bucket_in (request_json (policy_patch c p b)) = b"
  using assms by (simp_all add: policy_post_def policy_patch_def policy_parse read_policy_def json_simps)

lemma user_read: "sim_name u \<Longrightarrow> name_in (request_json (user_post c u)) = u"
  by (simp add: user_post_def user_parse json_simps)

lemma group_read:
  assumes "sim_name g" "sim_name u" "sim_name p"
  shows "name_in (request_json (group_post c g u p)) = g"
    "name_in (json_first (json_member ''users'' (request_json (group_post c g u p)))) = u"
    "name_in (json_first (json_member ''policies'' (request_json (group_post c g u p)))) = p"
  using assms by (simp_all add: group_post_def group_parse json_simps)

section \<open>The replies as the driver reads them\<close>

lemma reply_ok:
  assumes "json_ok j" "json_depth j \<le> 9" "dec (json_fix j) old = (True, r)" "200 \<le> code" "code < 300"
  shows "read_reply (Some dec) old (Reply code (marshal j)) = Ok r"
proof -
  have "json_depth j \<le> max_depth" using assms(2) by (simp add: max_depth_def)
  from json_parse_marshal [OF assms(1) this] have parse: "json_parse (marshal j) = Some (json_fix j)" .
  then have "marshal j \<noteq> []" by (auto simp: json_parse_def)
  with parse assms(3-5) show ?thesis by (simp add: read_reply_def unmarshal_def)
qed

lemma job_reply:
  "read_reply (Some dec_job_uuid) [] (Reply 202 (marshal (job_json ''j''))) = Ok ''j''"
  "read_reply (Some dec_job_uuid) [] (Reply 202 (marshal (job_json ''f''))) = Ok ''f''"
  by code_simp+

lemma state_reply:
  "status_reply (Reply 200 (marshal (state_json ''success''))) = Ok (zero_job_status\<lparr>js_State := ''success''\<rparr>)"
  "status_reply (Reply 200 (marshal (state_json ''failure''))) = Ok (zero_job_status\<lparr>js_State := ''failure''\<rparr>)"
  by code_simp+

lemma quota_reply_read: "isQuotaExhaustedMessage (he_message (api_error 403 quota_text))"
  by code_simp

lemma field_names:
  "fold_name ''records'' = ''records''" "fold_name ''uuid'' = ''uuid''" "fold_name ''name'' = ''name''"
  "fold_name ''size'' = ''size''" "fold_name ''id'' = ''id''"
  "fold_name ''access_key'' = ''access_key''" "fold_name ''secret_key'' = ''secret_key''"
  "utf8_fix ''access_key'' = ''access_key''" "utf8_fix ''secret_key'' = ''secret_key''" "utf8_fix ''AK'' = ''AK''"
  "utf8_fix ''records'' = ''records''" "utf8_fix ''uuid'' = ''uuid''" "utf8_fix ''id'' = ''id''"
  by code_simp+

lemmas decode_simps = dec_struct_def dec_field_def dec_string_def dec_int64_def dec_records_def dec_slice_def field_names
  fixed_texts records_json_def

lemma records_reply:
  assumes "json_ok j" "json_depth j \<le> 7" "dec (json_fix j) zero = (True, r)" "200 \<le> code" "code < 300"
  shows "read_reply (Some (dec_records dec zero)) [] (Reply code (marshal (records_json [j]))) = Ok [r]"
  by (rule reply_ok; use assms in \<open>simp add: decode_simps del: fold_name.simps\<close>)

lemma no_records_reply: "read_reply (Some (dec_records dec zero)) [] (Reply 200 (marshal (records_json []))) = Ok []"
  by (rule reply_ok; simp add: decode_simps del: fold_name.simps)

lemma keys_reply: "keys_in (Reply 200 (marshal (keys_json k))) (keys_of k)" "keys_in (Reply 201 (marshal (keys_json k))) (keys_of k)"
proof -
  let ?j = "JObj [(''access_key'', JStr (AccessKeyID (keys_of k))), (''secret_key'', JStr (AccessSecretKey (keys_of k)))]"
  have "is_ascii CHR ''k''" by code_simp
  then have "utf8_fix (replicate (Suc k) CHR ''k'') = replicate (Suc k) CHR ''k''"
    by (intro utf8_fix_ascii) (simp add: list_all_iff)
  then have dec: "dec_user_record (json_fix ?j) zero_user_record =
      (True, \<lparr>ur_Name = [], ur_AccessKey = AccessKeyID (keys_of k), ur_SecretKey = AccessSecretKey (keys_of k)\<rparr>)"
    by (simp add: keys_of_def dec_user_record_def decode_simps zero_user_record_def del: fold_name.simps)
  have "user_records (Reply code (marshal (keys_json k))) =
      Ok [\<lparr>ur_Name = [], ur_AccessKey = AccessKeyID (keys_of k), ur_SecretKey = AccessSecretKey (keys_of k)\<rparr>]"
    if "200 \<le> code" "code < 300" for code
    unfolding keys_json_def by (rule records_reply [OF _ _ _ that], simp_all only: dec) simp_all
  then show "keys_in (Reply 200 (marshal (keys_json k))) (keys_of k)" "keys_in (Reply 201 (marshal (keys_json k))) (keys_of k)"
    by (simp_all add: keys_in_def)
qed

lemma bucket_reply:
  assumes "sim_name n"
  shows "bucket_records (found x (bucket_json n)) =
    Ok (case x of None \<Rightarrow> [] | Some sz \<Rightarrow> [\<lparr>br_UUID = n, br_Name = n, br_Size = sz\<rparr>])"
proof -
  have dec: "dec_bucket_record (json_fix (bucket_json n sz)) zero_bucket_record = (True, \<lparr>br_UUID = n, br_Name = n, br_Size = sz\<rparr>)" for sz
  proof -
    have "int64_range (sint sz)" using sint_lt [of sz] sint_ge [of sz] by (simp add: int64_range_def)
    then show ?thesis
      using sim_name_facts(5) [OF assms]
      by (simp add: bucket_json_def dec_bucket_record_def decode_simps parse_int_format_int zero_bucket_record_def
          del: fold_name.simps)
  qed
  have "bucket_records (Reply 200 (marshal (records_json [bucket_json n sz]))) = Ok [\<lparr>br_UUID = n, br_Name = n, br_Size = sz\<rparr>]" for sz
    by (rule records_reply, simp_all only: dec) (simp_all add: bucket_json_def json_number_format_int)
  then show ?thesis by (simp add: found_def no_records_reply split: option.split)
qed

lemma group_reply:
  assumes "sim_name g"
  shows "group_records (found x (\<lambda>_. group_json g)) = Ok (case x of None \<Rightarrow> [] | Some _ \<Rightarrow> [\<lparr>gr_ID = g, gr_Name = g\<rparr>])"
proof -
  have dec: "dec_group_record (json_fix (group_json g)) zero_group_record = (True, \<lparr>gr_ID = g, gr_Name = g\<rparr>)"
    using sim_name_facts(5) [OF assms]
    by (simp add: group_json_def dec_group_record_def dec_group_id_def decode_simps zero_group_record_def del: fold_name.simps)
  have "group_records (Reply 200 (marshal (records_json [group_json g]))) = Ok [\<lparr>gr_ID = g, gr_Name = g\<rparr>]"
    unfolding group_records_def by (rule records_reply, simp_all only: dec) (simp_all add: group_json_def)
  then show ?thesis by (simp add: found_def group_records_def no_records_reply split: option.split)
qed

section \<open>The simulator is a documented system\<close>

lemma map_of_drop_key: "map_of (drop_key n s) = (map_of s)(n := None)"
  by (induction s) (auto simp: drop_key_def fun_eq_iff)

lemma sim_job:
  assumes "u = ''j'' \<or> u = ''f''"
  shows "job_ends (sim_env lim) sample_client u s s (job_end u)"
proof -
  have poll: "sim_send lim hc (poll_request sample_client u) s = (Reply 200 (marshal (state_json (job_end u))), 10, s)" for hc
    using assms by (auto simp: sim_send_def sim_serve_def poll_request_def request_line job_segments Let_def)
  have "status_reply (Reply 200 (marshal (state_json (job_end u)))) = Ok (zero_job_status\<lparr>js_State := job_end u\<rparr>)"
    by (simp add: job_end_def state_reply)
  then show ?thesis
    unfolding job_ends_def
    by (intro exI [of _ 0] exI [of _ "\<lambda>_. s"] exI [of _ "\<lambda>_. Reply 200 (marshal (state_json (job_end u)))"] exI [of _ "\<lambda>_. 10"]
        exI [of _ "\<lambda>_. zero_job_status\<lparr>js_State := job_end u\<rparr>"]) (simp add: sim_env_def poll)
qed

text \<open>Where each request goes.\<close>

lemma serve_buckets:
  assumes "u_Path (rq_url rq) = servicesPath sample_client [''buckets'']"
  shows "sim_serve lim rq s = sim_buckets lim rq s"
  using assms by (simp add: sim_serve_def service_segments literal_names Let_def)

lemma serve_policies:
  assumes "u_Path (rq_url rq) = servicesPath sample_client (''policies'' # item)" "list_all sim_name item"
  shows "sim_serve lim rq s = sim_policies item rq s"
  using assms by (simp add: sim_serve_def service_segments literal_names Let_def)

lemma serve_users:
  assumes "u_Path (rq_url rq) = servicesPath sample_client (''users'' # item)" "list_all sim_name item"
  shows "sim_serve lim rq s = sim_users item rq s"
  using assms by (simp add: sim_serve_def service_segments literal_names Let_def)

lemma serve_groups:
  assumes "u_Path (rq_url rq) = servicesPath sample_client (''groups'' # item)" "list_all sim_name item"
  shows "sim_serve lim rq s = sim_groups item rq s"
  using assms by (simp add: sim_serve_def service_segments literal_names Let_def)

lemma sim_list:
  assumes "sim_name n"
  shows "lists_bucket (sim_env lim) sample_client (\<lambda>s. sim_access s = a) sim_stored s n \<longleftrightarrow> sim_access s = a"
proof -
  have "sim_send lim hc (list_request sample_client n) s =
      (found (map_of (sm_buckets s) n) (bucket_json n), 10, s)" for hc
    by (simp add: sim_send_def serve_buckets sim_buckets_def list_request_def request_line sample_query [OF assms] Let_def)
  with bucket_reply [OF assms, of "map_of (sm_buckets s) n"] show ?thesis
    by (auto simp: lists_bucket_def sim_env_def sim_stored_def split: option.splits)
qed

lemma create_line:
  "rq_method (create_request c n ps sz lock) = ''POST''"
  "u_Path (rq_url (create_request c n ps sz lock)) = servicesPath c [''buckets'']"
  by (simp_all add: create_request_def request_line)

lemma serve_create:
  assumes "sim_name n"
  shows "sim_serve lim (create_request sample_client n ps sz lock) s =
    (if lim_quota lim then (Reply 403 quota_text, s)
     else (Reply 202 (marshal (job_json ''j'')), s\<lparr>sm_buckets := (n, sz) # sm_buckets s\<rparr>))"
  using create_read [OF assms] by (simp add: serve_buckets sim_buckets_def create_line)

lemma serve_delete:
  assumes "sim_name (br_UUID r)"
  shows "sim_serve lim (delete_request sample_client r) s =
    (if lim_full lim (br_UUID r) then (Reply 202 (marshal (job_json ''f'')), s)
     else (Reply 202 (marshal (job_json ''j'')), s\<lparr>sm_buckets := drop_key (br_UUID r) (sm_buckets s)\<rparr>))"
  using bucket_segments [OF assms] by (simp add: sim_serve_def delete_request_def request_line Let_def)

lemma sim_buckets_frame:
  "sim_stored (s\<lparr>sm_buckets := (n, sz) # sm_buckets s\<rparr>) = (sim_stored s)(n \<mapsto> (n, sz))"
  "sim_stored (s\<lparr>sm_buckets := drop_key n (sm_buckets s)\<rparr>) = (sim_stored s)(n := None)"
  "sim_access (s\<lparr>sm_buckets := bs\<rparr>) = sim_access s"
  by (simp_all add: sim_stored_def sim_access_def map_of_drop_key fun_eq_iff)

text \<open>A request that is answered with a job.\<close>

lemma sim_accepts:
  assumes "sim_serve lim rq s = (Reply 202 (marshal (job_json u)), s1)" "u = ''j'' \<or> u = ''f''" "fin = job_end u" "result s1"
  shows "job_accepted (sim_env lim) sample_client rq s fin result"
  using assms sim_job [OF assms(2), of lim s1]
  by (auto simp: job_accepted_def sim_env_def sim_send_def job_reply)

lemma sim_create:
  assumes "sim_name n" "\<not> lim_quota lim"
  shows "job_accepted (sim_env lim) sample_client (create_request sample_client n ps sz lock) s ''success''
    (\<lambda>s2. sim_access s2 = sim_access s \<and> (\<exists>v. sim_stored s2 = (sim_stored s)(n \<mapsto> (v, sz))))"
proof -
  have "sim_serve lim (create_request sample_client n ps sz lock) s =
      (Reply 202 (marshal (job_json ''j'')), s\<lparr>sm_buckets := (n, sz) # sm_buckets s\<rparr>)"
    using serve_create assms by simp
  then show ?thesis by (rule sim_accepts) (auto simp: job_end_def sim_buckets_frame)
qed

lemma sim_quota:
  assumes "sim_name n" "lim_quota lim"
  shows "quota_refused (sim_env lim) sample_client (create_request sample_client n ps sz lock) s
    (\<lambda>s1. sim_access s1 = sim_access s \<and> sim_stored s1 = sim_stored s)"
  using serve_create [OF assms(1), of lim ps sz lock s] assms(2) quota_reply_read
  by (auto simp: quota_refused_def sim_env_def sim_send_def)

lemma sim_delete:
  assumes "sim_name n" "sim_stored s n = Some (v, sz)"
  shows "\<not> lim_full lim n \<Longrightarrow>
      job_accepted (sim_env lim) sample_client (delete_request sample_client \<lparr>br_UUID = v, br_Name = n, br_Size = sz\<rparr>) s ''success''
        (\<lambda>s2. sim_access s2 = sim_access s \<and> sim_stored s2 = (sim_stored s)(n := None))"
    "lim_full lim n \<Longrightarrow>
      job_accepted (sim_env lim) sample_client (delete_request sample_client \<lparr>br_UUID = v, br_Name = n, br_Size = sz\<rparr>) s ''failure''
        (\<lambda>s2. sim_access s2 = sim_access s \<and> sim_stored s2 = sim_stored s)"
proof -
  let ?rq = "delete_request sample_client \<lparr>br_UUID = v, br_Name = n, br_Size = sz\<rparr>"
  have v: "v = n" using assms(2) by (auto simp: sim_stored_def)
  note serve = serve_delete [of "\<lparr>br_UUID = v, br_Name = n, br_Size = sz\<rparr>" lim s, unfolded v, simplified, OF assms(1)]
  show "job_accepted (sim_env lim) sample_client ?rq s ''success''
      (\<lambda>s2. sim_access s2 = sim_access s \<and> sim_stored s2 = (sim_stored s)(n := None))" if "\<not> lim_full lim n"
    unfolding v by (rule sim_accepts [where u = "''j''"], use serve that in simp) (simp_all add: job_end_def sim_buckets_frame)
  show "job_accepted (sim_env lim) sample_client ?rq s ''failure''
      (\<lambda>s2. sim_access s2 = sim_access s \<and> sim_stored s2 = sim_stored s)" if "lim_full lim n"
    unfolding v by (rule sim_accepts [where u = "''f''"], use serve that in simp) (simp_all add: job_end_def)
qed

lemma sim_documented_buckets:
  "documented_ontap (sim_env lim) sample_client lim sim_name (\<lambda>s. True \<and> sim_access s = a) sim_stored"
  unfolding documented_ontap_def
  using sim_list sim_create sim_quota sim_delete by auto

lemma documented_policiesI:
  assumes "\<And>s p b. name_ok p \<Longrightarrow> name_ok b \<Longrightarrow> oa_policies (access s) p = None \<Longrightarrow>
      serves env c good stored access (policy_post c p b) s accepted
        (\<lambda>a1. a1 = (access s)\<lparr>oa_policies := (oa_policies (access s))(p \<mapsto> b)\<rparr>)"
    and "\<And>s p b. name_ok p \<Longrightarrow> name_ok b \<Longrightarrow> oa_policies (access s) p = None \<Longrightarrow>
      serves env c good stored access (delete_path_request c (servicesPath c [''policies'', p])) s (answered 404)
        (\<lambda>a1. a1 = access s)"
    and "\<And>s p b. name_ok p \<Longrightarrow> name_ok b \<Longrightarrow> oa_policies (access s) p \<noteq> None \<Longrightarrow>
      serves env c good stored access (policy_post c p b) s (answered 409) (\<lambda>a1. a1 = access s)"
    and "\<And>s p b. name_ok p \<Longrightarrow> name_ok b \<Longrightarrow> oa_policies (access s) p \<noteq> None \<Longrightarrow>
      serves env c good stored access (policy_patch c p b) s accepted
        (\<lambda>a1. a1 = (access s)\<lparr>oa_policies := (oa_policies (access s))(p \<mapsto> b)\<rparr>)"
    and "\<And>s p b. name_ok p \<Longrightarrow> name_ok b \<Longrightarrow> oa_policies (access s) p \<noteq> None \<Longrightarrow>
      \<forall>g r. oa_groups (access s) g = Some r \<longrightarrow> p \<notin> og_policies r \<Longrightarrow>
      serves env c good stored access (delete_path_request c (servicesPath c [''policies'', p])) s accepted
        (\<lambda>a1. a1 = (access s)\<lparr>oa_policies := (oa_policies (access s))(p := None)\<rparr>)"
  shows "documented_policies env c name_ok good stored access"
  unfolding documented_policies_def Let_def using assms by presburger

lemma sim_serves:
  assumes "sim_serve lim rq s = (rep, s1)" "ok rep" "sim_stored s1 = sim_stored s" "res (sim_access s1)"
  shows "serves (sim_env lim) sample_client (\<lambda>_. True) sim_stored sim_access rq s ok res"
  using assms by (simp add: serves_def sim_env_def sim_send_def)

text \<open>The buckets are the same, whatever happens to policies, users and groups.\<close>

lemma sim_frame:
  "sim_stored (s\<lparr>sm_policies := x\<rparr>) = sim_stored s" "sim_stored (s\<lparr>sm_users := us\<rparr>) = sim_stored s"
  "sim_stored (s\<lparr>sm_groups := gs\<rparr>) = sim_stored s"
  "sim_access (s\<lparr>sm_policies := x\<rparr>) = (sim_access s)\<lparr>oa_policies := map_of x\<rparr>"
  "sim_access (s\<lparr>sm_users := us\<rparr>) = (sim_access s)\<lparr>oa_users := (\<lambda>u. map_option keys_of (map_of us u))\<rparr>"
  "sim_stored (s\<lparr>sm_next := k\<rparr>) = sim_stored s" "sim_access (s\<lparr>sm_next := k\<rparr>) = sim_access s"
  "sim_access (s\<lparr>sm_groups := gs\<rparr>) = (sim_access s)\<lparr>oa_groups :=
     (\<lambda>g. map_option (\<lambda>(u, p). \<lparr>og_id = g, og_users = {u}, og_policies = {p}\<rparr>) (map_of gs g))\<rparr>"
  by (simp_all add: sim_stored_def sim_access_def fun_eq_iff)

lemma sim_views:
  "oa_policies (sim_access s) = map_of (sm_policies s)" "oa_users (sim_access s) u = map_option keys_of (map_of (sm_users s) u)"
  "oa_groups (sim_access s) g = map_option (\<lambda>(u, p). \<lparr>og_id = g, og_users = {u}, og_policies = {p}\<rparr>) (map_of (sm_groups s) g)"
  by (simp_all add: sim_access_def)

lemma access_request_line:
  "rq_method (policy_post c p b) = ''POST''" "u_Path (rq_url (policy_post c p b)) = servicesPath c [''policies'']"
  "rq_method (policy_patch c p b) = ''PATCH''" "u_Path (rq_url (policy_patch c p b)) = servicesPath c [''policies'', p]"
  "rq_method (user_post c u) = ''POST''" "u_Path (rq_url (user_post c u)) = servicesPath c [''users'']"
  "rq_method (user_patch c u) = ''PATCH''" "u_Path (rq_url (user_patch c u)) = servicesPath c [''users'', u]"
  "rq_method (group_post c g u p) = ''POST''" "u_Path (rq_url (group_post c g u p)) = servicesPath c [''groups'']"
  "rq_method (list_groups_request c g) = ''GET''" "u_Path (rq_url (list_groups_request c g)) = servicesPath c [''groups'']"
  "rq_method (delete_path_request c path) = ''DELETE''" "u_Path (rq_url (delete_path_request c path)) = path"
  by (simp_all add: policy_post_def policy_patch_def user_post_def user_patch_def group_post_def list_groups_request_def
      delete_path_request_def request_line)

lemma serve_policy:
  assumes "sim_name p" "sim_name b"
  shows "sim_serve lim (policy_post sample_client p b) s =
      (if map_of (sm_policies s) p = None then (Reply 201 [], s\<lparr>sm_policies := (p, b) # sm_policies s\<rparr>) else (Reply 409 [], s))"
    "sim_serve lim (policy_patch sample_client p b) s =
      (if map_of (sm_policies s) p = None then (Reply 404 [], s) else (Reply 200 [], s\<lparr>sm_policies := (p, b) # sm_policies s\<rparr>))"
    "sim_serve lim (delete_path_request sample_client (servicesPath sample_client [''policies'', p])) s =
      (if map_of (sm_policies s) p = None then (Reply 404 [], s)
       else if list_ex (\<lambda>(g, _). map_option snd (map_of (sm_groups s) g) = Some p) (sm_groups s) then (Reply 409 [], s)
       else (Reply 200 [], s\<lparr>sm_policies := drop_key p (sm_policies s)\<rparr>))"
  using assms by (simp_all add: serve_policies access_request_line sim_policies_def policy_read Let_def)

lemma sim_unused:
  assumes "\<forall>g r. oa_groups (sim_access s) g = Some r \<longrightarrow> p \<notin> og_policies r"
  shows "\<not> list_ex (\<lambda>(g, _). map_option snd (map_of (sm_groups s) g) = Some p) (sm_groups s)"
proof
  assume "list_ex (\<lambda>(g, _). map_option snd (map_of (sm_groups s) g) = Some p) (sm_groups s)"
  then obtain g u where "map_of (sm_groups s) g = Some (u, p)" by (auto simp: list_ex_iff)
  then have "oa_groups (sim_access s) g = Some \<lparr>og_id = g, og_users = {u}, og_policies = {p}\<rparr>" by (simp add: sim_views)
  with assms show False by fastforce
qed

lemma sim_policies_documented: "documented_policies (sim_env lim) sample_client sim_name (\<lambda>_. True) sim_stored sim_access"
proof (rule documented_policiesI)
  fix s p b
  assume names: "sim_name p" "sim_name b" and "oa_policies (sim_access s) p = None"
  then have none: "map_of (sm_policies s) p = None" by (simp add: sim_views)
  show "serves (sim_env lim) sample_client (\<lambda>_. True) sim_stored sim_access (policy_post sample_client p b) s accepted
      (\<lambda>a1. a1 = (sim_access s)\<lparr>oa_policies := (oa_policies (sim_access s))(p \<mapsto> b)\<rparr>)"
    using serve_policy(1) [OF names, of lim s] none
    by (intro sim_serves) (simp, simp_all add: sim_frame sim_views accepted_def)
  show "serves (sim_env lim) sample_client (\<lambda>_. True) sim_stored sim_access
      (delete_path_request sample_client (servicesPath sample_client [''policies'', p])) s (answered 404) (\<lambda>a1. a1 = sim_access s)"
    using serve_policy(3) [OF names, of lim s] none
    by (intro sim_serves) (simp, simp_all add: answered_def)
next
  fix s p b
  assume names: "sim_name p" "sim_name b" and "oa_policies (sim_access s) p \<noteq> None"
  then obtain b0 where some: "map_of (sm_policies s) p = Some b0" by (auto simp: sim_views)
  show "serves (sim_env lim) sample_client (\<lambda>_. True) sim_stored sim_access (policy_post sample_client p b) s (answered 409)
      (\<lambda>a1. a1 = sim_access s)"
    using serve_policy(1) [OF names, of lim s] some
    by (intro sim_serves) (simp, simp_all add: answered_def)
  show "serves (sim_env lim) sample_client (\<lambda>_. True) sim_stored sim_access (policy_patch sample_client p b) s accepted
      (\<lambda>a1. a1 = (sim_access s)\<lparr>oa_policies := (oa_policies (sim_access s))(p \<mapsto> b)\<rparr>)"
    using serve_policy(2) [OF names, of lim s] some
    by (intro sim_serves) (simp, simp_all add: sim_frame sim_views accepted_def)
  show "serves (sim_env lim) sample_client (\<lambda>_. True) sim_stored sim_access
      (delete_path_request sample_client (servicesPath sample_client [''policies'', p])) s accepted
      (\<lambda>a1. a1 = (sim_access s)\<lparr>oa_policies := (oa_policies (sim_access s))(p := None)\<rparr>)"
    if "\<forall>g r. oa_groups (sim_access s) g = Some r \<longrightarrow> p \<notin> og_policies r"
    using serve_policy(3) [OF names, of lim s] sim_unused [OF that] some
    by (intro sim_serves) (simp, simp_all add: sim_frame sim_views accepted_def map_of_drop_key)
qed

lemma serve_user:
  assumes "sim_name u"
  shows "map_of (sm_users s) u = None \<Longrightarrow> sim_serve lim (user_post sample_client u) s =
      (Reply 201 (marshal (keys_json (sm_next s))), s\<lparr>sm_users := (u, sm_next s) # sm_users s, sm_next := Suc (sm_next s)\<rparr>)"
    "map_of (sm_users s) u = None \<Longrightarrow>
      sim_serve lim (delete_path_request sample_client (servicesPath sample_client [''users'', u])) s = (Reply 404 [], s)"
    "map_of (sm_users s) u = Some k \<Longrightarrow> sim_serve lim (user_post sample_client u) s = (Reply 409 [], s)"
    "map_of (sm_users s) u = Some k \<Longrightarrow> sim_serve lim (user_patch sample_client u) s =
      (Reply 200 (marshal (keys_json (sm_next s))), s\<lparr>sm_users := (u, sm_next s) # sm_users s, sm_next := Suc (sm_next s)\<rparr>)"
    "map_of (sm_users s) u = Some k \<Longrightarrow>
      sim_serve lim (delete_path_request sample_client (servicesPath sample_client [''users'', u])) s =
        (Reply 200 [], s\<lparr>sm_users := drop_key u (sm_users s)\<rparr>)"
  using assms by (simp_all add: serve_users access_request_line sim_users_def user_read Let_def)

lemma documented_usersI:
  assumes "\<And>s u. name_ok u \<Longrightarrow> oa_users (access s) u = None \<Longrightarrow> \<exists>creds. serves env c good stored access (user_post c u) s
      (\<lambda>rep. keys_in rep creds) (\<lambda>a1. a1 = (access s)\<lparr>oa_users := (oa_users (access s))(u \<mapsto> creds)\<rparr>)"
    and "\<And>s u. name_ok u \<Longrightarrow> oa_users (access s) u = None \<Longrightarrow>
      serves env c good stored access (delete_path_request c (servicesPath c [''users'', u])) s (answered 404)
        (\<lambda>a1. a1 = access s)"
    and "\<And>s u. name_ok u \<Longrightarrow> oa_users (access s) u \<noteq> None \<Longrightarrow>
      serves env c good stored access (user_post c u) s (answered 409) (\<lambda>a1. a1 = access s)"
    and "\<And>s u. name_ok u \<Longrightarrow> oa_users (access s) u \<noteq> None \<Longrightarrow> \<exists>creds. serves env c good stored access (user_patch c u) s
      (\<lambda>rep. keys_in rep creds) (\<lambda>a1. a1 = (access s)\<lparr>oa_users := (oa_users (access s))(u \<mapsto> creds)\<rparr>)"
    and "\<And>s u. name_ok u \<Longrightarrow> oa_users (access s) u \<noteq> None \<Longrightarrow>
      serves env c good stored access (delete_path_request c (servicesPath c [''users'', u])) s accepted
        (\<lambda>a1. \<exists>gs. user_dropped u (oa_groups (access s)) gs \<and>
           a1 = (access s)\<lparr>oa_users := (oa_users (access s))(u := None), oa_groups := gs\<rparr>)"
  shows "documented_users env c name_ok good stored access"
  unfolding documented_users_def Let_def using assms by presburger

lemma sim_user_frame:
  "sim_access (s\<lparr>sm_users := (u, k) # sm_users s, sm_next := m\<rparr>) =
     (sim_access s)\<lparr>oa_users := (oa_users (sim_access s))(u \<mapsto> keys_of k)\<rparr>"
  "sim_access (s\<lparr>sm_users := drop_key u (sm_users s)\<rparr>) = (sim_access s)\<lparr>oa_users := (oa_users (sim_access s))(u := None)\<rparr>"
  "sim_stored (s\<lparr>sm_users := us, sm_next := m\<rparr>) = sim_stored s"
  by (simp_all add: sim_access_def sim_stored_def map_of_drop_key fun_eq_iff)

lemma sim_users_documented: "documented_users (sim_env lim) sample_client sim_name (\<lambda>_. True) sim_stored sim_access"
proof (rule documented_usersI)
  fix s u
  assume u: "sim_name u" and "oa_users (sim_access s) u = None"
  then have none: "map_of (sm_users s) u = None" by (simp add: sim_views)
  show "\<exists>creds. serves (sim_env lim) sample_client (\<lambda>_. True) sim_stored sim_access (user_post sample_client u) s
      (\<lambda>rep. keys_in rep creds) (\<lambda>a1. a1 = (sim_access s)\<lparr>oa_users := (oa_users (sim_access s))(u \<mapsto> creds)\<rparr>)"
    by (rule exI, rule sim_serves [OF serve_user(1) [OF u none]], rule keys_reply(2), rule sim_user_frame(3), rule sim_user_frame(1))
  show "serves (sim_env lim) sample_client (\<lambda>_. True) sim_stored sim_access
      (delete_path_request sample_client (servicesPath sample_client [''users'', u])) s (answered 404) (\<lambda>a1. a1 = sim_access s)"
    by (rule sim_serves [OF serve_user(2) [OF u none]]) (simp_all add: answered_def)
next
  fix s u
  assume u: "sim_name u" and "oa_users (sim_access s) u \<noteq> None"
  then obtain k where some: "map_of (sm_users s) u = Some k" by (auto simp: sim_views)
  show "serves (sim_env lim) sample_client (\<lambda>_. True) sim_stored sim_access (user_post sample_client u) s (answered 409)
      (\<lambda>a1. a1 = sim_access s)"
    by (rule sim_serves [OF serve_user(3) [OF u some]]) (simp_all add: answered_def)
  show "\<exists>creds. serves (sim_env lim) sample_client (\<lambda>_. True) sim_stored sim_access (user_patch sample_client u) s
      (\<lambda>rep. keys_in rep creds) (\<lambda>a1. a1 = (sim_access s)\<lparr>oa_users := (oa_users (sim_access s))(u \<mapsto> creds)\<rparr>)"
    by (rule exI, rule sim_serves [OF serve_user(4) [OF u some]], rule keys_reply(1), rule sim_user_frame(3), rule sim_user_frame(1))
  show "serves (sim_env lim) sample_client (\<lambda>_. True) sim_stored sim_access
      (delete_path_request sample_client (servicesPath sample_client [''users'', u])) s accepted
      (\<lambda>a1. \<exists>gs. user_dropped u (oa_groups (sim_access s)) gs \<and>
        a1 = (sim_access s)\<lparr>oa_users := (oa_users (sim_access s))(u := None), oa_groups := gs\<rparr>)"
    by (rule sim_serves [OF serve_user(5) [OF u some]])
      (auto simp: accepted_def sim_frame(2) sim_user_frame(2) intro!: exI [of _ "oa_groups (sim_access s)"] user_dropped_refl)
qed

lemma serve_group:
  assumes "sim_name g" "sim_name u" "sim_name p"
  shows "sim_serve lim (list_groups_request sample_client g) s = (found (map_of (sm_groups s) g) (\<lambda>_. group_json g), s)"
    "sim_serve lim (group_post sample_client g u p) s =
      (if map_of (sm_groups s) g \<noteq> None then (Reply 409 [], s)
       else if map_of (sm_users s) u = None \<or> map_of (sm_policies s) p = None then (Reply 404 [], s)
       else (Reply 201 [], s\<lparr>sm_groups := (g, u, p) # sm_groups s\<rparr>))"
    "sim_serve lim (delete_path_request sample_client (servicesPath sample_client [''groups'', g])) s =
      (Reply 200 [], s\<lparr>sm_groups := drop_key g (sm_groups s)\<rparr>)"
  using assms
  by (simp_all add: serve_groups access_request_line sim_groups_def group_read Let_def)
    (simp add: list_groups_request_def sample_query)

lemma sim_group_frame:
  "sim_access (s\<lparr>sm_groups := (g, u, p) # sm_groups s\<rparr>) =
     (sim_access s)\<lparr>oa_groups := (oa_groups (sim_access s))(g \<mapsto> \<lparr>og_id = g, og_users = {u}, og_policies = {p}\<rparr>)\<rparr>"
  "sim_access (s\<lparr>sm_groups := drop_key g (sm_groups s)\<rparr>) =
     (sim_access s)\<lparr>oa_groups := (oa_groups (sim_access s))(g := None)\<rparr>"
  by (simp_all add: sim_access_def map_of_drop_key fun_eq_iff)

lemma sim_groups_documented: "documented_groups (sim_env lim) sample_client sim_name (\<lambda>_. True) sim_stored sim_access"
proof -
  have new: "\<exists>i. (sim_access s)\<lparr>oa_groups := (oa_groups (sim_access s))(g \<mapsto> \<lparr>og_id = g, og_users = {u}, og_policies = {p}\<rparr>)\<rparr> =
      (sim_access s)\<lparr>oa_groups := (oa_groups (sim_access s))(g \<mapsto> \<lparr>og_id = i, og_users = {u}, og_policies = {p}\<rparr>)\<rparr>" for s g u p
    by blast
  show ?thesis
    unfolding documented_groups_def Let_def
    by (auto intro!: sim_serves new simp: serve_group sim_frame(1-5) sim_group_frame sim_views accepted_def answered_def
        group_reply split: option.split)
qed

lemma sim_documented: "documented_access (sim_env lim) sample_client lim sim_name (\<lambda>_. True) sim_stored sim_access"
  unfolding documented_access_def
  using sim_documented_buckets sim_policies_documented sim_users_documented sim_groups_documented by blast

section \<open>Runs against the simulator\<close>

text \<open>Nothing is refused but the deletion of the bucket \<open>c\<close>; and a system with its quota used up.\<close>

definition sample_limits :: limits where
  "sample_limits = \<lparr>lim_full = (\<lambda>n. n = ''c''), lim_quota = False\<rparr>"

definition used_up :: limits where
  "used_up = \<lparr>lim_full = (\<lambda>n. False), lim_quota = True\<rparr>"

definition fresh_sim :: "sim world" where
  "fresh_sim = \<lparr>now = 0, node = empty_sim\<rparr>"

lemma sim_empty: "sim_access empty_sim = \<lparr>oa_policies = Map.empty, oa_users = Map.empty, oa_groups = Map.empty\<rparr>"
  "sizes sim_stored empty_sim = Map.empty" "env_lower (sim_env lim) = (\<lambda>s. s)"
  by (simp_all add: sim_access_def empty_sim_def sizes_def sim_stored_def fun_eq_iff sim_env_def)

lemma no_access_empty: "\<not> has_access (sim_access empty_sim) u b" "accesses W (sim_access empty_sim) = {}"
  by (auto simp: has_access_def accesses_def sim_empty)

definition sample_pairs :: pairs where
  "sample_pairs = {(''b'', ''u''), (''c'', ''u'')}"

lemma sample_pairs_ok: "pairs_ok (env_lower (sim_env lim)) sim_name sample_pairs"
proof -
  have "policy_name (\<lambda>s. s) ''b'' ''u'' = ''cosi-b-u-policy''" "group_name (\<lambda>s. s) ''b'' ''u'' = ''cosi-b-u-group''"
    "policy_name (\<lambda>s. s) ''c'' ''u'' = ''cosi-c-u-policy''" "group_name (\<lambda>s. s) ''c'' ''u'' = ''cosi-c-u-group''"
    by code_simp+
  moreover have "sim_name ''b''" "sim_name ''c''" "sim_name ''u''" "sim_name ''cosi-b-u-policy''" "sim_name ''cosi-b-u-group''"
    "sim_name ''cosi-c-u-policy''" "sim_name ''cosi-c-u-group''"
    by code_simp+
  ultimately show ?thesis by (simp add: pairs_ok_def sample_pairs_def sim_empty(3))
qed

lemma sample_tidy: "tidy uni W (sim_access empty_sim)"
  by (auto simp: tidy_def holds_def no_access_empty pair_objects_def foreign_groups_def) (simp_all add: sim_empty)

definition sample_rpcs :: "cosi_call list" where
  "sample_rpcs = [CallCreate ''b'' [(''size'', ''10'')], CallCreate ''b'' [(''size'', ''10'')], CallGrant ''u'' [''b'', ''c''],
     CallCreate ''c'' [(''size'', ''10'')], CallGrant ''u'' [''b'', ''c''], CallRevoke ''u'' [''b'', ''c''],
     CallDelete ''b'', CallDelete ''c'']"

lemma sample_size:
  "asked_size [(''size'', ''10'')] = Some (Ok (10 * gib))" "object_locking [(''size'', ''10'')] = Some False"
  "sim_name ''b''" "sim_name ''c''"
  by code_simp+

lemma sample_start:
  "plain_config zero_Config" "tidy (env_lower env) sample_pairs (sim_access (node fresh_sim))"
  "ontap_view sim_stored sim_access sample_pairs fresh_sim = \<lparr>os_sizes = Map.empty, os_accesses = {}\<rparr>"
  by (simp_all add: plain_config_def zero_Config_def fresh_sim_def sample_tidy ontap_view_def sim_empty(2) no_access_empty(2))

lemma ontap_refines_cosi_witness:
  "fst (handle_run (s3_server (sim_env sample_limits) identity_keys zero_Config (SetupS3 sample_client None)) None []
     sample_rpcs fresh_sim) =
     [Created ''b'', Created ''b'', Refused NotFound, Created ''c'', Granted ''u'' [''b'', ''c''], Revoked, Deleted, Refused Internal] \<and>
   fst (handle_run (s3_server (sim_env used_up) identity_keys zero_Config (SetupS3 sample_client None)) None []
     [CallCreate ''b'' [(''size'', ''10'')]] fresh_sim) = [Refused ResourceExhausted]"
proof -
  let ?s = "\<lambda>lim. s3_server (sim_env lim) identity_keys zero_Config (SetupS3 sample_client None)"
  have run: "fst (handle_run (?s lim) None [] rpcs fresh_sim) = fst (ontap_cosi_run lim rpcs \<lparr>os_sizes = Map.empty, os_accesses = {}\<rparr>)"
    if proper: "proper_calls lim sim_name sample_pairs rpcs \<lparr>os_sizes = Map.empty, os_accesses = {}\<rparr>" for lim rpcs
  proof -
    obtain answers w1 where run: "handle_run (?s lim) None [] rpcs fresh_sim = (answers, w1)" by fastforce
    from ontap_refines_cosi [OF sim_documented sample_pairs_ok sample_start(1) TrueI sample_start(2)
        proper [folded sample_start(3)] run] run
    show ?thesis unfolding sample_start(3) by simp
  qed
  have "proper_calls sample_limits sim_name sample_pairs sample_rpcs \<lparr>os_sizes = Map.empty, os_accesses = {}\<rparr>"
    "proper_calls used_up sim_name sample_pairs [CallCreate ''b'' [(''size'', ''10'')]] \<lparr>os_sizes = Map.empty, os_accesses = {}\<rparr>"
    by (simp_all add: sample_rpcs_def sample_pairs_def sample_size sample_limits_def)
  from this [THEN run] show ?thesis
    by (simp add: sample_rpcs_def sample_size sample_limits_def used_up_def)
qed

lemma coinciding_names_cross_access_witness:
  "\<exists>r1 w1 r2 w2. CreateBucketAccess (sim_env sample_limits) sample_client None ''a-b'' ''c'' fresh_sim = (r1, w1) \<and>
     CreateBucketAccess (sim_env sample_limits) sample_client None ''a'' ''b-c'' w1 = (r2, w2) \<and>
     has_access (sim_access (node w2)) ''c'' ''a'' \<and> \<not> has_access (sim_access (node w2)) ''c'' ''a-b'' \<and>
     \<not> has_access (sim_access (node w2)) ''b-c'' ''a''"
proof -
  have same: "policy_name (env_lower (sim_env sample_limits)) ''a-b'' ''c'' = policy_name (env_lower (sim_env sample_limits)) ''a'' ''b-c''"
    "group_name (env_lower (sim_env sample_limits)) ''a-b'' ''c'' = group_name (env_lower (sim_env sample_limits)) ''a'' ''b-c''"
    using derived_names_ambiguous [of "env_lower (sim_env sample_limits)" "''a''" "''b''" "''c''"] by simp_all
  have "policy_name (\<lambda>s. s) ''a'' ''b-c'' = ''cosi-a-b-c-policy''" "group_name (\<lambda>s. s) ''a'' ''b-c'' = ''cosi-a-b-c-group''"
    by code_simp+
  moreover have "sim_name ''a''" "sim_name ''a-b''" "sim_name ''c''" "sim_name ''b-c''" "sim_name ''cosi-a-b-c-policy''"
    "sim_name ''cosi-a-b-c-group''"
    by code_simp+
  ultimately have names: "pair_names (env_lower (sim_env sample_limits)) sim_name ''a-b'' ''c''" "pair_names (env_lower (sim_env sample_limits)) sim_name ''a'' ''b-c''"
    using same by (simp_all add: pair_names_def sim_empty(3))
  have empty: "\<forall>g r. oa_groups (sim_access (node fresh_sim)) g = Some r \<longrightarrow>
      g \<noteq> group_name (env_lower (sim_env sample_limits)) ''a-b'' ''c'' \<and> ''c'' \<notin> og_users r \<and> ''b-c'' \<notin> og_users r"
    by (simp add: fresh_sim_def sim_empty)
  obtain r1 w1 where 1: "CreateBucketAccess (sim_env sample_limits) sample_client None ''a-b'' ''c'' fresh_sim = (r1, w1)" by fastforce
  obtain r2 w2 where 2: "CreateBucketAccess (sim_env sample_limits) sample_client None ''a'' ''b-c'' w1 = (r2, w2)" by fastforce
  have "''a-b'' \<noteq> ''a''" "''c'' \<noteq> ''b-c''" by simp_all
  from coinciding_names_cross_access [OF sim_documented TrueI names this same empty 1 2] 1 2 show ?thesis by blast
qed

lemma grant_credentials_current_witness:
  "\<exists>resp w1 k. DriverGrantBucketAccess (s3_server (sim_env sample_limits) identity_keys zero_Config (SetupS3 sample_client None)) None
      \<lparr>gb_AccountName = ''u'', gb_Buckets = [''b'', ''c''], gb_Parameters = []\<rparr>
      \<lparr>now = 0, node = empty_sim\<lparr>sm_buckets := [(''b'', 0), (''c'', 0)]\<rparr>\<rparr> = (Ok (Some resp), w1) \<and>
    oa_users (sim_access (node w1)) ''u'' = Some k \<and> gr_Credentials resp = Some (s3_keys k)"
proof -
  let ?s = "s3_server (sim_env sample_limits) identity_keys zero_Config (SetupS3 sample_client None)"
  let ?w = "\<lparr>now = 0, node = empty_sim\<lparr>sm_buckets := [(''b'', 0), (''c'', 0)]\<rparr>\<rparr> :: sim world"
  let ?req = "\<lparr>gb_AccountName = ''u'', gb_Buckets = [''b'', ''c''], gb_Parameters = []\<rparr>"
  have plain: "plain_config zero_Config" by (simp add: plain_config_def zero_Config_def)
  have "sim_access (node ?w) = sim_access empty_sim" by (simp add: sim_access_def)
  then have tidy: "tidy (env_lower (sim_env sample_limits)) sample_pairs (sim_access (node ?w))" by (simp only: sample_tidy)
  have pairs: "set [''b'', ''c''] \<times> {''u''} \<subseteq> sample_pairs" by (auto simp: sample_pairs_def)
  obtain r w1 where run: "DriverGrantBucketAccess ?s None ?req ?w = (r, w1)" by fastforce
  then have "handle ?s None [] (CallGrant ''u'' [''b'', ''c'']) ?w =
      (answer (\<lambda>resp. Granted (gr_AccountId resp) (map bi_BucketId (gr_Buckets resp))) r, w1)" by simp
  note step = ontap_grant_step [OF sim_documented sample_pairs_ok TrueI tidy plain pairs this]
  have "os_sizes (ontap_view sim_stored sim_access sample_pairs ?w) ''b'' \<noteq> None"
    "os_sizes (ontap_view sim_stored sim_access sample_pairs ?w) ''c'' \<noteq> None"
    by (simp_all add: ontap_view_def sizes_def sim_stored_def)
  with step have "answer (\<lambda>resp. Granted (gr_AccountId resp) (map bi_BucketId (gr_Buckets resp))) r = Granted ''u'' [''b'', ''c'']"
    by (simp add: Let_def)
  then obtain resp where "r = Ok (Some resp)" by (auto simp: answer_def split: outcome.splits option.splits)
  with run have run: "DriverGrantBucketAccess ?s None ?req ?w = (Ok (Some resp), w1)" by simp
  from grant_credentials_current [OF sim_documented sample_pairs_ok plain TrueI tidy pairs run] run show ?thesis by blast
qed

section \<open>A simulator that loses replies\<close>

text \<open>The replies to all requests that may change something are lost, after they have been carried out.\<close>

definition flaky_send :: "http_client \<Rightarrow> request \<Rightarrow> sim \<Rightarrow> reply \<times> nat \<times> sim" where
  "flaky_send hc rq s =
     (case sim_serve sample_limits rq s of (rep, s1) \<Rightarrow>
        if rq_method rq = ''GET'' then (rep, 10, s) else (NoReply (NetText ''connection reset''), 10, s1))"

definition flaky_env :: "sim env" where
  "flaky_env = (sim_env sample_limits)\<lparr>env_send := flaky_send\<rparr>"

lemma flaky_lower: "env_lower flaky_env = env_lower (sim_env sample_limits)"
  by (simp add: flaky_env_def)

lemma flaky_tries:
  assumes "sim_stored (snd (sim_serve sample_limits rq s)) = sim_stored s"
    and "sim_access (snd (sim_serve sample_limits rq s)) = sim_access s \<or> res (sim_access (snd (sim_serve sample_limits rq s)))"
  shows "tries flaky_env sample_client (\<lambda>_. True) sim_stored sim_access rq s res"
  using assms by (auto simp: tries_def serves_def flaky_env_def flaky_send_def split: prod.split)

lemma flaky_policies:
  assumes "sim_name p"
  shows "sim_name b \<Longrightarrow> tries flaky_env sample_client (\<lambda>_. True) sim_stored sim_access (policy_post sample_client p b) s
       (\<lambda>a1. a1 = (sim_access s)\<lparr>oa_policies := (oa_policies (sim_access s))(p \<mapsto> b)\<rparr>)"
    "sim_name b \<Longrightarrow> tries flaky_env sample_client (\<lambda>_. True) sim_stored sim_access (policy_patch sample_client p b) s
       (\<lambda>a1. a1 = (sim_access s)\<lparr>oa_policies := (oa_policies (sim_access s))(p \<mapsto> b)\<rparr>)"
    "tries flaky_env sample_client (\<lambda>_. True) sim_stored sim_access
       (delete_path_request sample_client (servicesPath sample_client [''policies'', p])) s
       (\<lambda>a1. a1 = (sim_access s)\<lparr>oa_policies := (oa_policies (sim_access s))(p := None)\<rparr>)"
  using assms
  by (auto intro!: flaky_tries simp: serve_policy serve_policy(3) [OF assms assms] sim_frame sim_views map_of_drop_key)

lemma flaky_users:
  assumes "sim_name u"
  shows "tries flaky_env sample_client (\<lambda>_. True) sim_stored sim_access (user_post sample_client u) s
       (\<lambda>a1. \<exists>k. a1 = (sim_access s)\<lparr>oa_users := (oa_users (sim_access s))(u \<mapsto> k)\<rparr>)"
    "tries flaky_env sample_client (\<lambda>_. True) sim_stored sim_access (user_patch sample_client u) s
       (\<lambda>a1. \<exists>k. a1 = (sim_access s)\<lparr>oa_users := (oa_users (sim_access s))(u \<mapsto> k)\<rparr>)"
    "tries flaky_env sample_client (\<lambda>_. True) sim_stored sim_access
       (delete_path_request sample_client (servicesPath sample_client [''users'', u])) s
       (\<lambda>a1. \<exists>gs. user_dropped u (oa_groups (sim_access s)) gs \<and>
          a1 = (sim_access s)\<lparr>oa_users := (oa_users (sim_access s))(u := None), oa_groups := gs\<rparr>)"
proof -
  note served = serve_users access_request_line sim_users_def user_read Let_def assms
  show "tries flaky_env sample_client (\<lambda>_. True) sim_stored sim_access (user_post sample_client u) s
       (\<lambda>a1. \<exists>k. a1 = (sim_access s)\<lparr>oa_users := (oa_users (sim_access s))(u \<mapsto> k)\<rparr>)"
    by (rule flaky_tries) (auto simp: served sim_user_frame(1,3))
  show "tries flaky_env sample_client (\<lambda>_. True) sim_stored sim_access (user_patch sample_client u) s
       (\<lambda>a1. \<exists>k. a1 = (sim_access s)\<lparr>oa_users := (oa_users (sim_access s))(u \<mapsto> k)\<rparr>)"
    by (rule flaky_tries) (auto simp: served sim_user_frame(1,3))
  show "tries flaky_env sample_client (\<lambda>_. True) sim_stored sim_access
       (delete_path_request sample_client (servicesPath sample_client [''users'', u])) s
       (\<lambda>a1. \<exists>gs. user_dropped u (oa_groups (sim_access s)) gs \<and>
          a1 = (sim_access s)\<lparr>oa_users := (oa_users (sim_access s))(u := None), oa_groups := gs\<rparr>)"
    by (rule flaky_tries) (auto simp: served sim_user_frame(2) sim_frame(2) user_dropped_refl
        intro!: exI [of _ "oa_groups (sim_access s)"])
qed

lemma flaky_groups:
  assumes "sim_name g"
  shows "sim_name u \<Longrightarrow> sim_name p \<Longrightarrow>
     tries flaky_env sample_client (\<lambda>_. True) sim_stored sim_access (group_post sample_client g u p) s
       (\<lambda>a1. oa_groups (sim_access s) g = None \<and>
          (\<exists>i. a1 = (sim_access s)\<lparr>oa_groups := (oa_groups (sim_access s))(g \<mapsto> \<lparr>og_id = i, og_users = {u}, og_policies = {p}\<rparr>)\<rparr>))"
    "tries flaky_env sample_client (\<lambda>_. True) sim_stored sim_access
       (delete_path_request sample_client (servicesPath sample_client [''groups'', g])) s
       (\<lambda>a1. \<exists>g. a1 = (sim_access s)\<lparr>oa_groups := (oa_groups (sim_access s))(g := None)\<rparr>)"
  using assms
  by (cases "map_of (sm_groups s) g";
      auto intro!: flaky_tries simp: serve_group serve_group(3) [OF assms assms assms] sim_frame(3) sim_group_frame sim_views)+

lemma flaky_unreliable: "unreliable_access flaky_env sample_client sim_name (\<lambda>_. True) sim_stored sim_access"
proof -
  have list: "tries flaky_env sample_client (\<lambda>_. True) sim_stored sim_access (list_request sample_client n) s (\<lambda>a1. False)" for n s
    by (rule flaky_tries) (simp_all add: serve_buckets sim_buckets_def list_request_def request_line)
  have groups: "serves flaky_env sample_client (\<lambda>_. True) sim_stored sim_access (list_groups_request sample_client g) s
      (\<lambda>rep. \<forall>rs. group_records rep = Ok rs \<longrightarrow> (\<forall>r \<in> set rs. sim_name (gr_ID r))) (\<lambda>a1. a1 = sim_access s)" if "sim_name g" for g s
    using that
    by (simp add: serves_def flaky_env_def flaky_send_def serve_group [OF that that that] access_request_line group_reply split: option.split)
  show ?thesis
    unfolding unreliable_access_def Let_def
    by (simp add: list groups flaky_policies flaky_users flaky_groups)
qed


text \<open>Two buckets, and no access objects.\<close>

definition two_buckets :: "sim world" where
  "two_buckets = \<lparr>now = 0, node = empty_sim\<lparr>sm_buckets := [(''b'', 0), (''c'', 0)]\<rparr>\<rparr>"

lemma two_buckets_access:
  "sim_access (node two_buckets) = \<lparr>oa_policies = Map.empty, oa_users = Map.empty, oa_groups = Map.empty\<rparr>"
  "\<forall>n \<in> set [''b'', ''c'']. sim_stored (node two_buckets) n \<noteq> None"
  by (simp_all add: two_buckets_def sim_access_def sim_stored_def empty_sim_def fun_eq_iff)

lemma sample_pairs_flaky: "pairs_ok (env_lower flaky_env) sim_name sample_pairs" "set [''b'', ''c''] \<times> {''u''} \<subseteq> sample_pairs"
  "plain_config zero_Config"
  using sample_pairs_ok by (auto simp: flaky_lower sample_pairs_def plain_config_def zero_Config_def)

lemma grant_retry_converges_witness:
  "\<exists>answers w1 resp w2 k.
    handle_run (s3_server flaky_env identity_keys zero_Config (SetupS3 sample_client None)) None []
      [CallGrant ''u'' [''b'', ''c''], CallGrant ''u'' [''c'']] two_buckets = (answers, w1) \<and>
    DriverGrantBucketAccess (s3_server (sim_env sample_limits) identity_keys zero_Config (SetupS3 sample_client None)) None
      \<lparr>gb_AccountName = ''u'', gb_Buckets = [''b'', ''c''], gb_Parameters = []\<rparr> w1 = (Ok (Some resp), w2) \<and>
    gr_Credentials resp = Some (s3_keys k) \<and> oa_users (sim_access (node w2)) ''u'' = Some k \<and>
    has_access (sim_access (node w2)) ''u'' ''b'' \<and> has_access (sim_access (node w2)) ''u'' ''c''"
proof -
  let ?s = "s3_server flaky_env identity_keys zero_Config (SetupS3 sample_client None)"
  let ?rpcs = "[CallGrant ''u'' [''b'', ''c''], CallGrant ''u'' [''c'']]"
  obtain answers w1 where run: "handle_run ?s None [] ?rpcs two_buckets = (answers, w1)" by fastforce
  have "bound (env_lower flaky_env) sample_pairs (sim_access (node two_buckets))"
    by (simp add: bound_def two_buckets_access)
  from grant_retry_converges [OF flaky_unreliable sim_documented flaky_lower [symmetric] sample_pairs_flaky(1,3) TrueI this _ run _
      sample_pairs_flaky(2) two_buckets_access(2)] run
  show ?thesis by (auto simp: sample_pairs_def)
qed

lemma revoke_retry_converges_witness:
  "\<exists>answers w1 w2.
    handle_run (s3_server flaky_env identity_keys zero_Config (SetupS3 sample_client None)) None []
      [CallGrant ''u'' [''b'', ''c''], CallRevoke ''u'' [''b'']] two_buckets = (answers, w1) \<and>
    DriverRevokeBucketAccess (s3_server (sim_env sample_limits) identity_keys zero_Config (SetupS3 sample_client None)) None
      \<lparr>rb_AccountId = ''u'', rb_Buckets = [''b'', ''c''], rb_Parameters = []\<rparr> w1 = (Ok (Some ()), w2) \<and>
    (\<forall>b. \<not> has_access (sim_access (node w2)) ''u'' b)"
proof -
  let ?s = "s3_server flaky_env identity_keys zero_Config (SetupS3 sample_client None)"
  let ?rpcs = "[CallGrant ''u'' [''b'', ''c''], CallRevoke ''u'' [''b'']]"
  obtain answers w1 where run: "handle_run ?s None [] ?rpcs two_buckets = (answers, w1)" by fastforce
  have "owned (env_lower flaky_env) sample_pairs (sim_access (node two_buckets))"
    by (simp add: owned_def two_buckets_access)
  from revoke_retry_converges [OF flaky_unreliable sim_documented flaky_lower [symmetric] sample_pairs_flaky(1,3) TrueI this _ run _
      sample_pairs_flaky(2)] run
  show ?thesis by (auto simp: sample_pairs_def)
qed


lemma flaky_buckets:
  assumes "\<forall>n sz. W n = Some sz \<longrightarrow> sim_name n"
  shows "unreliable_buckets flaky_env sample_client (\<lambda>_. True) sim_stored (\<lambda>n. {n}) W"
proof -
  have attempt: "ends_jobs flaky_env sample_client (\<lambda>_. True) sim_stored W rq s (\<lambda>_. True)"
    if "rq_method rq = ''GET'' \<or> jobs_done W (sim_stored s) (sim_stored (snd (sim_serve sample_limits rq s)))" for rq s
    using that by (auto simp: ends_jobs_def flaky_env_def flaky_send_def split: prod.split)
  have list: "ends_jobs flaky_env sample_client (\<lambda>_. True) sim_stored W (list_request sample_client n) s
      (\<lambda>rep. \<forall>rs. bucket_records rep = Ok rs \<longrightarrow> (\<forall>r \<in> set rs. br_Name r = n \<longrightarrow> br_UUID r \<in> {n}))" if "sim_name n" for n s
    using that
    by (auto simp: ends_jobs_def flaky_env_def flaky_send_def serve_buckets sim_buckets_def list_request_def request_line
        sample_query bucket_reply split: option.splits)
  have poll: "ends_jobs flaky_env sample_client (\<lambda>_. True) sim_stored W (poll_request sample_client u) s (\<lambda>_. True)" for u s
    by (rule attempt) (simp add: poll_request_def request_line)
  have create: "ends_jobs flaky_env sample_client (\<lambda>_. True) sim_stored W (create_request sample_client n ps sz lock) s (\<lambda>_. True)"
    if "W n = Some sz" "sim_name n" for n sz ps lock s
    using that by (intro attempt disjI2) (simp add: serve_create sim_buckets_frame jobs_done_def)
  have delete: "ends_jobs flaky_env sample_client (\<lambda>_. True) sim_stored W (delete_request sample_client r) s (\<lambda>_. True)"
    if "W (br_UUID r) = Some sz" "sim_name (br_UUID r)" for r :: ontapBucketRecord and sz s
    using that by (intro attempt disjI2) (simp add: serve_delete sim_buckets_frame jobs_done_def)
  have "snd (env_choose flaky_env s) = s" for s by (simp add: flaky_env_def sim_env_def)
  with assms list create delete poll show ?thesis
    by (simp add: unreliable_buckets_def Let_def)
qed

definition retried_calls :: "cosi_call list" where
  "retried_calls = [CallCreate ''b'' [(''size'', ''10'')], CallCreate ''b'' [(''size'', ''10''), (''comment'', ''x'')], CallDelete ''b'']"

lemma create_retry_converges_witness:
  "\<exists>answers w1 resp w3.
    handle_run (s3_server flaky_env identity_keys zero_Config (SetupS3 sample_client None)) (Some (300, CtxDeadlineExceeded)) []
      retried_calls fresh_sim = (answers, w1) \<and>
    DriverCreateBucket (s3_server (sim_env sample_limits) identity_keys zero_Config (SetupS3 sample_client None)) None
      \<lparr>cb_Name = ''b'', cb_Parameters = [(''size'', ''10'')]\<rparr> w1 = (Ok (Some resp), w3) \<and> cr_BucketId resp = ''b'' \<and>
    sizes sim_stored (node w3) ''b'' = Some (10 * gib)"
proof -
  let ?s = "s3_server flaky_env identity_keys zero_Config (SetupS3 sample_client None)"
  let ?cx = "Some (300, CtxDeadlineExceeded)"
  let ?W = "[''b'' \<mapsto> 10 * gib]"
  have size: "parseBucketSize (trim_space (param_get [(''size'', ''10'')] sizeKey)) = Ok (10 * gib)"
    "parseBucketSize (trim_space (param_get [(''size'', ''10''), (''comment'', ''x'')] sizeKey)) = Ok (10 * gib)"
    "object_locking [(''size'', ''10'')] \<noteq> None" "\<not> lim_quota sample_limits" "sim_name ''b''"
    by (code_simp, code_simp, code_simp, simp add: sample_limits_def, code_simp)
  obtain answers w1 where run: "handle_run ?s ?cx [] retried_calls fresh_sim = (answers, w1)" by fastforce
  have tries: "\<forall>rpc \<in> set retried_calls. bucket_attempt ?W rpc" by (simp add: retried_calls_def size)
  have names: "\<forall>n sz. ?W n = Some sz \<longrightarrow> sim_name n" using size(5) by simp
  have docs: "documented_ontap (sim_env sample_limits) sample_client sample_limits sim_name (\<lambda>_. True) sim_stored"
    by (rule documented_access_buckets [OF sim_documented])
  have "sim_stored (node fresh_sim) ''b'' = None" "?W ''b'' = Some (10 * gib)"
    by (simp_all add: fresh_sim_def sim_stored_def empty_sim_def)
  from create_retry_converges [OF flaky_buckets [OF names] docs sample_pairs_flaky(3) TrueI tries run TrueI jobs_done_refl
      size(5) this(2,1) sample_size(1) size(3,4)] run
  show ?thesis by blast
qed

end
