(* ===== verification/Spec2Isabelle.thy ===== *)
theory Spec2Isabelle
  imports Lifecycle OntapSim
begin

text \<open>
  Verification of ontap-cosi-driver, a COSI driver that provisions S3 buckets on ONTAP.

  \<^bold>\<open>The program.\<close> The sidecar calls four RPCs of the provisioner service (\<open>pkg/driver/provisioner.go\<close>):
  create and delete a bucket, grant and revoke access to buckets. A handler resolves a backend client
  (the driver's own, or one built for the request from a tenant's Secret,
  \<open>pkg/driver/multitenant.go\<close>) and calls it through the interface \<open>clients.Client\<close>
  (\<open>pkg/clients/common.go\<close>). There are two backends: the ONTAP REST client (\<open>pkg/clients/s3/s3.go\<close>) and an
  in-memory fake (\<open>pkg/clients/fake/fake.go\<close>). \<open>cmd/ontap-cosi-driver/main.go\<close> reads environment variables
  and the configuration file (\<open>pkg/config/config.go\<close>), chooses the backend and registers the services;
  the identity service (\<open>pkg/driver/identity.go\<close>) only names the driver.

  \<^bold>\<open>Theories.\<close>
  \<^item> \<open>Prelude\<close>: results of Go calls (\<open>Ok\<close>, \<open>Err\<close>, \<open>Panic\<close>) and computations over an explicit world.
  \<^item> \<open>GoStrings\<close>, \<open>GoUrl\<close>, \<open>GoJson\<close>, \<open>GoMarshal\<close>, \<open>GoQuote\<close>: what the driver uses of Go's \<open>strings\<close>, \<open>strconv\<close>,
    \<open>path\<close>, \<open>net/url\<close> and \<open>encoding/json\<close> in both directions, byte by byte, with round trips and injectivity.
  \<^item> \<open>Errors\<close>: error values, \<open>errors.Is\<close>, \<open>errors.As\<close>, status codes, quota messages, texts of errors.
  \<^item> \<open>Http\<close>: the state of the ONTAP client and \<open>doJSON\<close>; \<open>Paths\<close>: \<open>servicesPath\<close>, \<open>bucketsPath\<close>, \<open>jobsPath\<close>.
  \<^item> \<open>Transcript\<close>: the exchanges of an operation, recorded beside it, and the rules to reason about
    them; \<open>Scripted\<close>: an ONTAP system that answers from a script, for concrete runs.
  \<^item> \<open>Jobs\<close>: \<open>waitForJob\<close> with its ticker, timeout and \<open>select\<close>.
  \<^item> \<open>Buckets\<close>: \<open>parseBucketSize\<close>, \<open>BucketExists\<close>, \<open>IsBucketEqual\<close>, \<open>CreateBucket\<close>, \<open>DeleteBucket\<close>.
  \<^item> \<open>Access\<close>: \<open>CreateBucketAccess\<close>, \<open>DeleteBucketAccess\<close> and the policies, users and groups below them.
  \<^item> \<open>Wire\<close>: what a reader finds in the bodies of the requests, and the texts of ONTAP's errors.
  \<^item> \<open>S3Client\<close>: \<open>NewFromConfig\<close>, \<open>S3Endpoint\<close>, and the client as a backend.
  \<^item> \<open>Interface\<close>, \<open>Contracts\<close>: the interface \<open>clients.Client\<close> and what the server relies on in it, as the
    locales \<open>safe_backend\<close> and \<open>bucket_store\<close>; \<open>Fake\<close>: the fake backend.
  \<^item> \<open>DriverConfig\<close>, \<open>Identity\<close>, \<open>Provisioner\<close>, \<open>Tenant\<close>, \<open>Startup\<close>: one Go file each; \<open>Provisioner\<close> holds the
    locales \<open>safe_server\<close> and \<open>store_server\<close>, which \<open>Startup\<close> interprets on the servers that \<open>run\<close> sets up.
  \<^item> \<open>CosiSpec\<close>: what the comments and the README promise of the provisioner service, as an abstract machine,
    and the calls for which the code keeps it (\<open>within_contract\<close>); there every server over a \<open>bucket_store\<close>
    refines it.
  \<^item> \<open>Ontap\<close>, \<open>OntapAccess\<close>, \<open>OntapCosi\<close>: the driver together with an ONTAP system: what it relies on there for
    buckets and for access, with the system's refusals (full buckets, quota), and the refinement of an
    abstract store for \<open>proper_calls\<close>; \<open>OntapRetry\<close>, \<open>OntapBuckets\<close>: what interrupted RPCs leave behind, and the
    RPC that is retried; \<open>OntapSim\<close>: a simulator of ONTAP that reads the requests byte by byte, refuses what its
    limits say and satisfies those hypotheses, and one that loses replies.
  \<^item> \<open>Lifecycle\<close>: the listener, and the process from the call of \<open>Serve\<close> to its exit as a step relation over
    the goroutines of \<open>run\<close>, of \<open>shutdown\<close> and of its drainer.

  \<^bold>\<open>State.\<close> An operation is a function of the world it changes: for the ONTAP client the clock (in
  milliseconds) and the state of everything outside, for the fake backend its two maps and the random
  generator. The records \<open>client\<close>, \<open>config\<close>, \<open>ProvisionerServer\<close>, \<open>runOptions\<close> have the fields of the Go
  structs. A Go map is an association list whose first binding counts, or a function for the fake
  store. A context is the time and the reason of its end.

  \<^bold>\<open>Parameters.\<close> The record \<open>env\<close> stands for what is not in the repository: the HTTP exchange (any reply,
  any network error, any duration, a refusal to build the request), the choice that \<open>select\<close> makes among
  ready cases, the Unicode case table beyond ASCII, the CA file, the system certificate pool, the PEM
  parser and the Kubernetes Secrets. Others are the table of printable runes, the random generator of the
  fake backend, the order in which Go visits a map literal, the results of opening and decoding the
  configuration file, the operating system's sockets and the gRPC server. The properties hold for all
  values of them, but for two groups that name what they rely on: those of \<open>Lifecycle\<close> on the documented
  behaviour of the gRPC server (\<open>documented_server\<close>), those of the theories on ONTAP on its
  behaviour (\<open>documented_access\<close>, for given limits; \<open>unreliable_access\<close> and \<open>unreliable_buckets\<close> where requests, replies and
  jobs may be lost). The witnesses instantiate them with executable systems.

  \<^bold>\<open>What is shown.\<close> Transcripts: a successful operation of the ONTAP client has sent exactly the requests
  the code means to send, with bodies that read back as meant, and its result is what the replies say.
  Time: \<open>waitForJob\<close> ends within 300 seconds and 151 polls (one at the start and one per tick of 2 seconds
  up to the timeout), and reports a job that ends in time. Values: the size parameter is converted exactly
  and without overflow, plain names have distinct paths, names derived for policies and groups are
  distinct for names of fixed lengths, tenants never get the operator's identity. Server: the handlers
  never panic with a backend, answer for exactly the requested buckets and map errors to the documented
  codes. Over the fake backend and over a documented ONTAP system the service refines an abstract store,
  for every sequence of calls that stays clear of the deviations below, and a creation, a grant or a
  revocation that is retried after failures at any of its requests does its whole job. These results on
  runs are about one driver with distinct derived names; over ONTAP the bucket override is left out, and
  every revocation has to list all the buckets of its account, whose user it deletes. Process: the shutdown drains
  or stops the server within the grace period, always ends, and leaks no goroutine. Some properties state behaviour that contradicts the comments of
  the code or the README: the inverted flag of \<open>getName\<close> (a bucket that exists with another
  size is answered with success instead of AlreadyExists), derived names that coincide, names that are escaped
  twice, paths that lose empty names, a missing mode, injected errors with code OK, an endpoint whose scheme
  overrules the SSL setting, a signal before \<open>Serve\<close>, the address of a tcp endpoint. That grants ignore the
  bucket override is left out by \<open>within_contract\<close>.

  \<^bold>\<open>Bounds.\<close> No function runs on fuel. The poll loop ends by a measure on ticks, the other recursions on
  the length of their input; the nesting depth of 10000 in \<open>GoJson\<close> is the one of Go's scanner.

  \<^bold>\<open>Not modelled.\<close> Logging and the command-line flags that configure it; the YAML decoder, and what
  the errors of \<open>url.Parse\<close> and of the JSON decoder say (fixed texts stand for them). RPCs run one at a
  time: for ONTAP the state of everything else may change arbitrarily at every exchange, but the fake
  backend's maps are not shared between running handlers, although the code does not lock them.
\<close>

section \<open>From ONTAP's answer to the code of the RPC\<close>

text \<open>
  C19: If ONTAP lists no bucket of the name and refuses the creation with a message that says
  the quota is exhausted, the RPC ends with ResourceExhausted, the code the sidecar does not
  retry.
\<close>

theorem quota_rejection_is_terminal:
  assumes "er_CreateBucket (dc_Errors cfg) = None" "ov_BucketID (dc_Overrides cfg) = []"
    and "listBucketsByName env c cx n w = (Ok [], w1)"
    and "parseBucketSize (trim_space (param_get ps sizeKey)) = Ok sz" "object_locking ps = Some lock"
    and "http_do env (c_httpClient c) cx (create_request c n ps sz lock) w1 = (Reply code raw, w2)"
    and "code < 200 \<or> 300 \<le> code" "isQuotaExhaustedMessage (he_message (api_error code raw))"
  shows "\<exists>e. DriverCreateBucket (s3_server env order cfg (SetupS3 c None)) cx \<lparr>cb_Name = n, cb_Parameters = ps\<rparr> w =
    (Err e, w2) \<and> status_code e = ResourceExhausted"
proof -
  have size: "trim_space (param_get ps sizeKey) \<noteq> []"
    using assms(4) parseBucketSize_Nil by auto
  have exists: "BucketExists env c cx n w = (Ok False, w1)"
    using assms(3) by (simp add: BucketExists_def io_simps)
  have quota: "he_quotaExhausted (api_error code raw)"
    using assms(8) by (simp add: api_error_def Let_def)
  have "createBucketAsync env c cx (create_body n sz (trim_space (param_get ps commentKey)) lock) w1 =
      (Err (HTTPErr (api_error code raw)), w2)"
    using assms(6,7) by (simp add: createBucketAsync_def doJSON_def create_request_def read_reply_def io_simps)
  then have create: "CreateBucket env c cx n ps w1 =
      (Err (Wrapped ''failed to initiate bucket creation: '' (HTTPErr (api_error code raw))), w2)"
    using size assms(4,5) by (simp add: CreateBucket_cases run_job_def io_simps Let_def)
  show ?thesis
    using assms(1,2) exists create quota
    by (simp add: DriverCreateBucket_def s3_server_def resolveClient_def getName_def call_def create_or_reuse_def
        s3_backend_def io_simps ontapHTTPError_Is_def)
qed

definition quota_reply :: string where
  "quota_reply = obj [(''error'', obj [(''message'', dq ''denied the request: Bucket Quota exhausted for object store'')])]"

lemma quota_rejection_is_terminal_witness:
  "\<exists>e. DriverCreateBucket (s3_server scripted identity_keys zero_Config (SetupS3 sample_client None)) None
      \<lparr>cb_Name = ''b'', cb_Parameters = [(''size'', ''10'')]\<rparr> (play [(200, records_of []), (403, quota_reply)]) =
    (Err e, \<lparr>now = 20, node = []\<rparr>) \<and> status_code e = ResourceExhausted"
proof (rule quota_rejection_is_terminal [where code = 403 and raw = quota_reply and lock = False and sz = "10 * gib"])
  show "listBucketsByName scripted sample_client None ''b'' (play [(200, records_of []), (403, quota_reply)]) =
      (Ok [], \<lparr>now = 10, node = [(Reply 403 quota_reply, 10)]\<rparr>)"
    by (simp add: listBucketsByName_def script_records)
  show "isQuotaExhaustedMessage (he_message (api_error 403 quota_reply))"
    by code_simp
qed (simp_all add: zero_Config_def script_size http_do_def)

section \<open>Runs of the driver\<close>

text \<open>A fake driver with one bucket, an optional override, and a random generator that counts.\<close>

definition demo_client :: fake_client where
  "demo_client =
     \<lparr>fc_platform = S3Key,
      fc_credentialFunc = (\<lambda>ident key. [(S3SecretAccessKeyID, ident), (S3SecretAccessSecretKey, key)]),
      fc_protocolFunc = ObjectProtocol_S3\<rparr>"

definition demo_backend :: "fake_world backend" where
  "demo_backend = fake_backend (\<lambda>n. (n, n + 1)) demo_client"

definition demo_server :: "string \<Rightarrow> fake_world ProvisionerServer" where
  "demo_server ov = fake_server (\<lambda>n. (n, n + 1)) (zero_Config\<lparr>dc_Overrides := \<lparr>ov_BucketID = ov\<rparr>\<rparr>) (SetupFake demo_client)"

definition demo_world :: fake_world where
  "demo_world = \<lparr>fw_Buckets = [''b'' \<mapsto> [(''size'', ''10'')]], fw_Accesses = Map.empty, fw_rng = 0\<rparr>"

lemma demo_simps:
  "resolveClient (demo_server ov) cx ps w = (Ok (Some demo_backend), w)"
  "er_CreateBucket (dc_Errors (ps_Config (demo_server ov))) = None"
  "er_GrantBucketAccess (dc_Errors (ps_Config (demo_server ov))) = None"
  "ov_BucketID (dc_Overrides (ps_Config (demo_server ov))) = ov"
  "bk_BucketExists demo_backend cx n demo_world = (Ok (n = ''b''), demo_world)"
  by (simp_all add: demo_server_def demo_backend_def fake_server_def resolveClient_def zero_Config_def
      fake_ops demo_world_def io_ok_def)

lemma DriverCreateBucket_reuses_witness:
  "DriverCreateBucket (demo_server []) None \<lparr>cb_Name = ''b'', cb_Parameters = [(''size'', ''20'')]\<rparr> demo_world =
     (Ok (Some (create_response demo_backend ''b'')), demo_world)"
  using DriverCreateBucket_reuses_without_comparison [of "demo_server []" None
      "\<lparr>cb_Name = ''b'', cb_Parameters = [(''size'', ''20'')]\<rparr>" demo_world demo_backend demo_world demo_world]
  by (simp add: demo_simps)

lemma DriverCreateBucket_compares_override_witness:
  "DriverCreateBucket (demo_server ''b'') None \<lparr>cb_Name = ''x'', cb_Parameters = [(''size'', ''20'')]\<rparr> demo_world =
     (Err (Status AlreadyExists ''bucket already exists: b''), demo_world)"
proof -
  have "bk_IsBucketEqual demo_backend None ''b'' [(''size'', ''20'')] demo_world = (Ok False, demo_world)"
    by (simp add: demo_backend_def fake_ops demo_world_def maps_equal_def)
  then show ?thesis
    using DriverCreateBucket_compares_override [of "demo_server ''b''" None
        "\<lparr>cb_Name = ''x'', cb_Parameters = [(''size'', ''20'')]\<rparr>" demo_world demo_backend demo_world "''b''" demo_world]
    by (simp add: demo_simps)
qed

lemma DriverCreateBucket_creates_witness:
  "fst (DriverCreateBucket (demo_server []) None \<lparr>cb_Name = ''c'', cb_Parameters = []\<rparr> demo_world) =
     Ok (Some (create_response demo_backend ''c''))"
proof -
  have "fst (getName (demo_server []) ''c'') = ''c''"
    by (simp add: getName_def demo_simps)
  then show ?thesis
    using DriverCreateBucket_creates [of "demo_server []" None "\<lparr>cb_Name = ''c'', cb_Parameters = []\<rparr>" demo_world
        demo_backend demo_world "''c''" demo_world]
    by (simp add: demo_simps) (simp add: demo_backend_def fake_ops)
qed

lemma DriverGrantBucketAccess_response_witness:
  "\<exists>ci w'. DriverGrantBucketAccess (demo_server []) None
      \<lparr>gb_AccountName = ''u'', gb_Buckets = [''b''], gb_Parameters = []\<rparr> demo_world =
    (Ok (Some \<lparr>gr_AccountId = ''u'', gr_Buckets = [grant_info demo_backend ''b''], gr_Credentials = Some ci\<rparr>), w')"
proof -
  let ?req = "\<lparr>gb_AccountName = ''u'', gb_Buckets = [''b''], gb_Parameters = []\<rparr>"
  let ?cfg = "zero_Config\<lparr>dc_Overrides := \<lparr>ov_BucketID = []\<rparr>\<rparr>"
  have plain: "?cfg\<lparr>dc_Errors := dc_Errors zero_Config\<rparr> = ?cfg"
    by (simp add: zero_Config_def)
  have "\<exists>resp w'. DriverGrantBucketAccess (demo_server []) None ?req demo_world = (Ok resp, w')"
    using fake_stores.grant_ok [where cfg = ?cfg and rnd = "\<lambda>n. (n, n + 1)" and c = demo_client, unfolded plain,
        of ?req demo_world None]
    by (auto simp: demo_server_def demo_world_def)
  then obtain resp w' where "DriverGrantBucketAccess (demo_server []) None ?req demo_world = (Ok resp, w')" by blast
  with DriverGrantBucketAccess_response [of "demo_server []" None ?req demo_world demo_backend demo_world resp w']
  show ?thesis by (auto simp: demo_simps)
qed

lemma DriverGrantBucketAccess_codes_witness:
  "\<exists>e w'. DriverGrantBucketAccess (demo_server []) None
      \<lparr>gb_AccountName = ''u'', gb_Buckets = [''missing''], gb_Parameters = []\<rparr> demo_world = (Err e, w') \<and>
    status_code e \<in> {InvalidArgument, Internal, NotFound, ResourceExhausted, Unavailable}"
proof -
  let ?req = "\<lparr>gb_AccountName = ''u'', gb_Buckets = [''missing''], gb_Parameters = []\<rparr>"
  have run: "DriverGrantBucketAccess (demo_server []) None ?req demo_world =
      (Err (StatusErrf NotFound ErrBucketNotFound), demo_world)"
    by (simp add: DriverGrantBucketAccess_def demo_simps call_def grant_bucket_def io_simps)
  from DriverGrantBucketAccess_codes [OF _ run] run show ?thesis by (auto simp: demo_simps)
qed

lemma injected_errors_witness:
  "\<exists>s. ps_Client s = Some demo_backend \<and>
     DriverDeleteBucket s None \<lparr>db_BucketId = ''b'', db_Parameters = []\<rparr> demo_world = (Ok None, demo_world) \<and>
     DriverGrantBucketAccess s None \<lparr>gb_AccountName = ''u'', gb_Buckets = [''b''], gb_Parameters = []\<rparr> demo_world =
     DriverGrantBucketAccess (demo_server []) None \<lparr>gb_AccountName = ''u'', gb_Buckets = [''b''], gb_Parameters = []\<rparr> demo_world"
proof -
  let ?se = "\<lparr>se_Message = ''planned'', se_Code = OK\<rparr>"
  let ?none = "dc_Errors zero_Config"
  let ?errs = "?none\<lparr>er_DeleteBucket := Some ?se\<rparr>"
  let ?s = "with_errors (demo_server []) ?errs"
  have base: "with_errors (demo_server []) ?none = demo_server []"
    by (simp add: with_errors_def demo_server_def fake_server_def zero_Config_def)
  have "resolveClient (demo_server []) None [] demo_world = (Ok (Some demo_backend), demo_world)" by (simp add: demo_simps)
  note injected = injected_errors [OF this, where errs = ?errs and ?errs1.0 = ?none and se = ?se and n = "''b''" and bs = "[''b'']" and u = "''u''"
      and gb = "\<lparr>gb_AccountName = ''u'', gb_Buckets = [''b''], gb_Parameters = []\<rparr>", unfolded base]
  have "DriverDeleteBucket ?s None \<lparr>db_BucketId = ''b'', db_Parameters = []\<rparr> demo_world = (Ok None, demo_world)"
    using injected by (simp add: injected_outcome_def)
  moreover have "DriverGrantBucketAccess ?s None \<lparr>gb_AccountName = ''u'', gb_Buckets = [''b''], gb_Parameters = []\<rparr> demo_world =
      DriverGrantBucketAccess (demo_server []) None \<lparr>gb_AccountName = ''u'', gb_Buckets = [''b''], gb_Parameters = []\<rparr> demo_world"
    using injected by simp
  moreover have "ps_Client ?s = Some demo_backend"
    by (simp add: with_errors_def demo_server_def demo_backend_def fake_server_def)
  ultimately show ?thesis by blast
qed

text \<open>A tenant server whose loader reads the scripted Secrets.\<close>

definition tenant_server :: "script world ProvisionerServer" where
  "tenant_server = s3_server scripted identity_keys zero_Config (SetupS3 sample_client (Some sample_defaults))"

lemma tenant_requests_ignore_own_client_witness:
  "DriverDeleteBucket (tenant_server\<lparr>ps_Client := None\<rparr>) None
      \<lparr>db_BucketId = ''b'', db_Parameters = [(TenantNamespaceParam, ''tenant-a'')]\<rparr> (play []) =
   DriverDeleteBucket tenant_server None
      \<lparr>db_BucketId = ''b'', db_Parameters = [(TenantNamespaceParam, ''tenant-a'')]\<rparr> (play [])"
proof -
  have tenant: "ps_Tenant tenant_server = Some (Load scripted identity_keys sample_defaults)"
    by (simp add: tenant_server_def s3_server_def)
  have ns: "param_get [(TenantNamespaceParam, ''tenant-a'')] TenantNamespaceParam \<noteq> []"
    by (simp add: param_get_def)
  show ?thesis
    using tenant_requests_ignore_own_client [OF tenant ns, where c = None and cx = None and n = "''b''" and w = "play []"]
    by blast
qed

lemma tenant_load_failure_witness:
  "\<exists>e. DriverDeleteBucket tenant_server None
      \<lparr>db_BucketId = ''b'', db_Parameters = [(TenantNamespaceParam, ''tenant-b'')]\<rparr> (play []) =
     (Err (StatusErrf Unavailable e), (play [])\<lparr>now := 5\<rparr>)"
proof -
  have tenant: "ps_Tenant tenant_server = Some (Load scripted identity_keys sample_defaults)"
    by (simp add: tenant_server_def s3_server_def)
  have ns: "param_get [(TenantNamespaceParam, ''tenant-b'')] TenantNamespaceParam = ''tenant-b''"
    by (simp add: param_get_def)
  have "\<exists>e. Load scripted identity_keys sample_defaults None ''tenant-b'' (play []) = (Err e, (play [])\<lparr>now := 5\<rparr>)"
    by (simp add: Load_def secret_Get_def scripted_def)
  then show ?thesis
    using tenant_load_failure [OF tenant ns] by fastforce
qed

lemma plain_zero [simp]: "plain_config zero_Config"
  by (simp add: plain_config_def zero_Config_def)

lemma fake_create_idempotent_witness:
  "\<exists>r w1. DriverCreateBucket (fake_server (\<lambda>n. (n, n + 1)) zero_Config (SetupFake demo_client)) None
      \<lparr>cb_Name = ''c'', cb_Parameters = []\<rparr> demo_world = (r, w1) \<and>
    DriverCreateBucket (fake_server (\<lambda>n. (n, n + 1)) zero_Config (SetupFake demo_client)) None
      \<lparr>cb_Name = ''c'', cb_Parameters = [(''size'', ''1'')]\<rparr> w1 = (r, w1)"
proof -
  obtain r w1 where "DriverCreateBucket (fake_server (\<lambda>n. (n, n + 1)) zero_Config (SetupFake demo_client)) None
      \<lparr>cb_Name = ''c'', cb_Parameters = []\<rparr> demo_world = (r, w1)" by fastforce
  with fake_create_idempotent [OF plain_zero this] show ?thesis by blast
qed

lemma fake_lifecycle_witness:
  "\<exists>w1. DriverCreateBucket (fake_server (\<lambda>n. (n, n + 1)) zero_Config (SetupFake demo_client)) None
      \<lparr>cb_Name = ''c'', cb_Parameters = []\<rparr> demo_world =
    (Ok (Some (create_response (fake_backend (\<lambda>n. (n, n + 1)) demo_client) ''c'')), w1)"
  using fake_lifecycle [OF plain_zero, where n = "''c''" and w = demo_world and u = "''u''" and rnd = "\<lambda>n. (n, n + 1)"
      and c = demo_client and cx = None and ps = "[]"]
  by (auto simp: demo_world_def)

lemma fake_grant_stops_at_missing_bucket_witness:
  "\<exists>w1. DriverGrantBucketAccess (fake_server (\<lambda>n. (n, n + 1)) zero_Config (SetupFake demo_client)) None
      \<lparr>gb_AccountName = ''u'', gb_Buckets = [''b'', ''missing''], gb_Parameters = []\<rparr> demo_world =
      (Err (StatusErrf NotFound ErrBucketNotFound), w1) \<and> fw_Accesses w1 ''u'' = Some ''b''"
  using fake_grant_stops_at_missing_bucket [OF plain_zero, where ns = "[''b'']" and w = demo_world and m = "''missing''"
      and rest = "[]" and u = "''u''" and rnd = "\<lambda>n. (n, n + 1)" and c = demo_client and cx = None and ps = "[]"]
  by (auto simp: demo_world_def)

lemma choose_backend_spec_witness:
  "\<exists>f. choose_backend scripted (None, None) (read_options []) ModeS3Fake = Ok (SetupFake f) \<and> fc_platform f = S3Key"
proof -
  have "ModeS3Fake \<noteq> ModeAzure" "ModeS3Fake \<noteq> ModeS3" "ModeS3Fake \<noteq> ModeAzureFake" "''s3'' = S3Key" "S3Key \<noteq> AzureKey"
    by code_simp+
  then obtain f where f: "choose_backend scripted (None, None) (read_options []) ModeS3Fake = Ok (SetupFake f)"
    by (simp add: choose_backend_def fake_New_def)
  from choose_backend_spec [OF f] f show ?thesis by auto
qed



end
